(* ===== verification/Prelude.thy ===== *)
theory Prelude
  imports Main "HOL-Library.Word"
begin

text \<open>
  The prelude of the development: the machine types the C code computes with, the
  outcomes a C function can have, raw memory blocks with bounds-checked copies, the
  little-endian object representation of machine words, and the lemma collections the
  component theories share.
\<close>

named_theorems size_arith \<open>moving 64-bit size arithmetic to natural numbers\<close>

section \<open>Machine types\<close>

type_synonym byte = "8 word"
type_synonym size_t = "64 word"
type_synonym uint32 = "32 word"
type_synonym cint = "32 word"
type_synonym pointer = "64 word"

section \<open>Outcomes of C functions\<close>

text \<open>
  A fault ends the modelled behaviour: undefined behaviour of the C program (an access
  outside the object it points into, a division by zero, a buffer that is touched while a copy uses it, a Lua stack that no
  longer has the layout the code indexes) or a Lua error that no protected call catches, which ends the process.
  \<open>NoFuel\<close> is no behaviour of the program: it marks a recursion cut off by its fuel, and the
  theories that use fuel prove that it does not occur.
\<close>

datatype fault = OutOfBounds | DivByZero | StackCorrupt | LuaPanic | NoFuel | DataRace

datatype 'a res = Ok 'a | Crash fault

definition res_bind :: "'a res \<Rightarrow> ('a \<Rightarrow> 'b res) \<Rightarrow> 'b res" where
  "res_bind m f = (case m of Ok x \<Rightarrow> f x | Crash e \<Rightarrow> Crash e)"

lemma res_bind_simps [simp]:
  "res_bind (Ok x) f = f x"
  "res_bind (Crash e) f = Crash e"
  by (simp_all add: res_bind_def)

section \<open>Sizes\<close>

text \<open>
  Objects of a C program are at most \<open>PTRDIFF_MAX\<close> bytes long; \<^term>\<open>max_object\<close> is the
  first size that no object has.
\<close>

definition max_object :: nat where
  "max_object = 2 ^ 63"

lemma unat_add_small [size_arith]:
  "unat a + unat b < 2 ^ 64 \<Longrightarrow> unat (a + b) = unat a + unat (b :: size_t)"
  by (simp add: unat_word_ariths)

lemma unat_diff_le [size_arith]:
  "unat b \<le> unat a \<Longrightarrow> unat (a - b) = unat a - unat (b :: size_t)"
  by (rule unat_sub) (simp add: word_le_nat_alt)

lemma unat_of_nat_size:
  "n < 2 ^ 64 \<Longrightarrow> unat (of_nat n :: size_t) = n"
  by (simp add: unat_of_nat)

lemma eq_of_nat_size: "unat i = n \<Longrightarrow> i = (of_nat n :: size_t)"
  by auto

lemmas size_cmp = word_less_nat_alt word_le_nat_alt

lemma size_eq_iff: "(a :: size_t) = b \<longleftrightarrow> unat a = unat b"
  by (simp add: word_unat_eq_iff)

lemma wrap_mod: "c \<le> x \<Longrightarrow> x < 2 * c \<Longrightarrow> x mod c = x - (c :: nat)"
  by (simp add: mod_if)

section \<open>Memory blocks\<close>

text \<open>
  A block obtained from \<open>malloc\<close>: its size and its bytes, which are whatever the
  allocator left there until they are written.
\<close>

record mem =
  msize :: nat
  mdata :: "nat \<Rightarrow> byte"

definition malloc :: "(nat \<Rightarrow> byte) \<Rightarrow> nat \<Rightarrow> mem" where
  "malloc junk n = \<lparr>msize = n, mdata = junk\<rparr>"

text \<open>
  \<open>mem_write m off src from n\<close> is \<open>memcpy(&m[off], &src[from], n)\<close>, and \<open>mem_read m off n\<close> the
  bytes \<open>memcpy(out, &m[off], n)\<close> delivers.
\<close>

definition mem_write :: "mem \<Rightarrow> nat \<Rightarrow> byte list \<Rightarrow> nat \<Rightarrow> nat \<Rightarrow> mem res" where
  "mem_write m off src from n =
     (if off + n \<le> msize m \<and> from + n \<le> length src
      then Ok (m\<lparr>mdata := (\<lambda>k. if off \<le> k \<and> k < off + n then src ! (from + (k - off)) else mdata m k)\<rparr>)
      else Crash OutOfBounds)"

definition mem_read :: "mem \<Rightarrow> nat \<Rightarrow> nat \<Rightarrow> byte list res" where
  "mem_read m off n =
     (if off + n \<le> msize m then Ok (map (mdata m) [off..<off + n]) else Crash OutOfBounds)"

section \<open>Object representation of machine words\<close>

text \<open>
  The bytes of an integer object, lowest address first, on the little-endian machines the
  library runs on: \<^term>\<open>le_bytes n w\<close> are the lowest \<open>n\<close> bytes of \<open>w\<close>.
\<close>

primrec le_bytes :: "nat \<Rightarrow> 'a::len word \<Rightarrow> byte list" where
  "le_bytes 0 w = []"
| "le_bytes (Suc n) w = ucast w # le_bytes n (drop_bit 8 w)"

primrec le_word :: "byte list \<Rightarrow> 'a::len word" where
  "le_word [] = 0"
| "le_word (b # bs) = or (ucast b) (push_bit 8 (le_word bs))"

lemma length_le_bytes [simp]: "length (le_bytes n w) = n"
  by (induction n arbitrary: w) simp_all

lemma le_bytes_eq_Nil [simp]: "le_bytes n w = [] \<longleftrightarrow> n = 0"
  by (cases n) simp_all

lemma le_word_le_bytes: "le_word (le_bytes n w) = take_bit (8 * n) (w :: 'a::len word)"
proof (induction n arbitrary: w)
  case 0
  then show ?case by simp
next
  case (Suc n)
  have "or (ucast (ucast w :: byte)) (push_bit 8 (take_bit (8 * n) (drop_bit 8 w)))
          = take_bit (8 * Suc n) w"
    by (rule bit_word_eqI)
      (auto simp: bit_simps possible_bit_def)
  with Suc show ?case by simp
qed

lemma le_word_size [simp]: "le_word (le_bytes 8 w) = (w :: 64 word)"
  by (simp add: le_word_le_bytes take_bit_word_eq_self)

lemma le_word_int [simp]: "le_word (le_bytes 4 w) = (w :: 32 word)"
  by (simp add: le_word_le_bytes take_bit_word_eq_self)

lemma unat_of_nat_uint32 [size_arith]: "n < 2 ^ 32 \<Longrightarrow> unat (of_nat n :: uint32) = n"
  by (simp add: unat_of_nat take_bit_nat_eq_self)

lemma upt_split: "a \<le> b \<Longrightarrow> b \<le> c \<Longrightarrow> [a..<c] = [a..<b] @ [b..<c]"
  by (metis le_Suc_ex upt_add_eq_append)

end
