(* ===== verification/RingBuffer.thy ===== *)
theory RingBuffer
  imports Prelude
begin

text \<open>
  The ring buffer of \<^verbatim>\<open>src/ringbuffer.c\<close>: the struct with its 64-bit positions, one definition
  per function, and the proof that the positions stay inside the buffer and that the
  operations are those of a bounded queue of bytes. The queue contract is the locale
  \<open>byte_fifo\<close>, which extends that of reading, \<open>byte_source\<close>; the serializer relies on both.
\<close>

section \<open>Model\<close>

record ringbuffer =
  buf :: mem
  cb :: size_t
  rp :: size_t
  wp :: size_t
  rcb :: size_t
  saved_wp :: size_t
  saved_rcb :: size_t

definition ringbuffer_create :: "(nat \<Rightarrow> byte) \<Rightarrow> size_t \<Rightarrow> ringbuffer" where
  "ringbuffer_create junk n =
     \<lparr>buf = malloc junk (unat n), cb = n, rp = 0, wp = 0, rcb = 0, saved_wp = 0, saved_rcb = 0\<rparr>"

text \<open>A pointer to a ring buffer is \<open>None\<close> once the buffer is freed.\<close>

definition ringbuffer_destroy :: "ringbuffer option \<Rightarrow> ringbuffer option res" where
  "ringbuffer_destroy p = (case p of None \<Rightarrow> Crash OutOfBounds | Some _ \<Rightarrow> Ok None)"

definition c_min :: "size_t \<Rightarrow> size_t \<Rightarrow> size_t" where
  "c_min a b = (if a < b then a else b)"

text \<open>
  \<open>ringbuffer_write rb inp n\<close>: \<open>inp\<close> is the object the argument \<open>in\<close> points to, \<open>None\<close> for a
  null pointer, with which the function only moves the write position. The division
  \<open>% rb->cb\<close> traps when the capacity is zero.
\<close>

definition ringbuffer_write ::
    "ringbuffer \<Rightarrow> byte list option \<Rightarrow> size_t \<Rightarrow> (size_t \<times> ringbuffer) res" where
  "ringbuffer_write rb inp n =
     (let i = c_min n (cb rb - rcb rb) in
      if wp rb + i < cb rb then
        res_bind (case inp of None \<Rightarrow> Ok (buf rb)
                  | Some in8 \<Rightarrow> mem_write (buf rb) (unat (wp rb)) in8 0 (unat i))
          (\<lambda>m. Ok (i, rb\<lparr>buf := m, wp := wp rb + i, rcb := rcb rb + i\<rparr>))
      else if cb rb = 0 then Crash DivByZero
      else
        let size2 = (wp rb + i) mod cb rb; size1 = i - size2 in
        res_bind (case inp of None \<Rightarrow> Ok (buf rb)
                  | Some in8 \<Rightarrow>
                      res_bind (mem_write (buf rb) (unat (wp rb)) in8 0 (unat size1))
                        (\<lambda>m. mem_write m 0 in8 (unat size1) (unat size2)))
          (\<lambda>m. Ok (i, rb\<lparr>buf := m, wp := size2, rcb := rcb rb + i\<rparr>)))"

text \<open>
  \<open>ringbuffer_read rb room n\<close>: \<open>room\<close> is the size of the object the argument \<open>out\<close> points to;
  the result is the returned count, the bytes stored in \<open>out\<close> and the ring buffer after.
\<close>

definition ringbuffer_read ::
    "ringbuffer \<Rightarrow> nat \<Rightarrow> size_t \<Rightarrow> (size_t \<times> byte list \<times> ringbuffer) res" where
  "ringbuffer_read rb room n =
     (let i = c_min n (rcb rb) in
      if rp rb + i < cb rb then
        if room < unat i then Crash OutOfBounds
        else res_bind (mem_read (buf rb) (unat (rp rb)) (unat i))
          (\<lambda>out. Ok (i, out, rb\<lparr>rp := rp rb + i, rcb := rcb rb - i\<rparr>))
      else if cb rb = 0 then Crash DivByZero
      else
        let size2 = (rp rb + i) mod cb rb; size1 = i - size2 in
        if room < unat i then Crash OutOfBounds
        else res_bind (mem_read (buf rb) (unat (rp rb)) (unat size1))
          (\<lambda>out1. res_bind (mem_read (buf rb) 0 (unat size2))
            (\<lambda>out2. Ok (i, out1 @ out2, rb\<lparr>rp := size2, rcb := rcb rb - i\<rparr>))))"

definition ringbuffer_grow_by :: "(nat \<Rightarrow> byte) \<Rightarrow> ringbuffer \<Rightarrow> size_t \<Rightarrow> ringbuffer res" where
  "ringbuffer_grow_by junk rb n =
     (let new_cb = cb rb + n; new_buf = malloc junk (unat new_cb) in
      res_bind (ringbuffer_read rb (unat new_cb) new_cb)
        (\<lambda>(i, out, rb').
          res_bind (mem_write new_buf 0 out 0 (length out))
            (\<lambda>m. Ok (rb'\<lparr>buf := m, cb := new_cb, rp := 0, wp := i, rcb := i,
                        saved_wp := 0, saved_rcb := 0\<rparr>))))"

definition ringbuffer_peek :: "ringbuffer \<Rightarrow> size_t" where
  "ringbuffer_peek rb = rcb rb"

definition ringbuffer_push_write_pos :: "ringbuffer \<Rightarrow> ringbuffer" where
  "ringbuffer_push_write_pos rb = rb\<lparr>saved_wp := wp rb, saved_rcb := rcb rb\<rparr>"

definition ringbuffer_pop_write_pos :: "ringbuffer \<Rightarrow> ringbuffer" where
  "ringbuffer_pop_write_pos rb = rb\<lparr>wp := saved_wp rb, rcb := saved_rcb rb\<rparr>"

definition ringbuffer_reset_read_pos :: "ringbuffer \<Rightarrow> ringbuffer" where
  "ringbuffer_reset_read_pos rb = rb\<lparr>rp := 0\<rparr>"

definition ringbuffer_buf_ptr :: "ringbuffer \<Rightarrow> mem" where
  "ringbuffer_buf_ptr rb = buf rb"

text \<open>
  The clone is a copy of the struct that shares the buffer with the original; a buffer is
  a value here, so the clone sees the bytes the original had when it was cloned.
\<close>

definition ringbuffer_clone :: "ringbuffer \<Rightarrow> ringbuffer" where
  "ringbuffer_clone rb = rb"

section \<open>Invariant and contents\<close>

text \<open>
  \<^term>\<open>rb_bounds\<close> is what keeps every access inside the buffer; \<^term>\<open>rb_inv\<close> adds that the write
  position is where the readable bytes end, so that a write continues them.
\<close>

definition rb_bounds :: "ringbuffer \<Rightarrow> bool" where
  "rb_bounds rb \<longleftrightarrow> msize (buf rb) = unat (cb rb) \<and> 0 < unat (cb rb) \<and> unat (cb rb) < max_object \<and>
     unat (rp rb) < unat (cb rb) \<and> unat (wp rb) < unat (cb rb) \<and> unat (rcb rb) \<le> unat (cb rb)"

definition rb_inv :: "ringbuffer \<Rightarrow> bool" where
  "rb_inv rb \<longleftrightarrow> rb_bounds rb \<and>
     unat (wp rb) = (unat (rp rb) + unat (rcb rb)) mod unat (cb rb)"

definition content :: "ringbuffer \<Rightarrow> byte list" where
  "content rb = map (\<lambda>k. mdata (buf rb) ((unat (rp rb) + k) mod unat (cb rb))) [0..<unat (rcb rb)]"

definition room :: "ringbuffer \<Rightarrow> nat" where
  "room rb = unat (cb rb) - unat (rcb rb)"

lemma length_content [simp]: "length (content rb) = unat (rcb rb)"
  by (simp add: content_def)

lemma rb_inv_bounds [intro]: "rb_inv rb \<Longrightarrow> rb_bounds rb"
  by (simp add: rb_inv_def)

lemma room_content: "rb_bounds rb \<Longrightarrow> room rb + length (content rb) = unat (cb rb)"
  by (simp add: room_def rb_bounds_def)

section \<open>Index arithmetic\<close>

lemma mod_window_inj:
  fixes a b c :: nat
  assumes "a < b" and "b < a + c"
  shows "a mod c \<noteq> b mod c"
proof
  assume "a mod c = b mod c"
  then have "c dvd b - a"
    using assms(1) by (metis less_imp_le mod_eq_dvd_iff_nat)
  moreover have "0 < b - a" and "b - a < c" using assms by auto
  ultimately show False by (meson nat_dvd_not_less)
qed

lemma unat_c_min: "unat (c_min a b) = min (unat a) (unat b)"
  by (simp add: c_min_def min_def word_less_nat_alt)

text \<open>What one or two copies starting at \<open>W\<close> leave in a ring of \<open>C\<close> bytes.\<close>

definition ring_written :: "mem \<Rightarrow> mem \<Rightarrow> nat \<Rightarrow> nat \<Rightarrow> nat \<Rightarrow> byte list \<Rightarrow> bool" where
  "ring_written m m' C W n bs \<longleftrightarrow> msize m' = msize m \<and>
     (\<forall>j<n. mdata m' ((W + j) mod C) = bs ! j) \<and>
     (\<forall>p<C. (\<forall>j<n. p \<noteq> (W + j) mod C) \<longrightarrow> mdata m' p = mdata m p)"

lemma ring_writtenI:
  assumes "msize m' = msize m"
    and "\<And>j. j < n \<Longrightarrow> mdata m' ((W + j) mod C) = bs ! j"
    and "\<And>p. p < C \<Longrightarrow> mdata m' p \<noteq> mdata m p \<Longrightarrow> \<exists>j<n. p = (W + j) mod C"
  shows "ring_written m m' C W n bs"
  using assms by (auto simp: ring_written_def)

lemma mem_write_Ok:
  "mem_write m off src from n = Ok m' \<longleftrightarrow> off + n \<le> msize m \<and> from + n \<le> length src \<and>
     m' = m\<lparr>mdata := (\<lambda>k. if off \<le> k \<and> k < off + n then src ! (from + (k - off)) else mdata m k)\<rparr>"
  by (auto simp: mem_write_def)

lemma ring_written_flat:
  assumes "mem_write m W bs 0 n = Ok m'" and "W + n < C"
  shows "ring_written m m' C W n bs"
proof (rule ring_writtenI)
  fix p assume "p < C" and "mdata m' p \<noteq> mdata m p"
  then have "W \<le> p" and "p < W + n"
    using assms(1) by (auto simp: mem_write_Ok split: if_splits)
  then show "\<exists>j<n. p = (W + j) mod C"
    using assms(2) by (intro exI [of _ "p - W"]) auto
qed (use assms in \<open>auto simp: mem_write_Ok\<close>)

lemma ring_written_wrap:
  assumes "mem_write m W bs 0 (C - W) = Ok m1" and "mem_write m1 0 bs (C - W) (W + n - C) = Ok m'"
    and "W < C" and "C \<le> W + n" and "n \<le> C"
  shows "ring_written m m' C W n bs"
proof (rule ring_writtenI)
  show "msize m' = msize m" using assms(1,2) by (simp add: mem_write_Ok)
next
  fix j assume "j < n"
  then have "(W + j) mod C = (if j < C - W then W + j else W + j - C)"
    using assms(3-5) by (auto simp: mod_if)
  with \<open>j < n\<close> show "mdata m' ((W + j) mod C) = bs ! j"
    using assms by (auto simp: mem_write_Ok)
next
  fix p assume "p < C" and "mdata m' p \<noteq> mdata m p"
  then have "W \<le> p \<or> p < W + n - C"
    using assms(1,2) by (auto simp: mem_write_Ok split: if_splits)
  then consider "W \<le> p" | "p < W" "p < W + n - C" by linarith
  then show "\<exists>j<n. p = (W + j) mod C"
  proof cases
    case 1
    then show ?thesis using \<open>p < C\<close> assms(3-5) by (intro exI [of _ "p - W"]) auto
  next
    case 2
    then show ?thesis using assms(3-5) by (intro exI [of _ "p + C - W"]) (auto simp: mod_if)
  qed
qed

section \<open>Writing\<close>

text \<open>The effect of a write on the struct: the memory is a \<^term>\<open>ring_written\<close> one.\<close>

lemma ringbuffer_write_mem:
  assumes inv: "rb_bounds rb" and len: "unat n \<le> length bs"
  defines "i \<equiv> c_min n (cb rb - rcb rb)"
  obtains m w where "ringbuffer_write rb (Some bs) n = Ok (i, rb\<lparr>buf := m, wp := w, rcb := rcb rb + i\<rparr>)"
    and "ring_written (buf rb) m (unat (cb rb)) (unat (wp rb)) (unat i) bs"
    and "unat w = (unat (wp rb) + unat i) mod unat (cb rb)"
    and "unat i = min (unat n) (room rb)"
proof -
  let ?C = "unat (cb rb)" and ?W = "unat (wp rb)" and ?I = "unat i"
  have b: "msize (buf rb) = ?C" "?C < 2 ^ 63" "?W < ?C" "unat (rcb rb) \<le> ?C"
    using inv by (auto simp: rb_bounds_def max_object_def)
  then have I: "?I = min (unat n) (room rb)"
    by (simp add: i_def unat_c_min room_def unat_diff_le)
  then have Ile: "?I \<le> ?C" "?I \<le> length bs" using len by (auto simp: room_def)
  have sum: "unat (wp rb + i) = ?W + ?I"
    using b Ile by (intro unat_add_small) simp
  show thesis
  proof (cases "?W + ?I < ?C")
    case True
    then obtain m where m: "mem_write (buf rb) ?W bs 0 ?I = Ok m"
      using b Ile by (simp add: mem_write_def)
    show thesis
    proof (rule that)
      show "ringbuffer_write rb (Some bs) n = Ok (i, rb\<lparr>buf := m, wp := wp rb + i, rcb := rcb rb + i\<rparr>)"
        using True m by (simp add: ringbuffer_write_def i_def [symmetric] word_less_nat_alt sum)
    qed (use True m I sum in \<open>auto intro: ring_written_flat\<close>)
  next
    case False
    then have wrap: "?C \<le> ?W + ?I" "?W + ?I < 2 * ?C" using b Ile by auto
    have s2: "unat ((wp rb + i) mod cb rb) = ?W + ?I - ?C"
      using wrap by (simp add: unat_mod sum wrap_mod)
    have s1: "unat (i - (wp rb + i) mod cb rb) = ?C - ?W"
      using wrap b by (subst unat_diff_le) (auto simp: s2)
    obtain m1 where m1: "mem_write (buf rb) ?W bs 0 (?C - ?W) = Ok m1"
      using wrap b Ile by (auto simp: mem_write_Ok)
    obtain m where m: "mem_write m1 0 bs (?C - ?W) (?W + ?I - ?C) = Ok m"
      using m1 wrap b Ile by (auto simp: mem_write_Ok)
    show thesis
    proof (rule that)
      show "ringbuffer_write rb (Some bs) n =
          Ok (i, rb\<lparr>buf := m, wp := (wp rb + i) mod cb rb, rcb := rcb rb + i\<rparr>)"
        using False m m1 b
        by (auto simp: ringbuffer_write_def i_def [symmetric] word_less_nat_alt sum Let_def s1 s2)
    qed (use wrap b m m1 I Ile in \<open>auto intro!: ring_written_wrap simp: s2 wrap_mod\<close>)
  qed
qed

text \<open>The bytes a write appends, and that nothing already stored is overwritten.\<close>

lemma content_ring_written:
  assumes inv: "rb_inv rb" and w: "ring_written (buf rb) m (unat (cb rb)) (unat (wp rb)) n bs"
    and fit: "n \<le> room rb" and len: "n \<le> length bs" and r: "unat r = unat (rcb rb) + n"
  shows "content (rb\<lparr>buf := m, wp := w', rcb := r\<rparr>) = content rb @ take n bs"
proof -
  let ?C = "unat (cb rb)" and ?R = "unat (rp rb)" and ?N = "unat (rcb rb)"
  have b: "0 < ?C" "?N \<le> ?C" "unat (wp rb) = (?R + ?N) mod ?C"
    using inv by (auto simp: rb_inv_def rb_bounds_def)
  have new: "mdata m ((?R + (?N + j)) mod ?C) = bs ! j" if "j < n" for j
    using w that by (auto simp: ring_written_def b(3) mod_simps add.assoc)
  have old: "mdata m ((?R + k) mod ?C) = mdata (buf rb) ((?R + k) mod ?C)" if "k < ?N" for k
  proof -
    have "(?R + k) mod ?C \<noteq> (unat (wp rb) + j) mod ?C" if "j < n" for j
      using mod_window_inj [of "?R + k" "?R + ?N + j" ?C] \<open>k < ?N\<close> that fit b
      by (auto simp: room_def mod_simps)
    then show ?thesis using w b(1) by (simp add: ring_written_def)
  qed
  show ?thesis
  proof (rule nth_equalityI)
    fix k assume "k < length (content (rb\<lparr>buf := m, wp := w', rcb := r\<rparr>))"
    then have "k < ?N + n" using r by (simp add: content_def)
    then show "content (rb\<lparr>buf := m, wp := w', rcb := r\<rparr>) ! k = (content rb @ take n bs) ! k"
      using new [of "k - ?N"] old [of k] r len
      by (auto simp: content_def nth_append)
  qed (use r len in \<open>simp add: content_def\<close>)
qed

lemma ringbuffer_write_spec:
  assumes inv: "rb_inv rb" and len: "unat n \<le> length bs"
  obtains i rb' where "ringbuffer_write rb (Some bs) n = Ok (i, rb')"
    and "unat i = min (unat n) (room rb)"
    and "rb_inv rb'" and "content rb' = content rb @ take (unat i) bs"
    and "cb rb' = cb rb" and "rp rb' = rp rb" and "rcb rb' = rcb rb + i"
    and "saved_wp rb' = saved_wp rb" and "saved_rcb rb' = saved_rcb rb"
proof -
  have b: "rb_bounds rb" using inv by blast
  obtain i m w where
      eq: "ringbuffer_write rb (Some bs) n = Ok (i, rb\<lparr>buf := m, wp := w, rcb := rcb rb + i\<rparr>)"
    and w: "ring_written (buf rb) m (unat (cb rb)) (unat (wp rb)) (unat i) bs"
    and pos: "unat w = (unat (wp rb) + unat i) mod unat (cb rb)"
    and i: "unat i = min (unat n) (room rb)"
    using ringbuffer_write_mem [OF b len] by blast
  have r: "unat (rcb rb + i) = unat (rcb rb) + unat i"
    using b i by (intro unat_add_small) (auto simp: rb_bounds_def room_def max_object_def)
  have "rb_inv (rb\<lparr>buf := m, wp := w, rcb := rcb rb + i\<rparr>)"
    using inv w pos i
    by (auto simp: rb_inv_def rb_bounds_def ring_written_def r room_def mod_simps add.assoc)
  moreover have "content (rb\<lparr>buf := m, wp := w, rcb := rcb rb + i\<rparr>) = content rb @ take (unat i) bs"
    using inv w i len r by (intro content_ring_written) auto
  ultimately show thesis by (intro that [OF eq i]) simp_all
qed

section \<open>Reading\<close>

lemma ring_shift: "i \<le> n \<Longrightarrow> ((r + i) mod c + (n - i)) mod c = (r + n) mod (c :: nat)"
  by (simp only: mod_add_left_eq) simp

lemma content_drop:
  assumes "rb_bounds rb" and "n \<le> unat (rcb rb)"
    and "unat r = (unat (rp rb) + n) mod unat (cb rb)" and "unat c = unat (rcb rb) - n"
  shows "content (rb\<lparr>rp := r, rcb := c\<rparr>) = drop n (content rb)"
  using assms by (intro nth_equalityI) (auto simp: content_def mod_simps add.assoc)

lemma take_content:
  assumes "n \<le> unat (rcb rb)" and "unat (rp rb) + n \<le> unat (cb rb)" and "unat (rp rb) < unat (cb rb)"
  shows "map (mdata (buf rb)) [unat (rp rb)..<unat (rp rb) + n] = take n (content rb)"
  using assms by (intro nth_equalityI) (auto simp: content_def)

lemma content_wrapped:
  assumes "unat (rp rb) < unat (cb rb)" and "unat (cb rb) \<le> unat (rp rb) + n" and "n \<le> unat (rcb rb)" and "unat (rcb rb) \<le> unat (cb rb)"
  shows "map (mdata (buf rb)) [unat (rp rb)..<unat (cb rb)] @ map (mdata (buf rb)) [0..<unat (rp rb) + n - unat (cb rb)] = take n (content rb)"
  using assms by (intro nth_equalityI) (auto simp: content_def nth_append mod_if add.commute)

lemma ringbuffer_read_spec:
  assumes inv: "rb_bounds rb" and cap: "min (unat n) (unat (rcb rb)) \<le> out"
  obtains i rb' where "ringbuffer_read rb out n = Ok (i, take (unat n) (content rb), rb')"
    and "unat i = min (unat n) (unat (rcb rb))"
    and "rb_bounds rb'" and "rb_inv rb \<Longrightarrow> rb_inv rb'" and "content rb' = drop (unat n) (content rb)"
    and "cb rb' = cb rb" and "buf rb' = buf rb" and "wp rb' = wp rb" and "rcb rb' = rcb rb - i"
    and "saved_wp rb' = saved_wp rb" and "saved_rcb rb' = saved_rcb rb"
proof -
  define i where "i = c_min n (rcb rb)"
  let ?C = "unat (cb rb)" and ?R = "unat (rp rb)" and ?N = "unat (rcb rb)" and ?I = "unat i"
  have b: "msize (buf rb) = ?C" "?C < 2 ^ 63" "?R < ?C" "?N \<le> ?C"
    using inv by (auto simp: rb_bounds_def max_object_def)
  have I: "?I = min (unat n) ?N" by (simp add: i_def unat_c_min)
  then have Ile: "?I \<le> ?N" "?I \<le> ?C" "?I \<le> out" using b cap by auto
  have tk: "take ?I (content rb) = take (unat n) (content rb)"
    and dr: "drop ?I (content rb) = drop (unat n) (content rb)"
    using I by (auto simp: min_def)
  have sum: "unat (rp rb + i) = ?R + ?I"
    using b Ile by (intro unat_add_small) simp
  have left: "unat (rcb rb - i) = ?N - ?I" using Ile by (simp add: unat_diff_le)
  have step: "rb_bounds rb'" "rb_inv rb \<Longrightarrow> rb_inv rb'" "content rb' = drop (unat n) (content rb)"
    if rb': "rb' = rb\<lparr>rp := r, rcb := rcb rb - i\<rparr>" and r: "unat r = (?R + ?I) mod ?C" for rb' r
    using inv r left Ile ring_shift [OF Ile(1), of ?R ?C]
    by (auto simp: rb' rb_inv_def rb_bounds_def content_drop dr)
  show thesis
  proof (cases "?R + ?I < ?C")
    case True
    have eq: "ringbuffer_read rb out n = Ok (i, take (unat n) (content rb), rb\<lparr>rp := rp rb + i, rcb := rcb rb - i\<rparr>)"
      using True b take_content [of ?I rb] Ile
      by (simp add: ringbuffer_read_def i_def [symmetric] word_less_nat_alt sum mem_read_def tk)
    show thesis
      by (rule that [OF eq I step]) (use True sum in simp_all)
  next
    case False
    then have wrap: "?C \<le> ?R + ?I" "?R + ?I < 2 * ?C" using b Ile by auto
    have s2: "unat ((rp rb + i) mod cb rb) = ?R + ?I - ?C"
      using wrap by (simp add: unat_mod sum wrap_mod)
    have s1: "unat (i - (rp rb + i) mod cb rb) = ?C - ?R"
      using wrap b by (subst unat_diff_le) (auto simp: s2)
    note bytes = content_wrapped [OF b(3) wrap(1) Ile(1) b(4), unfolded tk]
    have eq: "ringbuffer_read rb out n =
        Ok (i, take (unat n) (content rb), rb\<lparr>rp := (rp rb + i) mod cb rb, rcb := rcb rb - i\<rparr>)"
      using False b Ile wrap bytes
      by (auto simp: ringbuffer_read_def i_def [symmetric] word_less_nat_alt sum Let_def s1 s2 mem_read_def)
    show thesis
      by (rule that [OF eq I step]) (use wrap s2 in \<open>simp_all add: wrap_mod\<close>)
  qed
qed

text \<open>Reading keeps the positions in bounds whatever the destination; a read that overflows it has no result.\<close>

lemma ringbuffer_read_fits:
  "rb_bounds rb \<Longrightarrow> ringbuffer_read rb cap n = Ok (i, out, rb') \<Longrightarrow> min (unat n) (unat (rcb rb)) \<le> cap"
  by (auto simp: ringbuffer_read_def Let_def unat_c_min [symmetric] split: if_splits)

lemma ringbuffer_read_bounds:
  assumes "rb_bounds rb" and "ringbuffer_read rb cap n = Ok (i, out, rb')"
  shows "rb_bounds rb'"
  by (rule ringbuffer_read_spec [OF assms(1) ringbuffer_read_fits [OF assms]]) (use assms(2) in auto)

lemma ringbuffer_read_inv:
  assumes "rb_inv rb" and "ringbuffer_read rb cap n = Ok (i, out, rb')"
  shows "rb_inv rb'"
  by (rule ringbuffer_read_spec [OF rb_inv_bounds [OF assms(1)] ringbuffer_read_fits [OF rb_inv_bounds [OF assms(1)] assms(2)]])
    (use assms in auto)

section \<open>Growing, and the saved write position\<close>

lemma rb_inv_create: "0 < n \<Longrightarrow> unat n < max_object \<Longrightarrow> rb_inv (ringbuffer_create junk n)"
  by (simp add: ringbuffer_create_def rb_inv_def rb_bounds_def malloc_def word_less_nat_alt)

lemma content_create [simp]: "content (ringbuffer_create junk n) = []"
  by (simp add: ringbuffer_create_def content_def)

lemma room_create [simp]: "room (ringbuffer_create junk n) = unat n"
  by (simp add: ringbuffer_create_def room_def)

lemma ringbuffer_grow_by_spec:
  assumes inv: "rb_bounds rb" and small: "unat (cb rb) + unat n < max_object"
    and pos: "unat (rcb rb) < unat (cb rb) \<or> 0 < unat n"
  obtains rb' where "ringbuffer_grow_by junk rb n = Ok rb'" and "rb_inv rb'"
    and "content rb' = content rb" and "unat (cb rb') = unat (cb rb) + unat n"
    and "rp rb' = 0" and "rcb rb' = rcb rb"
proof -
  let ?n = "cb rb + n"
  have new: "unat ?n = unat (cb rb) + unat n"
    using small by (intro unat_add_small) (simp add: max_object_def)
  have b: "unat (rcb rb) \<le> unat (cb rb)" using inv by (simp add: rb_bounds_def)
  obtain i r where rd: "ringbuffer_read rb (unat ?n) ?n = Ok (i, take (unat ?n) (content rb), r)"
    and i: "unat i = min (unat ?n) (unat (rcb rb))"
    by (rule ringbuffer_read_spec [OF inv, where n = ?n and out = "unat ?n"]) auto
  have all: "take (unat ?n) (content rb) = content rb" and i': "i = rcb rb"
    using new b i by (auto simp: word_unat_eq_iff)
  obtain m where m: "mem_write (malloc junk (unat ?n)) 0 (content rb) 0 (length (content rb)) = Ok m"
    using new b by (auto simp: mem_write_Ok malloc_def)
  let ?rb = "r\<lparr>buf := m, cb := ?n, rp := 0, wp := rcb rb, rcb := rcb rb, saved_wp := 0, saved_rcb := 0\<rparr>"
  have cont: "content ?rb = content rb"
    using m new b by (intro nth_equalityI) (auto simp: content_def mem_write_Ok)
  have "rb_inv ?rb"
    using inv m new small pos b
    by (auto simp: rb_inv_def rb_bounds_def mem_write_Ok malloc_def)
  moreover have "ringbuffer_grow_by junk rb n = Ok ?rb"
    using rd m by (simp add: ringbuffer_grow_by_def all i')
  ultimately show thesis using cont new by (intro that [of ?rb]) simp_all
qed

text \<open>
  \<open>rb_mark old rb\<close>: the saved position marks the end of the contents \<open>old\<close>, and the buffer only
  had bytes appended since, so that going back to the mark gives \<open>old\<close> again.
\<close>

definition rb_mark :: "byte list \<Rightarrow> ringbuffer \<Rightarrow> bool" where
  "rb_mark old rb \<longleftrightarrow> rb_inv rb \<and> (\<exists>new. content rb = old @ new) \<and>
     unat (saved_rcb rb) = length old \<and>
     unat (saved_wp rb) = (unat (rp rb) + length old) mod unat (cb rb)"

lemma content_push [simp]: "content (ringbuffer_push_write_pos rb) = content rb"
  by (simp add: ringbuffer_push_write_pos_def content_def)

lemma room_push [simp]: "room (ringbuffer_push_write_pos rb) = room rb"
  by (simp add: ringbuffer_push_write_pos_def room_def)

lemma rb_inv_push [simp]: "rb_inv (ringbuffer_push_write_pos rb) = rb_inv rb"
  by (simp add: ringbuffer_push_write_pos_def rb_inv_def rb_bounds_def)

lemma cb_push [simp]: "cb (ringbuffer_push_write_pos rb) = cb rb"
  by (simp add: ringbuffer_push_write_pos_def)

lemma rp_push [simp]: "rp (ringbuffer_push_write_pos rb) = rp rb"
  by (simp add: ringbuffer_push_write_pos_def)

lemma rb_mark_push: "rb_inv rb \<Longrightarrow> rb_mark (content rb) (ringbuffer_push_write_pos rb)"
  by (simp add: rb_mark_def) (simp add: ringbuffer_push_write_pos_def rb_inv_def rb_bounds_def)

lemma rb_mark_pop:
  assumes "rb_mark old rb"
  shows "rb_inv (ringbuffer_pop_write_pos rb)" and "content (ringbuffer_pop_write_pos rb) = old"
    and "cb (ringbuffer_pop_write_pos rb) = cb rb"
proof -
  obtain new where new: "content rb = old @ new" using assms by (auto simp: rb_mark_def)
  then have len: "length old \<le> unat (rcb rb)" by (metis le_add1 length_append length_content)
  show "rb_inv (ringbuffer_pop_write_pos rb)"
    using assms len by (auto simp: rb_mark_def ringbuffer_pop_write_pos_def rb_inv_def rb_bounds_def)
  have "content (ringbuffer_pop_write_pos rb) = take (length old) (content rb)"
    using assms len
    by (intro nth_equalityI) (auto simp: content_def rb_mark_def ringbuffer_pop_write_pos_def)
  then show "content (ringbuffer_pop_write_pos rb) = old" by (simp add: new)
  show "cb (ringbuffer_pop_write_pos rb) = cb rb" by (simp add: ringbuffer_pop_write_pos_def)
qed

section \<open>The byte queue contract\<close>

text \<open>
  A bounded queue of bytes with a mark: what the serializer and the message code use of a
  ring buffer. \<open>put q bs\<close> offers all of \<open>bs\<close> and leaves the place \<open>start\<close> of the first byte, \<open>get q cap n\<close> asks for \<open>n\<close> bytes into an object of \<open>cap\<close> bytes, and \<open>marked old\<close>
  says that going back to the mark gives the contents \<open>old\<close>.
\<close>

locale byte_source =
  fixes inv :: "'q \<Rightarrow> bool" and bytes :: "'q \<Rightarrow> byte list" and capacity :: "'q \<Rightarrow> nat"
    and get :: "'q \<Rightarrow> nat \<Rightarrow> size_t \<Rightarrow> (size_t \<times> byte list \<times> 'q) res"
  assumes bytes_le: "inv q \<Longrightarrow> length (bytes q) \<le> capacity q"
    and capacity_small: "inv q \<Longrightarrow> capacity q < max_object"
    and get_law: "inv q \<Longrightarrow> min (unat n) (length (bytes q)) \<le> cap \<Longrightarrow>
      \<exists>i q'. get q cap n = Ok (i, take (unat n) (bytes q), q') \<and>
      unat i = min (unat n) (length (bytes q)) \<and> inv q' \<and>
      bytes q' = drop (unat n) (bytes q) \<and> capacity q' = capacity q"
begin

lemma get_front:
  assumes "inv q" and "bytes q = xs @ rest" and "length xs = unat n" and "unat n \<le> cap"
  obtains q' where "get q cap n = Ok (n, xs, q')" and "inv q'" and "bytes q' = rest"
    and "capacity q' = capacity q"
proof -
  have "min (unat n) (length (bytes q)) \<le> cap" using assms(4) by simp
  then obtain i q' where "get q cap n = Ok (i, take (unat n) (bytes q), q')"
    and "unat i = min (unat n) (length (bytes q))"
    and "inv q'" "bytes q' = drop (unat n) (bytes q)" "capacity q' = capacity q"
    using get_law [OF assms(1)] by blast
  with assms(2,3) show thesis by (intro that [of q']) (auto simp: word_unat_eq_iff)
qed

end

locale byte_fifo = byte_source inv bytes capacity get
  for inv :: "'q \<Rightarrow> bool" and bytes :: "'q \<Rightarrow> byte list" and capacity :: "'q \<Rightarrow> nat"
    and get :: "'q \<Rightarrow> nat \<Rightarrow> size_t \<Rightarrow> (size_t \<times> byte list \<times> 'q) res" +
  fixes put :: "'q \<Rightarrow> byte list \<Rightarrow> (size_t \<times> 'q) res" and marked :: "byte list \<Rightarrow> 'q \<Rightarrow> bool"
    and start :: "'q \<Rightarrow> size_t"
  assumes put_law: "inv q \<Longrightarrow> length bs < max_object \<Longrightarrow> \<exists>i q'. put q bs = Ok (i, q') \<and>
      unat i = min (length bs) (capacity q - length (bytes q)) \<and> inv q' \<and>
      bytes q' = bytes q @ take (unat i) bs \<and> capacity q' = capacity q \<and> start q' = start q \<and>
      (\<forall>old. marked old q \<longrightarrow> marked old q')"
begin

lemma put_fits:
  assumes "inv q" and "length (bytes q) + length bs \<le> capacity q"
  obtains q' where "put q bs = Ok (of_nat (length bs), q')" and "inv q'"
    and "bytes q' = bytes q @ bs" and "capacity q' = capacity q" and "start q' = start q" and "\<And>old. marked old q \<Longrightarrow> marked old q'"
proof -
  have small: "length bs < max_object" using assms capacity_small [of q] by linarith
  obtain i q' where "put q bs = Ok (i, q')" and i: "unat i = min (length bs) (capacity q - length (bytes q))"
    and "inv q'" "bytes q' = bytes q @ take (unat i) bs" "capacity q' = capacity q" "start q' = start q"
      "\<forall>old. marked old q \<longrightarrow> marked old q'"
    using put_law [OF assms(1) small] by blast
  moreover have "unat i = length bs" using i assms(2) by simp
  moreover from this have "i = of_nat (length bs)" by (rule eq_of_nat_size)
  ultimately show thesis by (intro that [of q']) auto
qed

lemma put_short:
  assumes "inv q" and "capacity q < length (bytes q) + length bs" and "length bs < max_object"
  obtains i q' where "put q bs = Ok (i, q')" and "i \<noteq> of_nat (length bs)" and "inv q'"
    and "capacity q' = capacity q" and "start q' = start q" and "\<And>old. marked old q \<Longrightarrow> marked old q'"
proof -
  obtain i q' where put: "put q bs = Ok (i, q')" and i: "unat i = min (length bs) (capacity q - length (bytes q))"
    and rest: "inv q'" "capacity q' = capacity q" "start q' = start q" "\<forall>old. marked old q \<longrightarrow> marked old q'"
    using put_law [OF assms(1,3)] by blast
  have "unat (of_nat (length bs) :: size_t) = length bs"
    using assms(3) by (intro unat_of_nat_size) (simp add: max_object_def)
  moreover have "unat i < length bs" using i assms(2) bytes_le [OF assms(1)] by auto
  ultimately have "i \<noteq> of_nat (length bs)" by auto
  with rest show thesis by (intro that [OF put]) auto
qed

lemma put_get:
  assumes "inv q" and "bytes q = []" and "length bs \<le> capacity q"
  shows "\<exists>q1 q2. put q bs = Ok (of_nat (length bs), q1) \<and>
    get q1 (length bs) (of_nat (length bs)) = Ok (of_nat (length bs), bs, q2) \<and> inv q2 \<and> bytes q2 = []"
proof -
  obtain q1 where q1: "put q bs = Ok (of_nat (length bs), q1)" "inv q1" "bytes q1 = bs"
    using put_fits [OF assms(1), of bs] assms(2,3) by auto
  have "unat (of_nat (length bs) :: size_t) = length bs"
    using assms capacity_small [of q] by (intro unat_of_nat_size) (simp add: max_object_def)
  then obtain q2 where "get q1 (length bs) (of_nat (length bs)) = Ok (of_nat (length bs), bs, q2)" "inv q2" "bytes q2 = []"
    using get_front [of q1 bs "[]" "of_nat (length bs)" "length bs"] q1 by auto
  with q1(1) show ?thesis by blast
qed

end

text \<open>Appending keeps the mark.\<close>

lemma rb_mark_append:
  assumes "rb_mark old rb" and "rb_inv rb'" and "content rb' = content rb @ new"
    and "cb rb' = cb rb" and "rp rb' = rp rb"
    and "saved_wp rb' = saved_wp rb" and "saved_rcb rb' = saved_rcb rb"
  shows "rb_mark old rb'"
  using assms by (auto simp: rb_mark_def)

interpretation ring: byte_fifo rb_inv content "\<lambda>rb. unat (cb rb)" ringbuffer_read
  "\<lambda>rb bs. ringbuffer_write rb (Some bs) (of_nat (length bs))" rb_mark rp
proof unfold_locales
  fix rb :: ringbuffer and bs :: "byte list" and n :: size_t and cap :: nat
  assume inv: "rb_inv rb"
  show "length (content rb) \<le> unat (cb rb)" and "unat (cb rb) < max_object"
    using inv by (auto simp: rb_inv_def rb_bounds_def)
  show "\<exists>i q'. ringbuffer_read rb cap n = Ok (i, take (unat n) (content rb), q') \<and>
      unat i = min (unat n) (length (content rb)) \<and> rb_inv q' \<and>
      content q' = drop (unat n) (content rb) \<and> unat (cb q') = unat (cb rb)"
    if "min (unat n) (length (content rb)) \<le> cap"
    by (rule ringbuffer_read_spec [OF rb_inv_bounds [OF inv], where n = n and out = cap])
      (use inv that in auto)
  assume small: "length bs < max_object"
  then have len: "unat (of_nat (length bs) :: size_t) = length bs"
    by (intro unat_of_nat_size) (simp add: max_object_def)
  obtain i q' where w: "ringbuffer_write rb (Some bs) (of_nat (length bs)) = Ok (i, q')"
    and i: "unat i = min (length bs) (unat (cb rb) - length (content rb))"
    and q': "rb_inv q'" "content q' = content rb @ take (unat i) bs" "cb q' = cb rb" "rp q' = rp rb"
      "saved_wp q' = saved_wp rb" "saved_rcb q' = saved_rcb rb"
    by (rule ringbuffer_write_spec [OF inv, where n = "of_nat (length bs)" and bs = bs])
      (simp_all add: room_def len)
  have "rb_mark old q'" if "rb_mark old rb" for old
    using that q' by (rule rb_mark_append)
  with w i q' show "\<exists>i q'. ringbuffer_write rb (Some bs) (of_nat (length bs)) = Ok (i, q') \<and>
      unat i = min (length bs) (unat (cb rb) - length (content rb)) \<and> rb_inv q' \<and>
      content q' = content rb @ take (unat i) bs \<and> unat (cb q') = unat (cb rb) \<and> rp q' = rp rb \<and>
      (\<forall>old. rb_mark old rb \<longrightarrow> rb_mark old q')"
    by auto
qed

declare length_content [simp del]

section \<open>Properties\<close>

text \<open>
  A write of \<open>n\<close> bytes into a well-formed ring buffer stores as many of them as there is room for,
  after the bytes already there, returns that number, and leaves the buffer well-formed,
  whether or not the bytes wrap around the end of the memory block.
\<close>

theorem ringbuffer_write_appends:
  assumes "rb_inv rb" and "unat n \<le> length bs"
  shows "\<exists>i rb'. ringbuffer_write rb (Some bs) n = Ok (i, rb') \<and>
    unat i = min (unat n) (unat (cb rb) - length (content rb)) \<and>
    rb_inv rb' \<and> content rb' = content rb @ take (unat i) bs \<and> cb rb' = cb rb"
  by (rule ringbuffer_write_spec [OF assms]) (auto simp: room_def length_content)

theorem ringbuffer_write_appends_witness:
  "\<exists>i rb'. ringbuffer_write (ringbuffer_create (\<lambda>_. 0) 4) (Some [7, 8]) 2 = Ok (i, rb') \<and>
    unat i = min (unat (2 :: size_t)) (unat (cb (ringbuffer_create (\<lambda>_. 0) 4)) - length (content (ringbuffer_create (\<lambda>_. 0) 4))) \<and>
    rb_inv rb' \<and> content rb' = content (ringbuffer_create (\<lambda>_. 0) 4) @ take (unat i) [7, 8] \<and>
    cb rb' = cb (ringbuffer_create (\<lambda>_. 0) 4)"
  by (rule ringbuffer_write_appends) (simp_all add: rb_inv_create max_object_def)

text \<open>
  Growing a ring buffer keeps its contents, in order, and adds \<open>n\<close> bytes of room, also when the
  contents wrap around the end of the old memory block.
\<close>

theorem ringbuffer_grow_by_keeps:
  assumes "rb_inv rb" and "unat (cb rb) + unat n < max_object" and "0 < unat n"
  shows "\<exists>rb'. ringbuffer_grow_by junk rb n = Ok rb' \<and> rb_inv rb' \<and> content rb' = content rb \<and>
    unat (cb rb') = unat (cb rb) + unat n"
  by (rule ringbuffer_grow_by_spec [OF rb_inv_bounds [OF assms(1)] assms(2)]) (use assms(3) in auto)

theorem ringbuffer_grow_by_keeps_witness:
  "\<exists>rb'. ringbuffer_grow_by (\<lambda>_. 9) (ringbuffer_create (\<lambda>_. 0) 4) 2 = Ok rb' \<and> rb_inv rb' \<and>
    content rb' = content (ringbuffer_create (\<lambda>_. 0) 4) \<and>
    unat (cb rb') = unat (cb (ringbuffer_create (\<lambda>_. 0) 4)) + unat (2 :: size_t)"
  by (rule ringbuffer_grow_by_keeps) (simp_all add: rb_inv_create max_object_def, simp_all add: ringbuffer_create_def)

fun write_all :: "byte list list \<Rightarrow> ringbuffer \<Rightarrow> ringbuffer res" where
  "write_all [] rb = Ok rb"
| "write_all (bs # bss) rb =
     res_bind (ringbuffer_write rb (Some bs) (of_nat (length bs))) (\<lambda>(i, rb). write_all bss rb)"

lemma write_all_mark:
  "rb_mark old rb \<Longrightarrow> list_all (\<lambda>bs. length bs < max_object) bss \<Longrightarrow>
     \<exists>rb'. write_all bss rb = Ok rb' \<and> rb_mark old rb' \<and> unat (cb rb') = unat (cb rb)"
proof (induction bss arbitrary: rb)
  case (Cons bs bss)
  have "rb_inv rb" using Cons.prems(1) by (simp add: rb_mark_def)
  then obtain i rb1 where "ringbuffer_write rb (Some bs) (of_nat (length bs)) = Ok (i, rb1)" "rb_mark old rb1"
      "unat (cb rb1) = unat (cb rb)"
    using ring.put_law [of rb bs] Cons.prems by auto
  with Cons.IH [of rb1] Cons.prems show ?case by auto
qed auto

text \<open>
  Saving the write position, writing any sequence of byte strings and going back to the
  saved position gives the contents from before, whatever part of the strings fitted.
\<close>

theorem ringbuffer_rollback:
  assumes "rb_inv rb" and "list_all (\<lambda>bs. length bs < max_object) bss"
  shows "\<exists>rb'. write_all bss (ringbuffer_push_write_pos rb) = Ok rb' \<and>
    rb_inv (ringbuffer_pop_write_pos rb') \<and> content (ringbuffer_pop_write_pos rb') = content rb \<and>
    unat (cb (ringbuffer_pop_write_pos rb')) = unat (cb rb)"
  using write_all_mark [OF rb_mark_push [OF assms(1)] assms(2)] by (auto simp: rb_mark_pop)

theorem ringbuffer_rollback_witness:
  "\<exists>rb'. write_all [[1, 2], [3, 4]] (ringbuffer_push_write_pos (ringbuffer_create (\<lambda>_. 0) 3)) = Ok rb' \<and>
    rb_inv (ringbuffer_pop_write_pos rb') \<and>
    content (ringbuffer_pop_write_pos rb') = content (ringbuffer_create (\<lambda>_. 0) 3) \<and>
    unat (cb (ringbuffer_pop_write_pos rb')) = unat (cb (ringbuffer_create (\<lambda>_. 0) 3))"
  by (rule ringbuffer_rollback) (simp_all add: rb_inv_create max_object_def)

text \<open>
  The ring buffer against a bounded queue given by its capacity and its bytes: the
  operations as commands, what each one returns, and the effect of a sequence of them.
\<close>

datatype rb_op = OpWrite "byte list" | OpRead nat | OpGrow size_t | OpUndo "byte list list"
datatype rb_out = Count nat | Bytes "byte list" | Quiet

fun rb_step :: "(nat \<Rightarrow> byte) \<Rightarrow> rb_op \<Rightarrow> ringbuffer \<Rightarrow> (rb_out \<times> ringbuffer) res" where
  "rb_step junk (OpWrite bs) rb =
     res_bind (ringbuffer_write rb (Some bs) (of_nat (length bs))) (\<lambda>(i, rb). Ok (Count (unat i), rb))"
| "rb_step junk (OpRead n) rb =
     res_bind (ringbuffer_read rb n (of_nat n)) (\<lambda>(i, out, rb). Ok (Bytes out, rb))"
| "rb_step junk (OpGrow n) rb = res_bind (ringbuffer_grow_by junk rb n) (\<lambda>rb. Ok (Quiet, rb))"
| "rb_step junk (OpUndo bss) rb =
     res_bind (write_all bss (ringbuffer_push_write_pos rb)) (\<lambda>rb. Ok (Quiet, ringbuffer_pop_write_pos rb))"

fun rb_run :: "(nat \<Rightarrow> byte) \<Rightarrow> rb_op list \<Rightarrow> ringbuffer \<Rightarrow> (rb_out list \<times> ringbuffer) res" where
  "rb_run junk [] rb = Ok ([], rb)"
| "rb_run junk (op # ops) rb =
     res_bind (rb_step junk op rb) (\<lambda>(x, rb). res_bind (rb_run junk ops rb) (\<lambda>(xs, rb). Ok (x # xs, rb)))"

fun queue_step :: "rb_op \<Rightarrow> nat \<times> byte list \<Rightarrow> rb_out \<times> nat \<times> byte list" where
  "queue_step (OpWrite bs) (c, q) =
     (let k = min (length bs) (c - length q) in (Count k, c, q @ take k bs))"
| "queue_step (OpRead n) (c, q) = (Bytes (take n q), c, drop n q)"
| "queue_step (OpGrow n) (c, q) = (Quiet, c + unat n, q)"
| "queue_step (OpUndo bss) (c, q) = (Quiet, c, q)"

fun queue_run :: "rb_op list \<Rightarrow> nat \<times> byte list \<Rightarrow> rb_out list \<times> nat \<times> byte list" where
  "queue_run [] q = ([], q)"
| "queue_run (op # ops) q = (let (x, q) = queue_step op q; (xs, q) = queue_run ops q in (x # xs, q))"

text \<open>The sizes that occur are sizes of objects, and a buffer that grows gets larger.\<close>

fun op_sizes_ok :: "rb_op \<Rightarrow> nat \<Rightarrow> bool" where
  "op_sizes_ok (OpWrite bs) c = (length bs < max_object)"
| "op_sizes_ok (OpRead n) c = (n < max_object)"
| "op_sizes_ok (OpGrow n) c = (0 < unat n \<and> c + unat n < max_object)"
| "op_sizes_ok (OpUndo bss) c = list_all (\<lambda>bs. length bs < max_object) bss"

fun sizes_ok :: "rb_op list \<Rightarrow> nat \<times> byte list \<Rightarrow> bool" where
  "sizes_ok [] q = True"
| "sizes_ok (op # ops) q = (op_sizes_ok op (fst q) \<and> sizes_ok ops (snd (queue_step op q)))"

definition rb_abs :: "ringbuffer \<Rightarrow> nat \<times> byte list" where
  "rb_abs rb = (unat (cb rb), content rb)"

lemma rb_step_refines:
  assumes "rb_inv rb" and "op_sizes_ok op (unat (cb rb))"
  shows "\<exists>x rb'. rb_step junk op rb = Ok (x, rb') \<and> rb_inv rb' \<and> queue_step op (rb_abs rb) = (x, rb_abs rb')"
proof (cases op)
  case (OpWrite bs)
  then show ?thesis using ring.put_law [OF assms(1), of bs] assms(2) by (auto simp: rb_abs_def Let_def)
next
  case (OpRead n)
  have "unat (of_nat n :: size_t) = n"
    using OpRead assms(2) by (intro unat_of_nat_size) (simp add: max_object_def)
  with OpRead show ?thesis using ring.get_law [OF assms(1), of "of_nat n" n] by (auto simp: rb_abs_def)
next
  case (OpGrow n)
  then show ?thesis
    by (cases rule: ringbuffer_grow_by_spec [OF rb_inv_bounds [OF assms(1)], of n junk])
      (use assms(2) in \<open>auto simp: rb_abs_def\<close>)
next
  case (OpUndo bss)
  then show ?thesis
    using write_all_mark [OF rb_mark_push [OF assms(1)], of bss] assms(2) by (auto simp: rb_abs_def rb_mark_pop)
qed

text \<open>
  C4: Refinement: started from any well-formed ring buffer, every sequence of writes, reads, growths
  and undone writes gives the outputs of the bounded byte queue, never fails, and ends in a
  well-formed buffer that represents the queue's state.
\<close>

theorem ringbuffer_refines_queue:
  "rb_inv rb \<Longrightarrow> sizes_ok ops (rb_abs rb) \<Longrightarrow>
     \<exists>xs rb'. rb_run junk ops rb = Ok (xs, rb') \<and> rb_inv rb' \<and> queue_run ops (rb_abs rb) = (xs, rb_abs rb')"
proof (induction ops arbitrary: rb)
  case (Cons op ops)
  then obtain x rb1 where 1: "rb_step junk op rb = Ok (x, rb1)" "rb_inv rb1" "queue_step op (rb_abs rb) = (x, rb_abs rb1)"
    using rb_step_refines [of rb op junk] by (auto simp: rb_abs_def)
  with Cons.prems Cons.IH [of rb1] show ?case by auto
qed simp

theorem ringbuffer_refines_queue_witness:
  "\<exists>xs rb'. rb_run (\<lambda>_. 0) [OpWrite [1, 2, 3], OpRead 2, OpWrite [4, 5, 6], OpGrow 3, OpRead 9] (ringbuffer_create (\<lambda>_. 0) 4) = Ok (xs, rb') \<and>
    rb_inv rb' \<and> queue_run [OpWrite [1, 2, 3], OpRead 2, OpWrite [4, 5, 6], OpGrow 3, OpRead 9]
      (rb_abs (ringbuffer_create (\<lambda>_. 0) 4)) = (xs, rb_abs rb')"
  by (rule ringbuffer_refines_queue)
    (simp_all add: rb_inv_create max_object_def rb_abs_def, simp add: ringbuffer_create_def)

text \<open>
  A ring buffer created with capacity zero (a workqueue, marshal or sharedtable opened with
  size 0) cannot be written: the first write, of any number of bytes, divides by zero.
\<close>

theorem ringbuffer_zero_capacity:
  "ringbuffer_write (ringbuffer_create junk 0) inp n = Crash DivByZero"
  by (simp add: ringbuffer_write_def ringbuffer_create_def Let_def c_min_def)

end
