(* ===== verification/LuaValue.thy ===== *)
theory LuaValue
  imports Prelude
begin

text \<open>
  The values the library moves between Lua states, the errors it raises, and the part of
  the Lua C API whose behaviour the library relies on but does not implement. The API is
  a record of functions, an argument of every definition that calls it.
\<close>

section \<open>Values\<close>

text \<open>
  How a table or userdata is identified by its metatable: not at all, by the torch class
  name \<open>luaT_typename\<close> finds, or by the name its \<open>metatablename\<close> method returns.
\<close>

datatype meta = NoMeta | TorchClass "byte list" | NamedMeta "byte list"

text \<open>
  A value as the serializer sees it. Numbers are the 64 bits of a \<open>lua_Number\<close>, and
  \<open>LInteger\<close> occurs in builds with \<open>LUA_VERSION_NUM >= 503\<close>. A table is the list of its entries in
  the order in which \<open>lua_next\<close> visits them. A function has the \<open>what\<close> and \<open>name\<close> of
  \<open>lua_getinfo\<close>, its prototype, an opaque number, and its upvalues with their names. A full
  userdata is the pointer stored in its block.
\<close>

datatype lua_value =
    LNil
  | LBoolean bool
  | LNumber "64 word"
  | LInteger "64 word"
  | LString "byte list"
  | LTable "(lua_value \<times> lua_value) list" meta
  | LFunction string nat "(byte list \<times> lua_value) list"
  | LUserdata meta pointer
  | LLightUserdata pointer
  | LThread nat

type_synonym entry = "lua_value \<times> lua_value"
type_synonym upvalue = "byte list \<times> lua_value"

fun lua_type :: "lua_value \<Rightarrow> byte" where
  "lua_type LNil = 0"
| "lua_type (LBoolean _) = 1"
| "lua_type (LLightUserdata _) = 2"
| "lua_type (LNumber _) = 3"
| "lua_type (LInteger _) = 3"
| "lua_type (LString _) = 4"
| "lua_type (LTable _ _) = 5"
| "lua_type (LFunction _ _ _) = 6"
| "lua_type (LUserdata _ _) = 7"
| "lua_type (LThread _) = 8"

definition EXTRA_LUA_TINTEGER :: byte where
  "EXTRA_LUA_TINTEGER = 127"

text \<open>The C string a pointer designates ends at its first null byte.\<close>

definition c_string :: "byte list \<Rightarrow> byte list" where
  "c_string = takeWhile (\<lambda>b. b \<noteq> 0)"

lemma c_string_idem [simp]: "c_string (c_string str) = c_string str"
  by (simp add: c_string_def)

fun meta_name :: "meta \<Rightarrow> byte list" where
  "meta_name NoMeta = []"
| "meta_name (TorchClass n) = c_string n"
| "meta_name (NamedMeta n) = c_string n"

definition env_name :: "byte list" where
  "env_name = [95, 69, 78, 86]"

section \<open>Errors and results\<close>

text \<open>
  The errno values of Linux. \<^term>\<open>LuaErrno\<close> and \<^term>\<open>LuaErrStr\<close> are what \<open>LUA_HANDLE_ERROR\<close> and
  \<open>LUA_HANDLE_ERROR_STR\<close> of \<^verbatim>\<open>src/error.h\<close> raise.
\<close>

definition EPERM :: int where "EPERM = 1"
definition ENOMEM :: int where "ENOMEM = 12"
definition EINVAL :: int where "EINVAL = 22"

lemmas errno_defs = EPERM_def ENOMEM_def EINVAL_def

datatype lua_error = LuaErrno int | LuaErrStr string

definition lua_handle_error :: "int \<Rightarrow> lua_error" where
  "lua_handle_error ret = (let pos_ret = (if ret \<ge> 0 then ret else - ret) in LuaErrno pos_ret)"

text \<open>
  A function called from Lua returns, raises a Lua error (a jump out of every C frame in
  between, with the state as it is at that moment), or has undefined behaviour.
\<close>

datatype ('s, 'a) lres = Ret 'a 's | Raise lua_error 's | Abort fault

section \<open>The Lua C API\<close>

text \<open>
  \<^item> \<open>api_dump p\<close>: the blocks \<open>lua_dump\<close> hands to its writer for the prototype \<open>p\<close>;
  \<^item> \<open>api_undump bs\<close>: what \<open>lua_load\<close> makes of the bytes of a chunk: the \<open>what\<close> of the function, its
    prototype and the upvalues it has before any is set, or \<open>None\<close> when it reports an error;
  \<^item> \<open>api_load_stops bs\<close>: \<open>lua_load\<close> has a complete chunk in \<open>bs\<close> and asks its reader for no
    further block (an implementation that always reads to the end never says so);
  \<^item> \<open>api_settable es k v\<close>: the entries after \<open>lua_settable\<close>, \<open>None\<close> when it raises an error;
  \<^item> \<open>api_gettable es k\<close>: what \<open>lua_gettable\<close> pushes for the key \<open>k\<close>;
  \<^item> \<open>api_next es k\<close>: the entry \<open>lua_next\<close> pushes after the key \<open>k\<close>, \<open>Some None\<close> at the end, \<open>None\<close> when it raises an error;
  \<^item> \<open>api_metatable n\<close>: the metatable registered under the name \<open>n\<close>;
  \<^item> \<open>api_has_retain m\<close>: the metatable has a \<open>retain\<close> method;
  \<^item> \<open>api_tointeger v\<close>: \<open>lua_tointeger\<close>;
  \<^item> \<open>api_globals\<close>: the table \<open>_G\<close> of the reading state;
  \<^item> \<open>api_checkstack d\<close>: \<open>lua_checkstack(L, 1)\<close> succeeds when \<open>d\<close> slots are in use.
\<close>

record lua_api =
  api_dump :: "nat \<Rightarrow> byte list list"
  api_undump :: "byte list \<Rightarrow> (string \<times> nat \<times> upvalue list) option"
  api_load_stops :: "byte list \<Rightarrow> bool"
  api_settable :: "entry list \<Rightarrow> lua_value \<Rightarrow> lua_value \<Rightarrow> entry list option"
  api_gettable :: "entry list \<Rightarrow> lua_value \<Rightarrow> lua_value"
  api_next :: "entry list \<Rightarrow> lua_value \<Rightarrow> entry option option"
  api_metatable :: "byte list \<Rightarrow> meta"
  api_has_retain :: "meta \<Rightarrow> bool"
  api_tointeger :: "lua_value \<Rightarrow> int"
  api_globals :: lua_value
  api_checkstack :: "nat \<Rightarrow> bool"

text \<open>
  An instance of the API, small enough to evaluate: a prototype is dumped as one block, a
  table keeps its entries in the order of insertion, every name has a metatable.
\<close>

definition small_settable :: "entry list \<Rightarrow> lua_value \<Rightarrow> lua_value \<Rightarrow> entry list option" where
  "small_settable es k v =
     (if k = LNil then None
      else if v = LNil then Some (filter (\<lambda>e. fst e \<noteq> k) es)
      else if k \<in> fst ` set es then Some (map (\<lambda>e. if fst e = k then (k, v) else e) es)
      else Some (es @ [(k, v)]))"

definition small_undump :: "byte list \<Rightarrow> (string \<times> nat \<times> upvalue list) option" where
  "small_undump bs =
     (if length bs = 2 \<and> bs ! 0 = 27 then Some (''Lua'', unat (bs ! 1), []) else None)"

fun small_tointeger :: "lua_value \<Rightarrow> int" where
  "small_tointeger (LInteger n) = sint n"
| "small_tointeger _ = 0"

definition small_gettable :: "entry list \<Rightarrow> lua_value \<Rightarrow> lua_value" where
  "small_gettable es k = (case map_of es k of None \<Rightarrow> LNil | Some v \<Rightarrow> v)"

definition small_next :: "entry list \<Rightarrow> lua_value \<Rightarrow> entry option option" where
  "small_next es k =
     (let rest = (if k = LNil then es else drop 1 (dropWhile (\<lambda>e. fst e \<noteq> k) es)) in
      if k \<noteq> LNil \<and> k \<notin> fst ` set es then None
      else Some (case rest of [] \<Rightarrow> None | e # _ \<Rightarrow> Some e))"

definition small_lua :: lua_api where
  "small_lua =
     \<lparr>api_dump = (\<lambda>p. [[27, of_nat p]]), api_undump = small_undump,
      api_load_stops = (\<lambda>bs. length bs \<ge> 2), api_settable = small_settable,
      api_gettable = small_gettable, api_next = small_next,
      api_metatable = NamedMeta, api_has_retain = (\<lambda>m. True), api_tointeger = small_tointeger,
      api_globals = LTable [] NoMeta, api_checkstack = (\<lambda>d. d < 8000)\<rparr>"

lemma small_lua_simps [simp]:
  "api_dump small_lua p = [[27, of_nat p]]" "api_undump small_lua = small_undump"
  "api_load_stops small_lua bs \<longleftrightarrow> length bs \<ge> 2" "api_settable small_lua = small_settable"
  "api_gettable small_lua = small_gettable" "api_next small_lua = small_next"
  "api_metatable small_lua = NamedMeta" "api_has_retain small_lua m"
  "api_tointeger small_lua = small_tointeger" "api_globals small_lua = LTable [] NoMeta"
  "api_checkstack small_lua d \<longleftrightarrow> d < 8000"
  by (simp_all add: small_lua_def)

section \<open>Upvalue tables\<close>

text \<open>
  The table \<open>rb_save\<close> builds from the upvalues of a function, numbered from \<open>i\<close>: \<open>lua_rawseti\<close>
  with a nil value stores nothing, and \<open>_ENV\<close> is left out.
\<close>

fun upvalue_entries :: "nat \<Rightarrow> upvalue list \<Rightarrow> entry list" where
  "upvalue_entries i [] = []"
| "upvalue_entries i ((name, v) # ups) =
     (if name \<noteq> env_name \<and> v \<noteq> LNil then (LInteger (of_nat i), v) # upvalue_entries (Suc i) ups
      else upvalue_entries (Suc i) ups)"

fun env_index :: "nat \<Rightarrow> cint \<Rightarrow> upvalue list \<Rightarrow> cint" where
  "env_index i e [] = e"
| "env_index i e ((name, v) # ups) =
     env_index (Suc i) (if name = env_name then of_nat i else e) ups"

text \<open>
  A measure on values in which the table of a function's upvalues is smaller than the
  function.
\<close>

function weight :: "lua_value \<Rightarrow> nat"
  and weight_entries :: "entry list \<Rightarrow> nat"
  and weight_upvalues :: "upvalue list \<Rightarrow> nat" where
  "weight (LTable es _) = 2 + weight_entries es"
| "weight (LFunction _ _ ups) = 3 + weight_upvalues ups"
| "weight LNil = 1"
| "weight (LBoolean _) = 1"
| "weight (LNumber _) = 1"
| "weight (LInteger _) = 1"
| "weight (LString _) = 1"
| "weight (LUserdata _ _) = 1"
| "weight (LLightUserdata _) = 1"
| "weight (LThread _) = 1"
| "weight_entries [] = 0"
| "weight_entries ((k, v) # es) = 1 + weight k + weight v + weight_entries es"
| "weight_upvalues [] = 0"
| "weight_upvalues ((_, v) # ups) = 2 + weight v + weight_upvalues ups"
  by pat_completeness auto
termination
  by (relation "measure (case_sum size (case_sum (size_list (size_prod size size))
      (size_list (size_prod (\<lambda>_. 0) size))))") auto

lemma weight_pos [simp]: "0 < weight v"
  by (cases v) simp_all

lemma weight_upvalue_entries: "weight_entries (upvalue_entries i ups) \<le> weight_upvalues ups"
proof (induction ups arbitrary: i)
  case Nil
  then show ?case by simp
next
  case (Cons u ups)
  from Cons.IH [of "Suc i"] show ?case by (cases u) auto
qed

end
