(* ===== verification/Serialize.thy ===== *)
theory Serialize
  imports RingBuffer LuaValue
begin

text \<open>
  The writing half of \<^verbatim>\<open>src/serialize.c\<close>: \<open>rb_save\<close> writes a Lua value into a ring buffer. The
  bytes of a value are given by the reference function \<open>encode\<close>, which values can be saved by \<open>savable\<close>,
  and \<open>rb_save\<close> is shown to append exactly those bytes or to leave the buffer as it was.
\<close>

section \<open>Saving\<close>

text \<open>
  The state of a save: the ring buffer, the height of the Lua stack, and the pointers on
  whose userdata the \<open>retain\<close> method was called, in order.
\<close>

record save_state =
  srb :: ringbuffer
  ltop :: nat
  retained :: "pointer list"

type_synonym save_result = "(save_state, int) lres"

definition CHUNK_SIZE :: nat where
  "CHUNK_SIZE = 8192"

text \<open>
  The macros \<open>RB_WRITE\<close> and \<open>RB_WRITE_POP\<close>: write all of \<open>bs\<close> and go on with \<open>k\<close>, or pop \<open>n\<close> values
  off the Lua stack and return \<open>-ENOMEM\<close> from the enclosing function.
\<close>

definition RB_WRITE_POP :: "byte list \<Rightarrow> nat \<Rightarrow> (save_state \<Rightarrow> save_result) \<Rightarrow> save_state \<Rightarrow> save_result" where
  "RB_WRITE_POP bs n k s =
     (case ringbuffer_write (srb s) (Some bs) (of_nat (length bs)) of
        Crash e \<Rightarrow> Abort e
      | Ok (i, rb) \<Rightarrow>
          if i \<noteq> of_nat (length bs) then Ret (- ENOMEM) (s\<lparr>srb := rb, ltop := ltop s - n\<rparr>)
          else k (s\<lparr>srb := rb\<rparr>))"

definition RB_WRITE :: "byte list \<Rightarrow> (save_state \<Rightarrow> save_result) \<Rightarrow> save_state \<Rightarrow> save_result" where
  "RB_WRITE bs = RB_WRITE_POP bs 0"

function rb_lua_writer :: "byte list \<Rightarrow> save_state \<Rightarrow> save_result" where
  "rb_lua_writer bs s =
     (if length bs > 0 then
        let ccb = (if CHUNK_SIZE < length bs then CHUNK_SIZE else length bs) in
        RB_WRITE (le_bytes 8 (of_nat ccb :: size_t))
          (RB_WRITE (take ccb bs) (\<lambda>s. rb_lua_writer (drop ccb bs) s)) s
      else Ret 0 s)"
  by pat_completeness auto
termination
  by (relation "measure (\<lambda>(bs, s). length bs)") (auto simp: CHUNK_SIZE_def)

declare rb_lua_writer.simps [simp del]

text \<open>\<open>lua_dump\<close> calls its writer with one block after the other and stops at the first error.\<close>

fun lua_dump :: "byte list list \<Rightarrow> save_state \<Rightarrow> save_result" where
  "lua_dump [] s = Ret 0 s"
| "lua_dump (b # bs) s =
     (case rb_lua_writer b s of
        Ret ret s1 \<Rightarrow> if ret \<noteq> 0 then Ret ret s1 else lua_dump bs s1
      | Raise e s1 \<Rightarrow> Raise e s1
      | Abort f \<Rightarrow> Abort f)"

definition rb_stackCheck :: "nat \<Rightarrow> string \<Rightarrow> int \<Rightarrow> save_state \<Rightarrow> save_result" where
  "rb_stackCheck startsize loc ret s =
     (if ltop s \<noteq> startsize then Raise (LuaErrStr (''Stack wasn't correctly reset in '' @ loc)) s
      else Ret ret s)"

definition pop :: "nat \<Rightarrow> save_state \<Rightarrow> save_state" where
  "pop n s = s\<lparr>ltop := ltop s - n\<rparr>"

definition push :: "nat \<Rightarrow> save_state \<Rightarrow> save_state" where
  "push n s = s\<lparr>ltop := ltop s + n\<rparr>"

fun userdata_type :: "meta \<Rightarrow> byte" where
  "userdata_type (NamedMeta _) = - 7"
| "userdata_type _ = 7"

text \<open>
  The userdata case of \<open>rb_save\<close>: the type byte is negated when the name comes from the
  \<open>metatablename\<close> method.
\<close>

definition save_userdata :: "lua_api \<Rightarrow> bool \<Rightarrow> meta \<Rightarrow> pointer \<Rightarrow> save_state \<Rightarrow> save_result" where
  "save_userdata A oop m ptr s =
     (if oop then Ret (- EPERM) s
      else if m = NoMeta then Ret (- EINVAL) s
      else
        let type = userdata_type m; str = meta_name m in
        RB_WRITE [type]
          (RB_WRITE (le_bytes 8 (of_nat (length str) :: size_t))
            (RB_WRITE str
              (RB_WRITE (le_bytes 8 ptr)
                (\<lambda>s. if api_has_retain A m then Ret 0 (s\<lparr>retained := retained s @ [ptr]\<rparr>)
                     else Ret (- EINVAL) s)))) s)"

text \<open>
  \<open>rb_save A oop upval index v s\<close> saves the value \<open>v\<close>, which is at the absolute stack index
  \<open>index\<close>. The entries of a table are visited with the key at \<open>startsize + 1\<close> and the value at
  \<open>startsize + 2\<close>. On the error path of the upvalue table one value is popped, whether or not
  the function itself was pushed before.
\<close>

function rb_save :: "lua_api \<Rightarrow> bool \<Rightarrow> cint \<Rightarrow> nat \<Rightarrow> lua_value \<Rightarrow> save_state \<Rightarrow> save_result"
  and save_entries :: "lua_api \<Rightarrow> bool \<Rightarrow> cint \<Rightarrow> nat \<Rightarrow> entry list \<Rightarrow> save_state \<Rightarrow> save_result" where
  "rb_save A oop upval index LNil s = RB_WRITE [lua_type LNil] (Ret 0) s"
| "rb_save A oop upval index (LBoolean b) s =
     RB_WRITE [lua_type (LBoolean b)] (RB_WRITE [if b then 1 else 0] (Ret 0)) s"
| "rb_save A oop upval index (LInteger n) s =
     RB_WRITE [EXTRA_LUA_TINTEGER] (RB_WRITE (le_bytes 8 n) (Ret 0)) s"
| "rb_save A oop upval index (LNumber n) s =
     RB_WRITE [lua_type (LNumber n)] (RB_WRITE (le_bytes 8 n) (Ret 0)) s"
| "rb_save A oop upval index (LString str) s =
     RB_WRITE [lua_type (LString str)]
       (RB_WRITE (le_bytes 8 (of_nat (length str) :: size_t)) (RB_WRITE str (Ret 0))) s"
| "rb_save A oop upval index (LTable es m) s =
     (let startsize = ltop s; str = meta_name m in
      RB_WRITE [lua_type (LTable es m)]
        (\<lambda>s. case save_entries A oop upval startsize es (push 1 s) of
           Ret ret s \<Rightarrow>
             if ret \<noteq> 0 then Ret ret s
             else RB_WRITE [lua_type LNil]
               (RB_WRITE (le_bytes 8 (of_nat (length str) :: size_t))
                 (RB_WRITE str (rb_stackCheck startsize ''write table return'' 0))) s
         | Raise e s \<Rightarrow> Raise e s
         | Abort f \<Rightarrow> Abort f) s)"
| "rb_save A oop upval index (LFunction what proto ups) s =
     (let startsize = ltop s; pushed = (if index \<noteq> startsize then 1 else 0); nups = length ups in
      RB_WRITE [lua_type (LFunction what proto ups)]
        (\<lambda>s. let s = push pushed s in
           if take 1 what \<noteq> ''L'' then Raise (LuaErrStr ''attempt to persist a C function'') s
           else case lua_dump (api_dump A proto) s of
             Ret ret s \<Rightarrow>
               if ret \<noteq> 0 then rb_stackCheck startsize ''lua_dump write'' ret (pop pushed s)
               else RB_WRITE_POP (le_bytes 8 (0 :: size_t)) pushed
                 (let env = (if upval = 0 \<and> nups = 1 \<and> fst (hd ups) = env_name then 1 else 0) in
                  RB_WRITE_POP (le_bytes 4 (if upval = 0 \<and> nups = 1 then env else upval)) pushed
                    (\<lambda>s. if upval = 1 \<or> env = (1 :: cint) then
                         RB_WRITE_POP (le_bytes 4 (env_index 1 (- 1) ups)) (1 + pushed)
                           (\<lambda>s. case rb_save A oop upval (ltop s) (LTable (upvalue_entries 1 ups) NoMeta) s of
                              Ret ret s \<Rightarrow>
                                if ret \<noteq> 0 then
                                  rb_stackCheck (startsize + pushed) ''write function upvalue'' ret (pop 1 s)
                                else let s = pop 1 s in
                                  rb_stackCheck startsize ''write function return'' 0
                                    (if index \<noteq> ltop s then pop 1 s else s)
                            | Raise e s \<Rightarrow> Raise e s
                            | Abort f \<Rightarrow> Abort f) (push 1 s)
                       else if nups > 0 then Raise (LuaErrStr ''Attempt to serialize closure'') s
                       else rb_stackCheck startsize ''write function return'' 0
                              (if index \<noteq> ltop s then pop 1 s else s))) s
           | Raise e s \<Rightarrow> Raise e s
           | Abort f \<Rightarrow> Abort f) s)"
| "rb_save A oop upval index (LUserdata m ptr) s = save_userdata A oop m ptr s"
| "rb_save A oop upval index (LLightUserdata p) s = Ret (- EPERM) s"
| "rb_save A oop upval index (LThread t) s = Ret (- EPERM) s"
| "save_entries A oop upval startsize [] s = Ret 0 (pop 1 s)"
| "save_entries A oop upval startsize ((k, v) # es) s =
     (case rb_save A oop upval (startsize + 1) k (push 1 s) of
        Ret ret s \<Rightarrow>
          if ret \<noteq> 0 then rb_stackCheck startsize ''write table key'' ret (pop 2 s)
          else (case rb_save A oop upval (startsize + 2) v s of
             Ret ret s \<Rightarrow>
               if ret \<noteq> 0 then rb_stackCheck startsize ''write table value'' ret (pop 2 s)
               else save_entries A oop upval startsize es (pop 1 s)
           | Raise e s \<Rightarrow> Raise e s
           | Abort f \<Rightarrow> Abort f)
      | Raise e s \<Rightarrow> Raise e s
      | Abort f \<Rightarrow> Abort f)"
  by pat_completeness auto
termination
  by (relation "measure (case_sum (\<lambda>(A, oop, upval, index, v, s). weight v)
      (\<lambda>(A, oop, upval, startsize, es, s). Suc (weight_entries es)))")
    (auto intro: le_imp_less_Suc weight_upvalue_entries le_SucI)

section \<open>The wire format\<close>

text \<open>
  The bytes of a value, defined without the ring buffer: \<^term>\<open>encode A upval v\<close>, the userdata
  pointers in it, and which values can be saved at all.
\<close>

definition str_bytes :: "byte list \<Rightarrow> byte list" where
  "str_bytes str = le_bytes 8 (of_nat (length str) :: size_t) @ str"

function block_bytes :: "byte list \<Rightarrow> byte list" where
  "block_bytes bs =
     (if bs = [] then [] else str_bytes (take CHUNK_SIZE bs) @ block_bytes (drop CHUNK_SIZE bs))"
  by pat_completeness auto
termination
  by (relation "measure length") (auto simp: CHUNK_SIZE_def)

declare block_bytes.simps [simp del]

definition upvalue_flag :: "cint \<Rightarrow> upvalue list \<Rightarrow> cint" where
  "upvalue_flag upval ups =
     (if upval = 0 \<and> length ups = 1 then if fst (hd ups) = env_name then 1 else 0 else upval)"

function encode :: "lua_api \<Rightarrow> cint \<Rightarrow> lua_value \<Rightarrow> byte list"
  and encode_entries :: "lua_api \<Rightarrow> cint \<Rightarrow> entry list \<Rightarrow> byte list" where
  "encode A upval LNil = [0]"
| "encode A upval (LBoolean b) = [1, if b then 1 else 0]"
| "encode A upval (LInteger n) = EXTRA_LUA_TINTEGER # le_bytes 8 n"
| "encode A upval (LNumber n) = 3 # le_bytes 8 n"
| "encode A upval (LString str) = 4 # str_bytes str"
| "encode A upval (LTable es m) = 5 # encode_entries A upval es @ 0 # str_bytes (meta_name m)"
| "encode A upval (LFunction what proto ups) =
     6 # concat (map block_bytes (api_dump A proto)) @ le_bytes 8 (0 :: size_t) @
     le_bytes 4 (upvalue_flag upval ups) @
     (if upvalue_flag upval ups = 1
      then le_bytes 4 (env_index 1 (- 1) ups) @ encode A upval (LTable (upvalue_entries 1 ups) NoMeta)
      else [])"
| "encode A upval (LUserdata m ptr) =
     userdata_type m # str_bytes (meta_name m) @ le_bytes 8 ptr"
| "encode A upval (LLightUserdata p) = []"
| "encode A upval (LThread t) = []"
| "encode_entries A upval [] = []"
| "encode_entries A upval ((k, v) # es) = encode A upval k @ encode A upval v @ encode_entries A upval es"
  by pat_completeness auto
termination
  by (relation "measure (case_sum (\<lambda>(A, upval, v). weight v) (\<lambda>(A, upval, es). Suc (weight_entries es)))")
    (auto intro: le_imp_less_Suc weight_upvalue_entries le_SucI)

text \<open>The pointers whose userdata is retained, in the order of the encoding.\<close>

function pointers :: "cint \<Rightarrow> lua_value \<Rightarrow> pointer list"
  and pointers_entries :: "cint \<Rightarrow> entry list \<Rightarrow> pointer list" where
  "pointers upval LNil = []"
| "pointers upval (LBoolean b) = []"
| "pointers upval (LInteger n) = []"
| "pointers upval (LNumber n) = []"
| "pointers upval (LString str) = []"
| "pointers upval (LTable es m) = pointers_entries upval es"
| "pointers upval (LFunction what proto ups) =
     (if upvalue_flag upval ups = 1 then pointers upval (LTable (upvalue_entries 1 ups) NoMeta) else [])"
| "pointers upval (LUserdata m ptr) = [ptr]"
| "pointers upval (LLightUserdata p) = []"
| "pointers upval (LThread t) = []"
| "pointers_entries upval [] = []"
| "pointers_entries upval ((k, v) # es) = pointers upval k @ pointers upval v @ pointers_entries upval es"
  by pat_completeness auto
termination
  by (relation "measure (case_sum (\<lambda>(upval, v). weight v) (\<lambda>(upval, es). Suc (weight_entries es)))")
    (auto intro: le_imp_less_Suc weight_upvalue_entries le_SucI)

fun is_function :: "lua_value \<Rightarrow> bool" where
  "is_function (LFunction _ _ _) = True"
| "is_function _ = False"

text \<open>
  The values \<open>rb_save\<close> accepts. Out of process (\<open>oop\<close>) no userdata is accepted; a function must
  be a Lua function and may have upvalues only where they are saved. A function as a table
  key is left out: see \<open>rb_save_function_key\<close>.
\<close>

function savable :: "lua_api \<Rightarrow> bool \<Rightarrow> cint \<Rightarrow> lua_value \<Rightarrow> bool"
  and savable_entries :: "lua_api \<Rightarrow> bool \<Rightarrow> cint \<Rightarrow> entry list \<Rightarrow> bool" where
  "savable A oop upval LNil = True"
| "savable A oop upval (LBoolean b) = True"
| "savable A oop upval (LInteger n) = True"
| "savable A oop upval (LNumber n) = True"
| "savable A oop upval (LString str) = (length str < max_object)"
| "savable A oop upval (LTable es m) =
     (savable_entries A oop upval es \<and> length (meta_name m) < max_object)"
| "savable A oop upval (LFunction what proto ups) =
     (take 1 what = ''L'' \<and>
      (if upvalue_flag upval ups = 1
       then savable A oop upval (LTable (upvalue_entries 1 ups) NoMeta) else ups = []))"
| "savable A oop upval (LUserdata m ptr) =
     (\<not> oop \<and> m \<noteq> NoMeta \<and> api_has_retain A m \<and> length (meta_name m) < max_object)"
| "savable A oop upval (LLightUserdata p) = False"
| "savable A oop upval (LThread t) = False"
| "savable_entries A oop upval [] = True"
| "savable_entries A oop upval ((k, v) # es) =
     (savable A oop upval k \<and> \<not> is_function k \<and> savable A oop upval v \<and> savable_entries A oop upval es)"
  by pat_completeness auto
termination
  by (relation "measure (case_sum (\<lambda>(A, oop, upval, v). weight v) (\<lambda>(A, oop, upval, es). Suc (weight_entries es)))")
    (auto intro: le_imp_less_Suc weight_upvalue_entries le_SucI)

section \<open>Saving is appending the encoding, all or nothing\<close>

definition fits :: "save_state \<Rightarrow> byte list \<Rightarrow> bool" where
  "fits s bs \<longleftrightarrow> length (content (srb s)) + length bs \<le> unat (cb (srb s))"

definition stuck :: "save_state \<Rightarrow> save_state \<Rightarrow> bool" where
  "stuck s s' \<longleftrightarrow> rb_inv (srb s') \<and> unat (cb (srb s')) = unat (cb (srb s)) \<and> rp (srb s') = rp (srb s) \<and>
     (\<forall>old. rb_mark old (srb s) \<longrightarrow> rb_mark old (srb s'))"

definition appended :: "save_state \<Rightarrow> byte list \<Rightarrow> save_state \<Rightarrow> bool" where
  "appended s bs s' \<longleftrightarrow> stuck s s' \<and> content (srb s') = content (srb s) @ bs"

text \<open>
  \<open>save_spec s bs ps t T r\<close>: the result \<open>r\<close> of a computation from \<open>s\<close> that means to append \<open>bs\<close> and
  to retain \<open>ps\<close>. Where \<open>bs\<close> fits, it does so and leaves the stack at \<open>t\<close>; where not, it
  returns \<open>-ENOMEM\<close> with the stack at one of \<open>T\<close> and the mark intact.
\<close>

definition save_spec ::
    "save_state \<Rightarrow> byte list \<Rightarrow> pointer list \<Rightarrow> nat \<Rightarrow> nat set \<Rightarrow> save_result \<Rightarrow> bool" where
  "save_spec s bs ps t T r \<longleftrightarrow>
     (if fits s bs then \<exists>s'. r = Ret 0 s' \<and> appended s bs s' \<and> ltop s' = t \<and> retained s' = retained s @ ps
      else \<exists>s'. r = Ret (- ENOMEM) s' \<and> stuck s s' \<and> ltop s' \<in> T)"

lemma stuck_trans: "stuck s s1 \<Longrightarrow> stuck s1 s2 \<Longrightarrow> stuck s s2"
  by (auto simp: stuck_def)

lemma stuck_inv: "stuck s s' \<Longrightarrow> rb_inv (srb s')"
  by (simp add: stuck_def)

lemma appended_inv: "appended s bs s' \<Longrightarrow> rb_inv (srb s')"
  by (auto simp: appended_def dest: stuck_inv)

lemma stack_irrelevant [simp]:
  "srb (push n s) = srb s" "srb (pop n s) = srb s"
  "retained (push n s) = retained s" "retained (pop n s) = retained s"
  "ltop (push n s) = ltop s + n" "ltop (pop n s) = ltop s - n"
  "stuck (push n s) s' = stuck s s'" "stuck s (push n s') = stuck s s'" "stuck s (pop n s') = stuck s s'"
  "appended (push n s) bs s' = appended s bs s'" "appended s bs (push n s') = appended s bs s'"
  "appended s bs (pop n s') = appended s bs s'"
  "appended (pop n s) bs s' = appended s bs s'"
  "save_spec (push n s) bs ps t T r = save_spec s bs ps t T r"
  "save_spec (pop n s) bs ps t T r = save_spec s bs ps t T r"
  by (simp_all add: push_def pop_def stuck_def appended_def save_spec_def fits_def)

lemma save_spec_trans:
  assumes "appended s b1 s1" and "retained s1 = retained s @ p1" and "save_spec s1 b2 p2 t T r"
  shows "save_spec s (b1 @ b2) (p1 @ p2) t T r"
proof -
  have "fits s (b1 @ b2) = fits s1 b2"
    using assms(1) by (simp add: fits_def appended_def stuck_def add.assoc)
  then show ?thesis
    using assms by (auto simp: save_spec_def appended_def intro: stuck_trans split: if_splits)
qed

lemma save_spec_Ret: "rb_inv (srb s) \<Longrightarrow> ltop s = t \<Longrightarrow> save_spec s [] [] t T (Ret 0 s)"
  using ring.bytes_le [of "srb s"] by (auto simp: save_spec_def appended_def stuck_def fits_def)

text \<open>Composition rules: one write, and a call whose error is passed on.\<close>

lemma RB_WRITE_POP_spec:
  assumes inv: "rb_inv (srb s)" and small: "length bs < max_object"
    and go: "\<And>s1. appended s bs s1 \<Longrightarrow> ltop s1 = ltop s \<Longrightarrow> retained s1 = retained s \<Longrightarrow>
      save_spec s1 b2 ps t T (k s1)"
    and stop: "ltop s - n \<in> T"
  shows "save_spec s (bs @ b2) ps t T (RB_WRITE_POP bs n k s)"
proof (cases "fits s bs")
  case True
  then obtain rb where w: "ringbuffer_write (srb s) (Some bs) (of_nat (length bs)) = Ok (of_nat (length bs), rb)"
    and rb: "rb_inv rb" "content rb = content (srb s) @ bs" "unat (cb rb) = unat (cb (srb s))" "rp rb = rp (srb s)"
      "\<And>old. rb_mark old (srb s) \<Longrightarrow> rb_mark old rb"
    using ring.put_fits [OF inv] unfolding fits_def by blast
  let ?s = "s\<lparr>srb := rb\<rparr>"
  have app: "appended s bs ?s" using rb by (simp add: appended_def stuck_def)
  have "save_spec s (bs @ b2) ([] @ ps) t T (k ?s)"
    by (rule save_spec_trans [OF app _ go [OF app]]) simp_all
  then show ?thesis by (simp add: RB_WRITE_POP_def w)
next
  case False
  then have "unat (cb (srb s)) < length (content (srb s)) + length bs" by (simp add: fits_def)
  then obtain i rb where w: "ringbuffer_write (srb s) (Some bs) (of_nat (length bs)) = Ok (i, rb)"
    and i: "i \<noteq> of_nat (length bs)" and rb: "rb_inv rb" "unat (cb rb) = unat (cb (srb s))" "rp rb = rp (srb s)"
      "\<And>old. rb_mark old (srb s) \<Longrightarrow> rb_mark old rb"
    using ring.put_short [OF inv _ small] by blast
  have "\<not> fits s (bs @ b2)" using False by (simp add: fits_def)
  then show ?thesis
    using w i rb stop by (simp add: save_spec_def RB_WRITE_POP_def stuck_def)
qed

lemma RB_WRITE_spec:
  assumes "rb_inv (srb s)" and "length bs < max_object"
    and "\<And>s1. appended s bs s1 \<Longrightarrow> ltop s1 = ltop s \<Longrightarrow> retained s1 = retained s \<Longrightarrow>
      save_spec s1 b2 ps t T (k s1)"
    and "ltop s \<in> T"
  shows "save_spec s (bs @ b2) ps t T (RB_WRITE bs k s)"
  unfolding RB_WRITE_def by (rule RB_WRITE_POP_spec) (use assms in auto)

lemma call_spec:
  assumes call: "save_spec s b1 p1 t1 T1 r"
    and go: "\<And>s1. appended s b1 s1 \<Longrightarrow> ltop s1 = t1 \<Longrightarrow> save_spec s1 b2 p2 t T (k s1)"
    and stop: "\<And>s1. rb_inv (srb s1) \<Longrightarrow> ltop s1 \<in> T1 \<Longrightarrow> \<exists>n. f (- ENOMEM) s1 = Ret (- ENOMEM) (pop n s1) \<and> ltop s1 - n \<in> T"
  shows "save_spec s (b1 @ b2) (p1 @ p2) t T
    (case r of Ret ret s1 \<Rightarrow> if ret \<noteq> 0 then f ret s1 else k s1 | Raise e s1 \<Rightarrow> Raise e s1 | Abort x \<Rightarrow> Abort x)"
proof (cases "fits s b1")
  case True
  with call obtain s1 where r: "r = Ret 0 s1" "appended s b1 s1" "ltop s1 = t1" "retained s1 = retained s @ p1"
    by (auto simp: save_spec_def)
  then show ?thesis using save_spec_trans [OF r(2,4) go] by simp
next
  case False
  with call obtain s1 where r: "r = Ret (- ENOMEM) s1" "stuck s s1" "ltop s1 \<in> T1"
    by (auto simp: save_spec_def)
  obtain n where "f (- ENOMEM) s1 = Ret (- ENOMEM) (pop n s1)" "ltop s1 - n \<in> T"
    using stop [OF stuck_inv [OF r(2)] r(3)] by blast
  moreover have "\<not> fits s (b1 @ b2)" using False by (simp add: fits_def)
  ultimately show ?thesis using r by (auto simp: save_spec_def ENOMEM_def)
qed

lemma save_spec_mono: "save_spec s bs ps t T r \<Longrightarrow> T \<subseteq> T' \<Longrightarrow> save_spec s bs ps t T' r"
  by (auto simp: save_spec_def split: if_splits)

lemma CHUNK_min: "(if CHUNK_SIZE < length bs then CHUNK_SIZE else length bs) = length (take CHUNK_SIZE bs)"
  by (simp add: min_def)

lemma rb_lua_writer_spec:
  "rb_inv (srb s) \<Longrightarrow> ltop s = t \<Longrightarrow> save_spec s (block_bytes bs) [] t {t} (rb_lua_writer bs s)"
proof (induction bs arbitrary: s rule: block_bytes.induct)
  case (1 bs)
  show ?case
  proof (cases "bs = []")
    case True
    then show ?thesis using "1.prems" by (simp add: rb_lua_writer.simps block_bytes.simps save_spec_Ret)
  next
    case False
    have small: "length (take CHUNK_SIZE bs) < max_object" "8 < max_object"
      by (simp_all add: CHUNK_SIZE_def max_object_def)
    have drop: "drop (length (take CHUNK_SIZE bs)) bs = drop CHUNK_SIZE bs"
      and take: "take (length (take CHUNK_SIZE bs)) bs = take CHUNK_SIZE bs"
      by (simp_all add: min_def)
    have "save_spec s (str_bytes (take CHUNK_SIZE bs) @ block_bytes (drop CHUNK_SIZE bs)) [] t {t}
       (RB_WRITE (le_bytes 8 (of_nat (length (take CHUNK_SIZE bs)) :: size_t))
         (RB_WRITE (take CHUNK_SIZE bs) (\<lambda>s. rb_lua_writer (drop CHUNK_SIZE bs) s)) s)"
      unfolding str_bytes_def append_assoc
      by (intro RB_WRITE_spec "1.IH" False) (use "1.prems" small in \<open>auto dest: appended_inv\<close>)
    with False show ?thesis
      by (simp only: rb_lua_writer.simps [of bs] block_bytes.simps [of bs] CHUNK_min Let_def drop take)
        simp
  qed
qed

lemma lua_dump_spec:
  "rb_inv (srb s) \<Longrightarrow> ltop s = t \<Longrightarrow>
     save_spec s (concat (map block_bytes blocks)) [] t {t} (lua_dump blocks s)"
proof (induction blocks arbitrary: s)
  case Nil
  then show ?case by (simp add: save_spec_Ret)
next
  case (Cons b blocks)
  have "save_spec s (block_bytes b @ concat (map block_bytes blocks)) ([] @ []) t {t} (lua_dump (b # blocks) s)"
    unfolding lua_dump.simps
    by (rule call_spec [OF rb_lua_writer_spec [OF Cons.prems] Cons.IH])
      (auto simp: pop_def dest: appended_inv intro!: exI [of _ 0])
  then show ?case by simp
qed

text \<open>Where the stack can be when a save runs out of space.\<close>

definition fail_tops :: "nat \<Rightarrow> nat \<Rightarrow> lua_value \<Rightarrow> nat set" where
  "fail_tops index t v = (if is_function v \<and> index \<noteq> t then {t, t + 1} else {t})"

lemma fail_tops_self [simp]: "t \<in> fail_tops index t v"
  by (simp add: fail_tops_def)

lemma fail_tops_no_function [simp]: "\<not> is_function v \<Longrightarrow> fail_tops index t v = {t}"
  by (simp add: fail_tops_def)

lemma fail_tops_top [simp]: "fail_tops t t v = {t}"
  by (simp add: fail_tops_def)

lemma small_object [simp]: "0 < max_object" "Suc 0 < max_object" "4 < max_object" "8 < max_object"
  by (simp_all add: max_object_def)

text \<open>The end of the function case: the stack is put back as it was found.\<close>

lemma function_return_spec:
  assumes "rb_inv (srb s)" and "ltop s = t + p" and "index \<le> t" and "p = (if index \<noteq> t then 1 else 0)"
  shows "save_spec s [] [] t T
    (rb_stackCheck t loc 0 (if index \<noteq> ltop s then pop 1 s else s))"
  using assms save_spec_Ret [of "if index \<noteq> ltop s then pop 1 s else s" t T]
  by (auto simp: rb_stackCheck_def split: if_splits)

lemma function_upvalues_spec:
  assumes inv: "rb_inv (srb s)" and top: "ltop s = t + p + 1" and T: "{t, t + p} \<subseteq> T"
    and table: "save_spec s bs ps (ltop s) {ltop s} r"
    and fin: "\<And>s1. rb_inv (srb s1) \<Longrightarrow> ltop s1 = t + p \<Longrightarrow> save_spec s1 [] [] t T (fin s1)"
  shows "save_spec s bs ps t T (case r of
      Ret ret s \<Rightarrow> if ret \<noteq> 0 then rb_stackCheck (t + p) loc ret (pop 1 s) else fin (pop 1 s)
    | Raise e s \<Rightarrow> Raise e s | Abort f \<Rightarrow> Abort f)"
proof -
  have "save_spec s (bs @ []) (ps @ []) t T (case r of
      Ret ret s \<Rightarrow> if ret \<noteq> 0 then rb_stackCheck (t + p) loc ret (pop 1 s) else fin (pop 1 s)
    | Raise e s \<Rightarrow> Raise e s | Abort f \<Rightarrow> Abort f)"
  proof (rule call_spec [OF table])
    fix s2 assume "appended s bs s2" and "ltop s2 = ltop s"
    then have "save_spec (pop 1 s2) [] [] t T (fin (pop 1 s2))"
      using top by (intro fin) (auto dest: appended_inv)
    then show "save_spec s2 [] [] t T (fin (pop 1 s2))" by simp
  qed (use top T in \<open>auto simp: rb_stackCheck_def intro!: exI [of _ 1]\<close>)
  then show ?thesis by simp
qed

lemma save_function_spec:
  fixes ups :: "upvalue list"
  defines "tab \<equiv> LTable (upvalue_entries 1 ups) NoMeta"
  assumes inv: "rb_inv (srb s)" and idx: "index \<le> ltop s" and L: "take 1 what = ''L''"
    and none: "upvalue_flag upval ups \<noteq> 1 \<Longrightarrow> ups = []"
    and table: "\<And>s. upvalue_flag upval ups = 1 \<Longrightarrow> rb_inv (srb s) \<Longrightarrow>
      save_spec s (encode A upval tab) (pointers upval tab) (ltop s) {ltop s} (rb_save A oop upval (ltop s) tab s)"
  shows "save_spec s (encode A upval (LFunction what proto ups)) (pointers upval (LFunction what proto ups))
    (ltop s) (fail_tops index (ltop s) (LFunction what proto ups)) (rb_save A oop upval index (LFunction what proto ups) s)"
proof -
  let ?t = "ltop s" and ?flag = "upvalue_flag upval ups" and ?f = "LFunction what proto ups"
  let ?ups = "le_bytes 4 (env_index 1 (- 1) ups) @ encode A upval tab"
  let ?env = "if upval = 0 \<and> length ups = 1 \<and> fst (hd ups) = env_name then 1 else 0 :: cint"
  define p :: nat where "p = (if index \<noteq> ltop s then 1 else 0)"
  define T where "T = fail_tops index ?t ?f"
  have T: "{?t, ?t + p} \<subseteq> T" by (auto simp: fail_tops_def T_def p_def)
  have cond: "(upval = 1 \<or> ?env = 1) \<longleftrightarrow> ?flag = 1"
    and flag: "(if upval = 0 \<and> length ups = 1 then ?env else upval) = ?flag"
    by (auto simp: upvalue_flag_def)
  define fin where "fin = (\<lambda>s. rb_stackCheck ?t ''write function return'' 0 (if index \<noteq> ltop s then pop 1 s else s))"
  define ups_k where "ups_k = (\<lambda>s. case rb_save A oop upval (ltop s) tab s of
      Ret ret s \<Rightarrow> if ret \<noteq> 0 then rb_stackCheck (?t + p) ''write function upvalue'' ret (pop 1 s) else fin (pop 1 s)
    | Raise e s \<Rightarrow> Raise e s | Abort f \<Rightarrow> Abort f)"
  define tail where "tail = (\<lambda>s. if ?flag = 1 then
       RB_WRITE_POP (le_bytes 4 (env_index 1 (- 1) ups)) (1 + p) ups_k (push 1 s)
     else if length ups > 0 then Raise (LuaErrStr ''Attempt to serialize closure'') s else fin s)"
  have fin: "save_spec s1 [] [] ?t T (fin s1)" if "rb_inv (srb s1)" "ltop s1 = ?t + p" for s1
    unfolding fin_def using that idx by (rule function_return_spec) (simp add: p_def)
  have ups_k: "save_spec s1 (encode A upval tab) (pointers upval tab) ?t T (ups_k s1)"
    if "?flag = 1" "rb_inv (srb s1)" "ltop s1 = ?t + p + 1" for s1
    unfolding ups_k_def using that T by (intro function_upvalues_spec table fin)
  have tail: "save_spec s1 (if ?flag = 1 then ?ups else []) (pointers upval ?f) ?t T (tail s1)"
    if s1: "rb_inv (srb s1)" "ltop s1 = ?t + p" for s1
  proof (cases "?flag = 1")
    case True
    have "save_spec (push 1 s1) ?ups (pointers upval tab) ?t T
       (RB_WRITE_POP (le_bytes 4 (env_index 1 (- 1) ups)) (1 + p) ups_k (push 1 s1))"
      by (rule RB_WRITE_POP_spec [OF _ _ ups_k]) (use s1 True T in \<open>auto dest: appended_inv\<close>)
    with True show ?thesis by (simp add: tail_def tab_def del: encode.simps pointers.simps(6))
  qed (use none fin [OF s1] in \<open>simp add: tail_def\<close>)
  have dump: "save_spec s1 (concat (map block_bytes (api_dump A proto))) [] (?t + p) {?t + p}
      (lua_dump (api_dump A proto) (push p s1))" if "appended s [6] s1" "ltop s1 = ?t" for s1
    using lua_dump_spec [of "push p s1" "?t + p"] that by (auto dest: appended_inv)
  have "save_spec s ([6] @ concat (map block_bytes (api_dump A proto)) @ le_bytes 8 (0 :: size_t) @
      le_bytes 4 ?flag @ (if ?flag = 1 then ?ups else [])) ([] @ pointers upval ?f) ?t T
    (RB_WRITE [6] (\<lambda>s. case lua_dump (api_dump A proto) (push p s) of
        Ret ret s \<Rightarrow> if ret \<noteq> 0 then rb_stackCheck ?t ''lua_dump write'' ret (pop p s)
          else RB_WRITE_POP (le_bytes 8 (0 :: size_t)) p (RB_WRITE_POP (le_bytes 4 ?flag) p tail) s
      | Raise e s \<Rightarrow> Raise e s | Abort f \<Rightarrow> Abort f) s)"
    by (intro RB_WRITE_spec call_spec [OF dump] RB_WRITE_POP_spec tail)
      (use inv T in \<open>auto intro!: exI [of _ p] simp: rb_stackCheck_def dest: appended_inv\<close>)
  moreover have "rb_save A oop upval index ?f s =
    RB_WRITE [6] (\<lambda>s. case lua_dump (api_dump A proto) (push p s) of
        Ret ret s \<Rightarrow> if ret \<noteq> 0 then rb_stackCheck ?t ''lua_dump write'' ret (pop p s)
          else RB_WRITE_POP (le_bytes 8 (0 :: size_t)) p (RB_WRITE_POP (le_bytes 4 ?flag) p tail) s
      | Raise e s \<Rightarrow> Raise e s | Abort f \<Rightarrow> Abort f) s"
    unfolding tail_def ups_k_def fin_def p_def tab_def
    by (simp only: rb_save.simps Let_def L lua_type.simps if_False not_True_eq_False simp_thms cond flag)
  ultimately show ?thesis
    by (simp only: T_def tab_def encode.simps append.simps)
qed

lemma save_userdata_spec:
  assumes "rb_inv (srb s)" and "\<not> oop" and "m \<noteq> NoMeta" and "api_has_retain A m"
    and "length (meta_name m) < max_object"
  shows "save_spec s (encode A upval (LUserdata m ptr)) [ptr] (ltop s) {ltop s} (save_userdata A oop m ptr s)"
proof -
  let ?type = "userdata_type m" and ?str = "meta_name m"
  have last: "save_spec s1 [] [ptr] t T (if api_has_retain A m then Ret 0 (s1\<lparr>retained := retained s1 @ [ptr]\<rparr>)
      else Ret (- EINVAL) s1)" if "rb_inv (srb s1)" "ltop s1 = t" for s1 t T
    using that assms(4) ring.bytes_le [of "srb s1"]
    by (auto simp: save_spec_def appended_def stuck_def fits_def)
  have "save_spec s ([?type] @ le_bytes 8 (of_nat (length ?str) :: size_t) @ ?str @ le_bytes 8 ptr @ [])
      [ptr] (ltop s) {ltop s} (save_userdata A oop m ptr s)"
    unfolding save_userdata_def using assms(2,3)
    by (simp only: if_False Let_def simp_thms not_False_eq_True)
      (intro RB_WRITE_spec last; use assms in \<open>auto dest: appended_inv\<close>)
  then show ?thesis by (simp add: str_bytes_def)
qed

lemma write_bytes_spec:
  assumes "rb_inv (srb s)" and "length bs < max_object"
  shows "save_spec s bs [] (ltop s) {ltop s} (RB_WRITE bs (Ret 0) s)"
proof -
  have "save_spec s (bs @ []) [] (ltop s) {ltop s} (RB_WRITE bs (Ret 0) s)"
    by (intro RB_WRITE_spec save_spec_Ret) (use assms in \<open>auto dest: appended_inv\<close>)
  then show ?thesis by simp
qed

lemma write_tagged_spec:
  assumes "rb_inv (srb s)" and "length bs < max_object"
  shows "save_spec s (x # bs) [] (ltop s) {ltop s} (RB_WRITE [x] (RB_WRITE bs (Ret 0)) s)"
proof -
  have "save_spec s1 bs [] (ltop s) {ltop s} (RB_WRITE bs (Ret 0) s1)"
    if "appended s [x] s1" "ltop s1 = ltop s" for s1
    using write_bytes_spec [OF appended_inv [OF that(1)] assms(2)] that(2) by simp
  then have "save_spec s ([x] @ bs) [] (ltop s) {ltop s} (RB_WRITE [x] (RB_WRITE bs (Ret 0)) s)"
    by (intro RB_WRITE_spec) (use assms in auto)
  then show ?thesis by simp
qed

lemma rb_stackCheck_spec:
  "rb_inv (srb s) \<Longrightarrow> ltop s = t \<Longrightarrow> save_spec s [] [] t T (rb_stackCheck t loc 0 s)"
  by (simp add: rb_stackCheck_def save_spec_Ret)

lemma save_table_spec:
  assumes inv: "rb_inv (srb s)" and m: "length (meta_name m) < max_object"
    and es: "\<And>s1. rb_inv (srb s1) \<Longrightarrow> ltop s1 = ltop s + 1 \<Longrightarrow>
      save_spec s1 bs ps (ltop s) {ltop s} (save_entries A oop upval (ltop s) es s1)"
  shows "save_spec s (5 # bs @ 0 # str_bytes (meta_name m)) ps (ltop s) {ltop s}
    (rb_save A oop upval index (LTable es m) s)"
proof -
  let ?str = "meta_name m"
  have es': "save_spec s1 bs ps (ltop s) {ltop s} (save_entries A oop upval (ltop s) es (push 1 s1))"
    if "appended s [5] s1" "ltop s1 = ltop s" for s1
    using es [of "push 1 s1"] that by (auto dest: appended_inv)
  have "save_spec s ([5] @ bs @ [0] @ le_bytes 8 (of_nat (length ?str) :: size_t) @ ?str @ [])
      (ps @ []) (ltop s) {ltop s} (rb_save A oop upval index (LTable es m) s)"
    unfolding rb_save.simps Let_def lua_type.simps
    by (intro RB_WRITE_spec call_spec [OF es'] rb_stackCheck_spec)
      (use inv m in \<open>auto simp: pop_def intro!: exI [of _ 0] dest: appended_inv\<close>)
  then show ?thesis by (simp add: str_bytes_def)
qed

lemma save_entry_spec:
  assumes top: "ltop s = t + 1" and inv: "rb_inv (srb s)"
    and k: "\<And>s1. rb_inv (srb s1) \<Longrightarrow> ltop s1 = t + 2 \<Longrightarrow>
      save_spec s1 b1 p1 (t + 2) {t + 2} (rb_save A oop upval (t + 1) k s1)"
    and v: "\<And>s1. rb_inv (srb s1) \<Longrightarrow> ltop s1 = t + 2 \<Longrightarrow>
      save_spec s1 b2 p2 (t + 2) {t + 2} (rb_save A oop upval (t + 2) v s1)"
    and es: "\<And>s1. rb_inv (srb s1) \<Longrightarrow> ltop s1 = t + 1 \<Longrightarrow>
      save_spec s1 b3 p3 t {t} (save_entries A oop upval t es s1)"
  shows "save_spec s (b1 @ b2 @ b3) (p1 @ p2 @ p3) t {t} (save_entries A oop upval t ((k, v) # es) s)"
proof -
  have k': "save_spec s b1 p1 (t + 2) {t + 2} (rb_save A oop upval (t + 1) k (push 1 s))"
    using k [of "push 1 s"] inv top by simp
  have es': "save_spec s1 b3 p3 t {t} (save_entries A oop upval t es (pop 1 s1))"
    if "rb_inv (srb s1)" "ltop s1 = t + 2" for s1
    using es [of "pop 1 s1"] that by simp
  show ?thesis
    unfolding save_entries.simps
    by (intro call_spec [OF k'] call_spec [OF v] es')
      (auto simp: rb_stackCheck_def intro!: exI [of _ 2] dest: appended_inv)
qed

text \<open>The main fact: \<open>rb_save\<close> appends the encoding of the value, or reports that it does not fit.\<close>

theorem rb_save_spec:
  "savable A oop upval v \<Longrightarrow> rb_inv (srb s) \<Longrightarrow> index \<le> ltop s \<Longrightarrow>
     save_spec s (encode A upval v) (pointers upval v) (ltop s) (fail_tops index (ltop s) v)
       (rb_save A oop upval index v s)"
  "savable_entries A oop upval es \<Longrightarrow> rb_inv (srb s) \<Longrightarrow> ltop s = startsize + 1 \<Longrightarrow>
     save_spec s (encode_entries A upval es) (pointers_entries upval es) startsize {startsize}
       (save_entries A oop upval startsize es s)"
proof (induction A upval v and A upval es arbitrary: s index and s startsize
    rule: encode_encode_entries.induct)
  case (7 A upval what proto ups s index)
  show ?case
  proof (rule save_function_spec)
    fix s :: save_state
    assume "upvalue_flag upval ups = 1" and "rb_inv (srb s)"
    then show "save_spec s (encode A upval (LTable (upvalue_entries 1 ups) NoMeta))
        (pointers upval (LTable (upvalue_entries 1 ups) NoMeta)) (ltop s) {ltop s}
        (rb_save A oop upval (ltop s) (LTable (upvalue_entries 1 ups) NoMeta) s)"
      using "7.IH" [of s "ltop s"] "7.prems"(1)
      by (simp del: encode.simps savable.simps(6) pointers.simps rb_save.simps)
  qed (use "7.prems" in \<open>auto split: if_splits\<close>)
next
  case (6 A upval es m s index)
  then show ?case by (simp add: save_table_spec del: rb_save.simps)
next
  case (8 A upval m ptr s index)
  then show ?case by (simp add: save_userdata_spec del: encode.simps)
next
  case (11 A upval s startsize)
  then show ?case using save_spec_Ret [of "pop 1 s" startsize "{startsize}"] by simp
next
  case (12 A upval k v es s startsize)
  from "12.prems"(1) have sv: "savable A oop upval k" "\<not> is_function k" "savable A oop upval v"
      "savable_entries A oop upval es" by simp_all
  have k: "save_spec s1 (encode A upval k) (pointers upval k) (startsize + 2) {startsize + 2}
      (rb_save A oop upval (startsize + 1) k s1)" if "rb_inv (srb s1)" "ltop s1 = startsize + 2" for s1
    using "12.IH"(1) [OF sv(1) that(1), of "startsize + 1"] that(2) sv(2) by simp
  have v: "save_spec s1 (encode A upval v) (pointers upval v) (startsize + 2) {startsize + 2}
      (rb_save A oop upval (startsize + 2) v s1)" if "rb_inv (srb s1)" "ltop s1 = startsize + 2" for s1
    using "12.IH"(2) [OF sv(3) that(1), of "startsize + 2"] that(2) by simp
  show ?case
    unfolding encode_entries.simps pointers_entries.simps
    by (rule save_entry_spec [OF "12.prems"(3,2) k v "12.IH"(3) [OF sv(4)]])
next
  case (5 A upval str s index)
  have "save_spec s ([4] @ le_bytes 8 (of_nat (length str) :: size_t) @ str @ []) [] (ltop s) {ltop s}
      (rb_save A oop upval index (LString str) s)"
    unfolding rb_save.simps lua_type.simps
    by (intro RB_WRITE_spec save_spec_Ret) (use "5.prems" in \<open>auto dest: appended_inv\<close>)
  then show ?case by (simp add: str_bytes_def)
qed (auto intro: write_bytes_spec write_tagged_spec)

section \<open>Properties\<close>

text \<open>
  C5: Saving an acceptable value is all or nothing. If its encoding fits, exactly the encoding is
  appended to the ring buffer, the Lua stack is as before and each userdata in the value is
  retained once; otherwise the result is \<open>-ENOMEM\<close> and going back to the position saved before
  the call gives the old contents.
\<close>

theorem rb_save_all_or_nothing:
  assumes "savable A oop upval v" and "rb_inv (srb s)" and "index \<le> ltop s"
    and "rb_mark old (srb s)"
  shows "if length (content (srb s)) + length (encode A upval v) \<le> unat (cb (srb s))
    then \<exists>s'. rb_save A oop upval index v s = Ret 0 s' \<and> rb_inv (srb s') \<and>
      content (srb s') = content (srb s) @ encode A upval v \<and> ltop s' = ltop s \<and>
      retained s' = retained s @ pointers upval v
    else \<exists>s'. rb_save A oop upval index v s = Ret (- ENOMEM) s' \<and>
      rb_inv (ringbuffer_pop_write_pos (srb s')) \<and> content (ringbuffer_pop_write_pos (srb s')) = old"
  using rb_save_spec(1) [OF assms(1-3)] assms(4)
  by (auto simp: save_spec_def fits_def appended_def stuck_def rb_mark_pop split: if_splits)

definition small_state :: "size_t \<Rightarrow> save_state" where
  "small_state n = \<lparr>srb = ringbuffer_push_write_pos (ringbuffer_create (\<lambda>_. 0) n), ltop = 2, retained = []\<rparr>"

lemma small_state_simps [simp]:
  "ltop (small_state n) = 2" "retained (small_state n) = []" "content (srb (small_state n)) = []"
  "0 < n \<Longrightarrow> unat n < max_object \<Longrightarrow> rb_inv (srb (small_state n))"
  "0 < n \<Longrightarrow> unat n < max_object \<Longrightarrow> rb_mark [] (srb (small_state n))"
  "cb (srb (small_state n)) = n"
  using rb_inv_create [of n "\<lambda>_. 0"] rb_mark_push [of "ringbuffer_create (\<lambda>_. 0) n"]
  by (simp_all add: small_state_def) (simp add: ringbuffer_create_def)

theorem rb_save_all_or_nothing_witness:
  "if length (content (srb (small_state 64))) + length (encode small_lua 0 (LTable [(LInteger 1, LBoolean True)] NoMeta)) \<le> unat (cb (srb (small_state 64)))
    then \<exists>s'. rb_save small_lua False 0 2 (LTable [(LInteger 1, LBoolean True)] NoMeta) (small_state 64) = Ret 0 s' \<and> rb_inv (srb s') \<and>
      content (srb s') = content (srb (small_state 64)) @ encode small_lua 0 (LTable [(LInteger 1, LBoolean True)] NoMeta) \<and> ltop s' = ltop (small_state 64) \<and>
      retained s' = retained (small_state 64) @ pointers 0 (LTable [(LInteger 1, LBoolean True)] NoMeta)
    else \<exists>s'. rb_save small_lua False 0 2 (LTable [(LInteger 1, LBoolean True)] NoMeta) (small_state 64) = Ret (- ENOMEM) s' \<and>
      rb_inv (ringbuffer_pop_write_pos (srb s')) \<and> content (ringbuffer_pop_write_pos (srb s')) = []"
  by (rule rb_save_all_or_nothing) (simp_all add: max_object_def)

text \<open>
  Values with no function in them: the ones on which \<open>rb_save\<close> cannot raise a Lua error.
\<close>

function (sequential) functionless :: "lua_value \<Rightarrow> bool"
  and functionless_entries :: "entry list \<Rightarrow> bool" where
  "functionless (LString str) = (length str < max_object)"
| "functionless (LTable es m) = (functionless_entries es \<and> length (meta_name m) < max_object)"
| "functionless (LFunction what proto ups) = False"
| "functionless (LUserdata m ptr) = (length (meta_name m) < max_object)"
| "functionless v = True"
| "functionless_entries [] = True"
| "functionless_entries ((k, v) # es) = (functionless k \<and> functionless v \<and> functionless_entries es)"
  by pat_completeness auto
termination
  by (relation "measure (case_sum weight (\<lambda>es. Suc (weight_entries es)))") auto

definition tame :: "save_state \<Rightarrow> nat \<Rightarrow> bool \<Rightarrow> save_result \<Rightarrow> bool" where
  "tame s t ok r \<longleftrightarrow> (\<exists>ret s'. r = Ret ret s' \<and> stuck s s' \<and> ltop s' = t \<and> (ret = 0 \<longrightarrow> ok))"

lemma tame_Ret: "rb_inv (srb s) \<Longrightarrow> ltop s = t \<Longrightarrow> ret = 0 \<longrightarrow> ok \<Longrightarrow> tame s t ok (Ret ret s)"
  by (auto simp: tame_def stuck_def)

lemma tame_stuck: "stuck s s1 \<Longrightarrow> tame s1 t ok r \<Longrightarrow> tame s t ok r"
  by (auto simp: tame_def intro: stuck_trans)

lemma RB_WRITE_tame:
  assumes inv: "rb_inv (srb s)" and small: "length bs < max_object" and t: "ltop s = t"
    and go: "\<And>s1. stuck s s1 \<Longrightarrow> rb_inv (srb s1) \<Longrightarrow> ltop s1 = t \<Longrightarrow> tame s1 t ok (k s1)"
  shows "tame s t ok (RB_WRITE bs k s)"
proof -
  obtain i rb where w: "ringbuffer_write (srb s) (Some bs) (of_nat (length bs)) = Ok (i, rb)"
    and rb: "rb_inv rb" "unat (cb rb) = unat (cb (srb s))" "rp rb = rp (srb s)" "\<forall>old. rb_mark old (srb s) \<longrightarrow> rb_mark old rb"
    using ring.put_law [OF inv small] by blast
  have st: "stuck s (s\<lparr>srb := rb\<rparr>)" using rb by (simp add: stuck_def)
  show ?thesis
  proof (cases "i = of_nat (length bs)")
    case True
    have "tame (s\<lparr>srb := rb\<rparr>) t ok (k (s\<lparr>srb := rb\<rparr>))" using st rb(1) t by (intro go) simp_all
    with True w show ?thesis by (simp add: RB_WRITE_def RB_WRITE_POP_def tame_stuck [OF st])
  next
    case False
    with w st t show ?thesis by (auto simp: RB_WRITE_def RB_WRITE_POP_def tame_def stuck_def ENOMEM_def)
  qed
qed

lemma call_tame:
  assumes call: "tame s t1 ok1 r"
    and go: "\<And>s1. ok1 \<Longrightarrow> stuck s s1 \<Longrightarrow> rb_inv (srb s1) \<Longrightarrow> ltop s1 = t1 \<Longrightarrow> tame s1 t ok (k s1)"
    and stop: "\<And>ret s1. rb_inv (srb s1) \<Longrightarrow> ltop s1 = t1 \<Longrightarrow> ret \<noteq> 0 \<Longrightarrow> tame s1 t ok (f ret s1)"
  shows "tame s t ok
    (case r of Ret ret s1 \<Rightarrow> if ret \<noteq> 0 then f ret s1 else k s1 | Raise e s1 \<Rightarrow> Raise e s1 | Abort x \<Rightarrow> Abort x)"
proof -
  obtain ret s1 where r: "r = Ret ret s1" "stuck s s1" "ltop s1 = t1" "ret = 0 \<longrightarrow> ok1"
    using call by (auto simp: tame_def)
  have "tame s1 t ok (if ret \<noteq> 0 then f ret s1 else k s1)"
    using r by (auto intro: go stop dest: stuck_inv)
  then show ?thesis using tame_stuck [OF r(2)] r(1) by simp
qed

lemma rb_stackCheck_tame:
  "rb_inv (srb s) \<Longrightarrow> ltop s = t \<Longrightarrow> ret = 0 \<longrightarrow> ok \<Longrightarrow> tame s t ok (rb_stackCheck t loc ret s)"
  by (simp add: rb_stackCheck_def tame_Ret)

lemma tame_mono: "tame s t ok r \<Longrightarrow> (ok \<Longrightarrow> ok') \<Longrightarrow> tame s t ok' r"
  by (auto simp: tame_def)

lemma tame_stack [simp]:
  "tame (push n s) t ok r = tame s t ok r" "tame (pop n s) t ok r = tame s t ok r"
  by (simp_all add: tame_def stuck_def push_def pop_def)

lemma save_table_tame:
  assumes "rb_inv (srb s)" and "length (meta_name m) < max_object"
    and es: "\<And>s1. rb_inv (srb s1) \<Longrightarrow> ltop s1 = ltop s + 1 \<Longrightarrow>
      tame s1 (ltop s) ok (save_entries A oop upval (ltop s) es s1)"
  shows "tame s (ltop s) ok (rb_save A oop upval index (LTable es m) s)"
proof -
  have "tame s1 (ltop s) ok (save_entries A oop upval (ltop s) es (push 1 s1))"
    if "rb_inv (srb s1)" "ltop s1 = ltop s" for s1
    using es [of "push 1 s1"] that by simp
  then show ?thesis
    unfolding rb_save.simps Let_def lua_type.simps
    by (intro RB_WRITE_tame call_tame rb_stackCheck_tame tame_Ret) (use assms(1,2) in auto)
qed

lemma save_entry_tame:
  assumes top: "ltop s = t + 1" and inv: "rb_inv (srb s)"
    and k: "\<And>s1. rb_inv (srb s1) \<Longrightarrow> ltop s1 = t + 2 \<Longrightarrow> tame s1 (t + 2) ok1 (rb_save A oop upval (t + 1) k s1)"
    and v: "\<And>s1. rb_inv (srb s1) \<Longrightarrow> ltop s1 = t + 2 \<Longrightarrow> tame s1 (t + 2) ok2 (rb_save A oop upval (t + 2) v s1)"
    and es: "\<And>s1. rb_inv (srb s1) \<Longrightarrow> ltop s1 = t + 1 \<Longrightarrow> tame s1 t ok3 (save_entries A oop upval t es s1)"
    and ok: "ok1 \<Longrightarrow> ok2 \<Longrightarrow> ok3 \<Longrightarrow> ok"
  shows "tame s t ok (save_entries A oop upval t ((k, v) # es) s)"
proof -
  have k': "tame s (t + 2) ok1 (rb_save A oop upval (t + 1) k (push 1 s))"
    using k [of "push 1 s"] inv top by simp
  have es': "tame s1 t ok (save_entries A oop upval t es (pop 1 s1))"
    if "ok1" "ok2" "rb_inv (srb s1)" "ltop s1 = t + 2" for s1
    using tame_mono [OF es [of "pop 1 s1"]] that ok by simp
  have stop: "tame s1 t ok (rb_stackCheck t loc ret (pop 2 s1))"
    if "rb_inv (srb s1)" "ltop s1 = t + 2" "ret \<noteq> 0" for s1 loc ret
    using rb_stackCheck_tame [of "pop 2 s1" t ret ok loc] that by simp
  show ?thesis
    unfolding save_entries.simps by (intro call_tame [OF k'] call_tame [OF v] es' stop)
qed

lemma save_userdata_tame:
  assumes "rb_inv (srb s)" and "length (meta_name m) < max_object"
  shows "tame s (ltop s) (\<not> oop \<and> m \<noteq> NoMeta \<and> api_has_retain A m) (save_userdata A oop m ptr s)"
proof -
  let ?last = "\<lambda>s. if api_has_retain A m then Ret 0 (s\<lparr>retained := retained s @ [ptr]\<rparr>) else Ret (- EINVAL) s"
  have last: "tame s1 (ltop s) ok (?last s1)"
    if "rb_inv (srb s1)" "ltop s1 = ltop s" "api_has_retain A m \<Longrightarrow> ok" for s1 ok
    using that by (auto simp: tame_def stuck_def EINVAL_def)
  have "tame s (ltop s) (api_has_retain A m) (RB_WRITE [userdata_type m]
     (RB_WRITE (le_bytes 8 (of_nat (length (meta_name m)) :: size_t))
       (RB_WRITE (meta_name m) (RB_WRITE (le_bytes 8 ptr) ?last))) s)"
    by (intro RB_WRITE_tame last) (use assms in auto)
  then show ?thesis
    using assms(1) by (auto simp: save_userdata_def Let_def errno_defs intro!: tame_Ret)
qed

lemma rb_save_tame:
  "functionless v \<Longrightarrow> rb_inv (srb s) \<Longrightarrow> tame s (ltop s) (savable A oop upval v) (rb_save A oop upval index v s)"
  "functionless_entries es \<Longrightarrow> rb_inv (srb s) \<Longrightarrow> ltop s = startsize + 1 \<Longrightarrow>
     tame s startsize (savable_entries A oop upval es) (save_entries A oop upval startsize es s)"
proof (induction v and es arbitrary: s index and s startsize rule: functionless_functionless_entries.induct)
  case (2 es m)
  then show ?case by (auto intro!: save_table_tame simp del: rb_save.simps)
next
  case (4 m ptr)
  then show ?case by (simp add: save_userdata_tame)
next
  case 6
  then show ?case using tame_Ret [of "pop 1 s" startsize] by simp
next
  case (7 k v es)
  from "7.prems"(1) have f: "functionless k" "functionless v" "functionless_entries es" and k: "\<not> is_function k"
    by (auto elim: is_function.elims)
  have kv: "tame s1 (startsize + 2) (savable A oop upval k) (rb_save A oop upval i k s1)"
      "tame s1 (startsize + 2) (savable A oop upval v) (rb_save A oop upval i v s1)"
    if "rb_inv (srb s1)" "ltop s1 = startsize + 2" for s1 i
    using "7.IH"(1) [OF f(1) that(1), of i] "7.IH"(2) [OF f(2) that(1), of i] that(2) by simp_all
  show ?case
    by (rule save_entry_tame [OF "7.prems"(3,2) kv "7.IH"(3) [OF f(3)]]) (use k in simp_all)
qed (auto intro!: RB_WRITE_tame tame_Ret simp: errno_defs)

text \<open>
  C28: On a value without functions \<open>rb_save\<close> never raises a Lua error: it returns with the stack
  as it found it and the saved write position intact, and it returns 0 only for values it
  accepts. So a light userdata or thread, or with \<open>oop\<close> any userdata, at any depth of such a
  value makes it return an error from which the caller can go back to the old contents. Functions are
  left out: a C function, and without upvalues a closure, raises a Lua error instead.
\<close>

theorem rb_save_refuses:
  assumes "functionless v" and "rb_inv (srb s)" and "rb_mark old (srb s)" and "\<not> savable A oop upval v"
  shows "\<exists>ret s'. rb_save A oop upval index v s = Ret ret s' \<and> ret \<noteq> 0 \<and> ltop s' = ltop s \<and>
    rb_inv (ringbuffer_pop_write_pos (srb s')) \<and> content (ringbuffer_pop_write_pos (srb s')) = old"
  using rb_save_tame(1) [OF assms(1,2), of A oop upval index] assms(3,4)
  by (auto simp: tame_def stuck_def rb_mark_pop)

theorem rb_save_refuses_witness:
  "\<exists>ret s'. rb_save small_lua True 0 2 (LTable [(LInteger 1, LUserdata (NamedMeta [65]) 16)] NoMeta) (small_state 64) = Ret ret s' \<and>
    ret \<noteq> 0 \<and> ltop s' = ltop (small_state 64) \<and>
    rb_inv (ringbuffer_pop_write_pos (srb s')) \<and> content (ringbuffer_pop_write_pos (srb s')) = []"
  by (rule rb_save_refuses) (simp_all add: max_object_def c_string_def)

text \<open>
  A function as a table key: when the space runs out in the table of its upvalues, the error
  path of the function case leaves the copy of the function on the stack, so that the stack
  check of the enclosing table raises a Lua error where \<open>-ENOMEM\<close> should be returned and the
  caller would have grown the buffer.
\<close>

theorem rb_save_function_key:
  "(case rb_save small_lua False 0 2 (LTable [(LFunction ''Lua'' 1 [(env_name, LTable [] NoMeta)], LBoolean True)] NoMeta)
      (small_state 30) of
    Raise (LuaErrStr msg) s \<Rightarrow> msg = ''Stack wasn't correctly reset in write table key'' | _ \<Rightarrow> False)"
  by code_simp

end
