(* ===== verification/Deserialize.thy ===== *)
theory Deserialize
  imports Serialize "HOL-Library.Multiset"
begin

text \<open>
  The reading half of \<^verbatim>\<open>src/serialize.c\<close>: \<open>rb_load\<close> and its helpers, that it terminates on any bytes,
  and that it reads back what \<open>rb_save\<close> wrote.
\<close>

section \<open>Model\<close>

text \<open>The result of a load: a negative errno, nothing pushed (0), or one value pushed (1).\<close>

datatype load_ret = LoadErr int | LoadEnd | LoadVal lua_value

type_synonym load_result = "(ringbuffer, load_ret) lres"

text \<open>The macro \<open>RB_READ\<close>, reading \<open>n\<close> bytes into an object of \<open>cap\<close> bytes.\<close>

definition RB_READ ::
    "nat \<Rightarrow> size_t \<Rightarrow> (byte list \<Rightarrow> ringbuffer \<Rightarrow> load_result) \<Rightarrow> ringbuffer \<Rightarrow> load_result" where
  "RB_READ cap n k rb =
     (case ringbuffer_read rb cap n of
        Crash e \<Rightarrow> Abort e
      | Ok (i, out, rb) \<Rightarrow> if i \<noteq> n then Ret (LoadErr (- ENOMEM)) rb else k out rb)"

text \<open>
  The reader callback of \<open>lua_load\<close>: a block, or a null pointer, with \<open>read_last\<close> set when the
  terminating zero length was read. The block is read into the \<open>CHUNK_SIZE\<close> bytes of
  \<open>chunked_t\<close>, whatever length the data announce.
\<close>

datatype reader_ret = Block "byte list" | NullLast | Null

definition rb_lua_reader :: "ringbuffer \<Rightarrow> (reader_ret \<times> ringbuffer) res" where
  "rb_lua_reader rb =
     res_bind (ringbuffer_read rb 8 8)
       (\<lambda>(i, out, rb). if i \<noteq> 8 then Ok (Null, rb)
          else let size = le_word out :: size_t in
            if size \<noteq> 0 then
              res_bind (ringbuffer_read rb CHUNK_SIZE size)
                (\<lambda>(i, data, rb). if i \<noteq> size then Ok (Null, rb) else Ok (Block data, rb))
            else Ok (NullLast, rb))"

text \<open>
  \<open>lua_load\<close> asks the reader for blocks until it has a complete chunk or the reader returns
  null; the result is \<open>read_last\<close> and the bytes it was given.
\<close>

fun lua_load :: "lua_api \<Rightarrow> nat \<Rightarrow> byte list \<Rightarrow> ringbuffer \<Rightarrow> (ringbuffer, bool \<times> byte list) lres" where
  "lua_load A 0 acc rb = Abort NoFuel"
| "lua_load A (Suc fuel) acc rb =
     (case rb_lua_reader rb of
        Crash e \<Rightarrow> Abort e
      | Ok (Block data, rb) \<Rightarrow>
          if api_load_stops A (acc @ data) then Ret (False, acc @ data) rb
          else lua_load A fuel (acc @ data) rb
      | Ok (NullLast, rb) \<Rightarrow> Ret (True, acc) rb
      | Ok (Null, rb) \<Rightarrow> Ret (False, acc) rb)"

text \<open>
  \<open>lua_setupvalue\<close> with the index \<open>n\<close>; where there is no such upvalue it pops nothing, and the
  stack is no longer what the code takes it for.
\<close>

definition set_upvalue :: "upvalue list \<Rightarrow> int \<Rightarrow> lua_value \<Rightarrow> upvalue list option" where
  "set_upvalue ups n v =
     (if 1 \<le> n \<and> n \<le> int (length ups)
      then Some (ups[nat n - 1 := (fst (ups ! (nat n - 1)), v)]) else None)"

fun set_upvalues :: "lua_api \<Rightarrow> upvalue list \<Rightarrow> entry list \<Rightarrow> upvalue list option" where
  "set_upvalues A ups [] = Some ups"
| "set_upvalues A ups ((k, v) # es) =
     (case set_upvalue ups (api_tointeger A k) v of
        None \<Rightarrow> None | Some ups \<Rightarrow> set_upvalues A ups es)"

definition restore_upvalues :: "lua_api \<Rightarrow> cint \<Rightarrow> upvalue list \<Rightarrow> entry list \<Rightarrow> upvalue list option" where
  "restore_upvalues A envIdx ups es =
     (case (if sint envIdx > 0 then set_upvalue ups (sint envIdx) (api_globals A) else Some ups) of
        None \<Rightarrow> None | Some ups \<Rightarrow> set_upvalues A ups es)"

text \<open>The cases of the switch in \<open>rb_load_rcsv\<close>, from the first byte after the type.\<close>

definition load_string :: "ringbuffer \<Rightarrow> load_result" where
  "load_string =
     RB_READ 8 8 (\<lambda>lb. let str_len = le_word lb :: size_t in
       RB_READ (unat str_len) str_len (\<lambda>str. Ret (LoadVal (LString str))))"

text \<open>The end of a table: the name of its metatable.\<close>

definition load_typename :: "lua_api \<Rightarrow> entry list \<Rightarrow> ringbuffer \<Rightarrow> load_result" where
  "load_typename A es =
     RB_READ 8 8 (\<lambda>lb. let str_len = le_word lb :: size_t in
       RB_READ (unat (str_len + 1)) str_len (\<lambda>str.
         Ret (LoadVal (LTable es (if str_len > 0 then api_metatable A (c_string str) else NoMeta)))))"

text \<open>
  After a function's chunk: the upvalue flag, the index of \<open>_ENV\<close> and the table of upvalues,
  which is loaded by \<open>rcsv\<close>. The code does not check that a table was loaded.
\<close>

definition load_upvalues ::
    "lua_api \<Rightarrow> (ringbuffer \<Rightarrow> load_result) \<Rightarrow> string \<Rightarrow> nat \<Rightarrow> upvalue list \<Rightarrow> ringbuffer \<Rightarrow> load_result" where
  "load_upvalues A rcsv what proto ups =
     RB_READ 4 4 (\<lambda>ub rb.
       if le_word ub = (1 :: cint) then
         RB_READ 4 4 (\<lambda>eb rb.
           case rcsv rb of
             Ret (LoadVal (LTable es m)) rb \<Rightarrow>
               (case restore_upvalues A (le_word eb) ups es of
                  None \<Rightarrow> Abort StackCorrupt
                | Some ups \<Rightarrow> Ret (LoadVal (LFunction what proto ups)) rb)
           | Ret r rb \<Rightarrow> Abort StackCorrupt
           | Raise e rb \<Rightarrow> Raise e rb
           | Abort f \<Rightarrow> Abort f) rb
       else Ret (LoadVal (LFunction what proto ups)) rb)"

text \<open>The result of \<open>lua_load\<close>; a loader that did not read the zero marker has it read here.\<close>

definition load_function ::
    "lua_api \<Rightarrow> (ringbuffer \<Rightarrow> load_result) \<Rightarrow> (ringbuffer, bool \<times> byte list) lres \<Rightarrow> load_result" where
  "load_function A rcsv r =
     (case r of
        Ret (read_last, chunk) rb \<Rightarrow>
          (case api_undump A chunk of
             None \<Rightarrow> Ret (LoadErr (- EINVAL)) rb
           | Some (what, proto, ups) \<Rightarrow>
               if \<not> read_last then RB_READ 8 8 (\<lambda>lb. load_upvalues A rcsv what proto ups) rb
               else load_upvalues A rcsv what proto ups rb)
      | Raise e rb \<Rightarrow> Raise e rb
      | Abort f \<Rightarrow> Abort f)"

definition load_userdata :: "lua_api \<Rightarrow> byte \<Rightarrow> ringbuffer \<Rightarrow> load_result" where
  "load_userdata A type =
     RB_READ 8 8 (\<lambda>lb. let str_len = le_word lb :: size_t in
       RB_READ (unat (str_len + 1)) str_len (\<lambda>str.
         RB_READ 8 8 (\<lambda>pb rb.
           let m = api_metatable A (c_string str) in
           if type = 7 \<and> m = NoMeta then Raise (LuaErrStr ''cannot find metatable'') rb
           else Ret (LoadVal (LUserdata m (le_word pb))) rb)))"

text \<open>
  \<open>rb_load_rcsv A fuel d is_key rb\<close> loads one value with \<open>d\<close> slots of the Lua stack in use. The
  results of the nested loads are not checked for errors by the code. After a key that could
  not be loaded it still loads a value, and after either failure it calls \<open>lua_settable\<close> with the index \<open>-3\<close>,
  which is then not the table under construction but a slot below it, of the caller or of an outer table, and goes
  on with the loop; what that does depends on whatever is in those slots. The model follows the
  code up to that first call on the wrong slots and ends there, with the fault \<open>StackCorrupt\<close>.
\<close>

fun rb_load_rcsv :: "lua_api \<Rightarrow> nat \<Rightarrow> nat \<Rightarrow> bool \<Rightarrow> ringbuffer \<Rightarrow> load_result"
  and load_entries :: "lua_api \<Rightarrow> nat \<Rightarrow> nat \<Rightarrow> entry list \<Rightarrow> ringbuffer \<Rightarrow> (ringbuffer, entry list) lres" where
  "rb_load_rcsv A 0 d is_key rb = Abort NoFuel"
| "rb_load_rcsv A (Suc fuel) d is_key rb =
     (if \<not> api_checkstack A d then Ret (LoadErr (- ENOMEM)) rb
      else RB_READ 1 1 (\<lambda>tb rb.
        let type = hd tb in
        if type = 0 then (if is_key then Ret LoadEnd rb else Ret (LoadVal LNil) rb)
        else if type = 1 then RB_READ 1 1 (\<lambda>b. Ret (LoadVal (LBoolean (hd b \<noteq> 0)))) rb
        else if type = 3 then RB_READ 8 8 (\<lambda>n. Ret (LoadVal (LNumber (le_word n)))) rb
        else if type = EXTRA_LUA_TINTEGER then RB_READ 8 8 (\<lambda>n. Ret (LoadVal (LInteger (le_word n)))) rb
        else if type = 4 then load_string rb
        else if type = 5 then
          (case load_entries A fuel d [] rb of
             Ret es rb \<Rightarrow> load_typename A es rb
           | Raise e rb \<Rightarrow> Raise e rb
           | Abort f \<Rightarrow> Abort f)
        else if type = 6 then
          load_function A (\<lambda>rb. rb_load_rcsv A fuel (d + 1) False rb) (lua_load A fuel [] rb)
        else if type = 7 \<or> type = - 7 then load_userdata A type rb
        else Ret (LoadErr (- EINVAL)) rb) rb)"
| "load_entries A 0 d es rb = Abort NoFuel"
| "load_entries A (Suc fuel) d es rb =
     (case rb_load_rcsv A fuel (d + 1) True rb of
        Ret LoadEnd rb \<Rightarrow> Ret es rb
      | Ret (LoadVal k) rb \<Rightarrow>
          (case rb_load_rcsv A fuel (d + 2) False rb of
             Ret (LoadVal v) rb \<Rightarrow>
               (case api_settable A es k v of
                  None \<Rightarrow> Raise (LuaErrStr ''lua_settable'') rb
                | Some es \<Rightarrow> load_entries A fuel d es rb)
           | Ret r rb \<Rightarrow> Abort StackCorrupt
           | Raise e rb \<Rightarrow> Raise e rb
           | Abort f \<Rightarrow> Abort f)
      | Ret (LoadErr ret) rb \<Rightarrow>
          (case rb_load_rcsv A fuel (d + 1) False rb of
             Ret r rb \<Rightarrow> Abort StackCorrupt
           | Raise e rb \<Rightarrow> Raise e rb
           | Abort f \<Rightarrow> Abort f)
      | Raise e rb \<Rightarrow> Raise e rb
      | Abort f \<Rightarrow> Abort f)"

declare rb_load_rcsv.simps [simp del] load_entries.simps [simp del]

text \<open>
  Every nested load and every table entry follows at least one byte that was read, so twice
  the number of readable bytes bounds the recursion (\<open>rb_load_total\<close>).
\<close>

definition rb_load :: "lua_api \<Rightarrow> nat \<Rightarrow> ringbuffer \<Rightarrow> load_result" where
  "rb_load A d rb = rb_load_rcsv A (2 * unat (rcb rb) + 1) d False rb"

section \<open>Termination\<close>

text \<open>
  How a load ends: with a result or an error, the positions within the buffer and no more bytes taken than were there, or at a point where the
  code's behaviour is not defined, of one of two kinds: a read beyond a fixed buffer, or a call on wrong stack slots.
\<close>

definition load_total :: "nat \<Rightarrow> load_result \<Rightarrow> bool" where
  "load_total n r \<longleftrightarrow> (case r of
      Abort f \<Rightarrow> f \<in> {OutOfBounds, StackCorrupt}
    | Raise e rb \<Rightarrow> rb_bounds rb \<and> unat (rcb rb) \<le> n
    | Ret x rb \<Rightarrow> rb_bounds rb \<and> unat (rcb rb) + (case x of LoadErr _ \<Rightarrow> 0 | _ \<Rightarrow> 1) \<le> n)"





lemma load_total_simps [simp]:
  "load_total n (Abort f) \<longleftrightarrow> f = OutOfBounds \<or> f = StackCorrupt"
  "load_total n (Raise e rb) \<longleftrightarrow> rb_bounds rb \<and> unat (rcb rb) \<le> n"
  "load_total n (Ret (LoadErr r) rb) \<longleftrightarrow> rb_bounds rb \<and> unat (rcb rb) \<le> n"
  "load_total n (Ret (LoadVal v) rb) \<longleftrightarrow> rb_bounds rb \<and> unat (rcb rb) < n"
  "load_total n (Ret LoadEnd rb) \<longleftrightarrow> rb_bounds rb \<and> unat (rcb rb) < n"
  by (auto simp: load_total_def)

lemma load_total_mono: "load_total n r \<Longrightarrow> n \<le> m \<Longrightarrow> load_total m r"
  by (auto simp: load_total_def split: lres.splits load_ret.splits)









section \<open>Reading back what was saved\<close>

text \<open>
  What the reading state makes of a saved value, without bytes: entries are inserted into a
  new table one after the other, a function is what \<open>lua_load\<close> gives with its upvalues set,
  metatables are looked up by name. \<open>None\<close> stands for a value that cannot be made there.
\<close>

fun build_table :: "lua_api \<Rightarrow> entry list \<Rightarrow> entry list \<Rightarrow> entry list option" where
  "build_table A acc [] = Some acc"
| "build_table A acc ((k, v) # es) =
     (case api_settable A acc k v of None \<Rightarrow> None | Some acc \<Rightarrow> build_table A acc es)"

definition loads_whole :: "lua_api \<Rightarrow> byte list \<Rightarrow> bool" where
  "loads_whole A chunk \<longleftrightarrow> list_all (\<lambda>n. \<not> api_load_stops A (take n chunk)) [1..<length chunk]"

definition reload_meta :: "lua_api \<Rightarrow> meta \<Rightarrow> meta" where
  "reload_meta A m = (if meta_name m = [] then NoMeta else api_metatable A (meta_name m))"

definition make_function :: "lua_api \<Rightarrow> byte list \<Rightarrow> (cint \<times> lua_value option) option \<Rightarrow> lua_value option" where
  "make_function A chunk tab =
     (if loads_whole A chunk then
        (case api_undump A chunk of
           None \<Rightarrow> None
         | Some (what, proto, ups) \<Rightarrow>
             (case tab of
                None \<Rightarrow> Some (LFunction what proto ups)
              | Some (envIdx, Some (LTable es m)) \<Rightarrow>
                  map_option (LFunction what proto) (restore_upvalues A envIdx ups es)
              | Some _ \<Rightarrow> None))
      else None)"

function reload :: "lua_api \<Rightarrow> cint \<Rightarrow> lua_value \<Rightarrow> lua_value option"
  and reload_entries :: "lua_api \<Rightarrow> cint \<Rightarrow> entry list \<Rightarrow> entry list option" where
  "reload A upval LNil = Some LNil"
| "reload A upval (LBoolean b) = Some (LBoolean b)"
| "reload A upval (LInteger n) = Some (LInteger n)"
| "reload A upval (LNumber n) = Some (LNumber n)"
| "reload A upval (LString str) = Some (LString str)"
| "reload A upval (LTable es m) =
     (case reload_entries A upval es of
        None \<Rightarrow> None
      | Some es \<Rightarrow> map_option (\<lambda>es. LTable es (reload_meta A m)) (build_table A [] es))"
| "reload A upval (LFunction what proto ups) =
     make_function A (concat (api_dump A proto))
       (if upvalue_flag upval ups = 1
        then Some (env_index 1 (- 1) ups, reload A upval (LTable (upvalue_entries 1 ups) NoMeta))
        else None)"
| "reload A upval (LUserdata m ptr) =
     (let m' = api_metatable A (meta_name m) in
      if userdata_type m = 7 \<and> m' = NoMeta then None else Some (LUserdata m' ptr))"
| "reload A upval (LLightUserdata p) = None"
| "reload A upval (LThread t) = None"
| "reload_entries A upval [] = Some []"
| "reload_entries A upval ((k, v) # es) =
     (case (reload A upval k, reload A upval v, reload_entries A upval es) of
        (Some k', Some v', Some es') \<Rightarrow> if k = LNil then None else Some ((k', v') # es')
      | _ \<Rightarrow> None)"
  by pat_completeness auto
termination
  by (relation "measure (case_sum (\<lambda>(A, upval, v). weight v) (\<lambda>(A, upval, es). Suc (weight_entries es)))")
    (auto intro: le_imp_less_Suc weight_upvalue_entries le_SucI)

text \<open>The slots of the Lua stack a load needs.\<close>

function slots :: "cint \<Rightarrow> lua_value \<Rightarrow> nat"
  and slots_entries :: "cint \<Rightarrow> entry list \<Rightarrow> nat" where
  "slots upval (LTable es m) = 3 + slots_entries upval es"
| "slots upval (LFunction what proto ups) =
     (if upvalue_flag upval ups = 1 then 1 + slots upval (LTable (upvalue_entries 1 ups) NoMeta) else 1)"
| "slots upval LNil = 1"
| "slots upval (LBoolean b) = 1"
| "slots upval (LInteger n) = 1"
| "slots upval (LNumber n) = 1"
| "slots upval (LString str) = 1"
| "slots upval (LUserdata m ptr) = 1"
| "slots upval (LLightUserdata p) = 1"
| "slots upval (LThread t) = 1"
| "slots_entries upval [] = 0"
| "slots_entries upval ((k, v) # es) = max (max (slots upval k) (slots upval v)) (slots_entries upval es)"
  by pat_completeness auto
termination
  by (relation "measure (case_sum (\<lambda>(upval, v). weight v) (\<lambda>(upval, es). Suc (weight_entries es)))")
    (auto intro: le_imp_less_Suc weight_upvalue_entries le_SucI)

definition stack_ok :: "lua_api \<Rightarrow> nat \<Rightarrow> nat \<Rightarrow> bool" where
  "stack_ok A d n \<longleftrightarrow> list_all (api_checkstack A) [d..<d + n]"



text \<open>The blocks of a dumped function as the reader gets them.\<close>

function chunks :: "byte list \<Rightarrow> byte list list" where
  "chunks bs = (if bs = [] then [] else take CHUNK_SIZE bs # chunks (drop CHUNK_SIZE bs))"
  by pat_completeness auto
termination
  by (relation "measure length") (auto simp: CHUNK_SIZE_def)

declare chunks.simps [simp del]

definition chunk_ok :: "byte list \<Rightarrow> bool" where
  "chunk_ok c \<longleftrightarrow> c \<noteq> [] \<and> length c \<le> CHUNK_SIZE"

lemma chunks_spec:
  "concat (chunks bs) = bs \<and> concat (map str_bytes (chunks bs)) = block_bytes bs \<and> list_all chunk_ok (chunks bs)"
proof (induction bs rule: chunks.induct)
  case (1 bs)
  then show ?case
    by (cases "bs = []")
      (simp_all add: chunks.simps [of bs] chunks.simps [of "[]"] block_bytes.simps [of bs]
        block_bytes.simps [of "[]"] chunk_ok_def CHUNK_SIZE_def)
qed

lemma chunks_concat:
  "concat (concat (map chunks bss)) = concat bss"
  "concat (map str_bytes (concat (map chunks bss))) = concat (map block_bytes bss)"
  "list_all chunk_ok (concat (map chunks bss))"
  by (induction bss) (simp_all add: chunks_spec)

lemma length_concat_chunks: "list_all chunk_ok cs \<Longrightarrow> length cs \<le> length (concat (map str_bytes cs))"
  by (induction cs) (auto simp: str_bytes_def chunk_ok_def)

lemma c_string_meta_name [simp]: "c_string (meta_name m) = meta_name m"
  by (cases m) (simp_all add: c_string_def)

lemma stack_ok_mono: "stack_ok A d n \<Longrightarrow> d \<le> d' \<Longrightarrow> d' + n' \<le> d + n \<Longrightarrow> stack_ok A d' n'"
  by (auto simp: stack_ok_def list_all_iff)

lemma stack_ok_now: "stack_ok A d n \<Longrightarrow> 0 < n \<Longrightarrow> api_checkstack A d"
  by (auto simp: stack_ok_def list_all_iff)

lemma slots_pos [simp]: "0 < slots upval v"
  by (cases v) simp_all

text \<open>The switch on the type byte, and a load whose first byte is \<open>x\<close>.\<close>

definition load_switch :: "lua_api \<Rightarrow> nat \<Rightarrow> nat \<Rightarrow> bool \<Rightarrow> byte \<Rightarrow> ringbuffer \<Rightarrow> load_result" where
  "load_switch A fuel d is_key type rb =
     (if type = 0 then (if is_key then Ret LoadEnd rb else Ret (LoadVal LNil) rb)
      else if type = 1 then RB_READ 1 1 (\<lambda>b. Ret (LoadVal (LBoolean (hd b \<noteq> 0)))) rb
      else if type = 3 then RB_READ 8 8 (\<lambda>n. Ret (LoadVal (LNumber (le_word n)))) rb
      else if type = EXTRA_LUA_TINTEGER then RB_READ 8 8 (\<lambda>n. Ret (LoadVal (LInteger (le_word n)))) rb
      else if type = 4 then load_string rb
      else if type = 5 then
        (case load_entries A fuel d [] rb of
           Ret es rb \<Rightarrow> load_typename A es rb | Raise e rb \<Rightarrow> Raise e rb | Abort f \<Rightarrow> Abort f)
      else if type = 6 then
        load_function A (\<lambda>rb. rb_load_rcsv A fuel (d + 1) False rb) (lua_load A fuel [] rb)
      else if type = 7 \<or> type = - 7 then load_userdata A type rb
      else Ret (LoadErr (- EINVAL)) rb)"

lemma load_switch_simps [simp]:
  "load_switch A fuel d True 0 rb = Ret LoadEnd rb"
  "load_switch A fuel d False 0 rb = Ret (LoadVal LNil) rb"
  "load_switch A fuel d is_key 1 rb = RB_READ 1 1 (\<lambda>b. Ret (LoadVal (LBoolean (hd b \<noteq> 0)))) rb"
  "load_switch A fuel d is_key 3 rb = RB_READ 8 8 (\<lambda>n. Ret (LoadVal (LNumber (le_word n)))) rb"
  "load_switch A fuel d is_key EXTRA_LUA_TINTEGER rb = RB_READ 8 8 (\<lambda>n. Ret (LoadVal (LInteger (le_word n)))) rb"
  "load_switch A fuel d is_key 4 rb = load_string rb"
  "load_switch A fuel d is_key 5 rb = (case load_entries A fuel d [] rb of
     Ret es rb \<Rightarrow> load_typename A es rb | Raise e rb \<Rightarrow> Raise e rb | Abort f \<Rightarrow> Abort f)"
  "load_switch A fuel d is_key 6 rb =
     load_function A (\<lambda>rb. rb_load_rcsv A fuel (d + 1) False rb) (lua_load A fuel [] rb)"
  "load_switch A fuel d is_key (userdata_type m) rb = load_userdata A (userdata_type m) rb"
  by (cases m; simp add: load_switch_def EXTRA_LUA_TINTEGER_def)+



lemma encode_pos: "reload A upval v = Some v' \<Longrightarrow> 0 < length (encode A upval v)"
  by (cases v) auto

text \<open>
  What a load needs of the buffer it reads from: the positions are in bounds, and reading keeps them so. It is all that
  is left of a buffer into which a message was received, and it follows from the invariant of a buffer that
  was written to.
\<close>

locale ring_reader =
  fixes good :: "ringbuffer \<Rightarrow> bool"
  assumes good_bounds: "good rb \<Longrightarrow> rb_bounds rb"
    and good_read: "good rb \<Longrightarrow> ringbuffer_read rb cap n = Ok (i, out, rb') \<Longrightarrow> good rb'"

sublocale ring_reader \<subseteq> src: byte_source good content "\<lambda>rb. unat (cb rb)" ringbuffer_read
proof unfold_locales
  fix rb :: ringbuffer and n :: size_t and cap :: nat
  assume good: "good rb"
  note inv = good_bounds [OF good]
  show "length (content rb) \<le> unat (cb rb)" and "unat (cb rb) < max_object"
    using inv by (auto simp: rb_bounds_def length_content)
  assume "min (unat n) (length (content rb)) \<le> cap"
  then have cap: "min (unat n) (unat (rcb rb)) \<le> cap" by (simp add: length_content)
  obtain i rb' where rd: "ringbuffer_read rb cap n = Ok (i, take (unat n) (content rb), rb')"
    and rb': "unat i = min (unat n) (unat (rcb rb))" "content rb' = drop (unat n) (content rb)" "cb rb' = cb rb"
    by (rule ringbuffer_read_spec [OF inv cap])
  from rd rb' good_read [OF good rd]
  show "\<exists>i q'. ringbuffer_read rb cap n = Ok (i, take (unat n) (content rb), q') \<and>
      unat i = min (unat n) (length (content rb)) \<and> good q' \<and>
      content q' = drop (unat n) (content rb) \<and> unat (cb q') = unat (cb rb)"
    by (simp add: length_content)
qed

context ring_reader
begin

text \<open>Reading bytes that are at the front of the buffer.\<close>

lemma RB_READ_front:
  assumes "good rb" and "content rb = xs @ ys" and "length xs = unat n" and "unat n \<le> cap"
    and "\<And>rb'. good rb' \<Longrightarrow> content rb' = ys \<Longrightarrow> unat (cb rb') = unat (cb rb) \<Longrightarrow> P (k xs rb')"
  shows "P (RB_READ cap n k rb)"
proof -
  obtain rb' where "ringbuffer_read rb cap n = Ok (n, xs, rb')" "good rb'" "content rb' = ys"
      "unat (cb rb') = unat (cb rb)"
    using src.get_front [OF assms(1-4)] by blast
  with assms(5) show ?thesis by (simp add: RB_READ_def)
qed

lemma front_length:
  assumes "good rb" and "content rb = xs @ str @ ys"
  shows "unat (of_nat (length str) :: size_t) = length str"
    and "unat (of_nat (length str) + 1 :: size_t) = length str + 1"
proof -
  have "length (content rb) < max_object"
    using src.bytes_le [OF assms(1)] src.capacity_small [OF assms(1)] by linarith
  then have "length str + 1 < 2 ^ 64" by (simp add: assms(2) max_object_def)
  then show "unat (of_nat (length str) :: size_t) = length str"
    and "unat (of_nat (length str) + 1 :: size_t) = length str + 1"
    using unat_of_nat_size [of "length str"] unat_of_nat_size [of "length str + 1"]
    by (simp_all add: add.commute)
qed

text \<open>A length-prefixed string at the front of the buffer.\<close>

lemma RB_READ_str:
  assumes "good rb" and "content rb = str_bytes str @ ys"
    and cap: "\<And>n. unat n = length str \<Longrightarrow> unat (n + 1) = length str + 1 \<Longrightarrow> length str \<le> cap n"
    and go: "\<And>n rb'. unat n = length str \<Longrightarrow> good rb' \<Longrightarrow> content rb' = ys \<Longrightarrow>
      unat (cb rb') = unat (cb rb) \<Longrightarrow> P (k n str rb')"
  shows "P (RB_READ 8 8 (\<lambda>lb. let str_len = le_word lb in RB_READ (cap str_len) str_len (k str_len)) rb)"
proof (rule RB_READ_front [OF assms(1)])
  show "content rb = le_bytes 8 (of_nat (length str) :: size_t) @ str @ ys"
    using assms(2) by (simp add: str_bytes_def)
  note len = front_length [OF assms(1) this]
  fix rb' assume rb': "good rb'" "content rb' = str @ ys" "unat (cb rb') = unat (cb rb)"
  have "P (RB_READ (cap (of_nat (length str))) (of_nat (length str)) (k (of_nat (length str))) rb')"
    by (rule RB_READ_front [OF rb'(1,2)]) (use len rb'(3) in \<open>auto intro: cap go\<close>)
  then show "P ((let str_len = le_word (le_bytes 8 (of_nat (length str) :: size_t)) in
      RB_READ (cap str_len) str_len (k str_len)) rb')"
    by (simp add: Let_def)
qed simp_all

lemma rb_lua_reader_block:
  assumes "good rb" and "content rb = str_bytes c @ rest" and "chunk_ok c"
  obtains rb' where "rb_lua_reader rb = Ok (Block c, rb')" and "good rb'" and "content rb' = rest"
    and "unat (cb rb') = unat (cb rb)"
proof -
  have c: "content rb = le_bytes 8 (of_nat (length c) :: size_t) @ c @ rest"
    using assms(2) by (simp add: str_bytes_def)
  note len = front_length(1) [OF assms(1) c]
  obtain rb1 where rb1: "ringbuffer_read rb 8 8 = Ok (8, le_bytes 8 (of_nat (length c) :: size_t), rb1)"
      "good rb1" "content rb1 = c @ rest" "unat (cb rb1) = unat (cb rb)"
    by (rule src.get_front [OF assms(1) c, of 8 8]) simp_all
  obtain rb2 where rb2: "ringbuffer_read rb1 CHUNK_SIZE (of_nat (length c)) = Ok (of_nat (length c), c, rb2)"
      "good rb2" "content rb2 = rest" "unat (cb rb2) = unat (cb rb1)"
    by (rule src.get_front [OF rb1(2,3), of "of_nat (length c)" CHUNK_SIZE])
      (use len assms(3) in \<open>simp_all add: chunk_ok_def\<close>)
  have "(of_nat (length c) :: size_t) \<noteq> 0"
    using len assms(3) by (auto simp: chunk_ok_def)
  then have "rb_lua_reader rb = Ok (Block c, rb2)"
    using rb1(1) rb2(1) by (simp add: rb_lua_reader_def Let_def)
  then show thesis by (rule that) (use rb1 rb2 in simp_all)
qed

lemma rb_lua_reader_last:
  assumes "good rb" and "content rb = le_bytes 8 (0 :: size_t) @ rest"
  obtains rb' where "rb_lua_reader rb = Ok (NullLast, rb')" and "good rb'" and "content rb' = rest"
    and "unat (cb rb') = unat (cb rb)"
proof -
  obtain rb1 where rb1: "ringbuffer_read rb 8 8 = Ok (8, le_bytes 8 (0 :: size_t), rb1)"
      "good rb1" "content rb1 = rest" "unat (cb rb1) = unat (cb rb)"
    by (rule src.get_front [OF assms, of 8 8]) simp_all
  then have "rb_lua_reader rb = Ok (NullLast, rb1)" by (simp add: rb_lua_reader_def Let_def)
  then show thesis by (rule that) (use rb1 in simp_all)
qed

lemma lua_load_chunks:
  assumes "good rb" and "content rb = concat (map str_bytes cs) @ le_bytes 8 (0 :: size_t) @ rest"
    and "list_all chunk_ok cs" and "length cs < fuel"
    and "\<And>n. length acc < n \<Longrightarrow> n < length (acc @ concat cs) \<Longrightarrow> \<not> api_load_stops A (take n (acc @ concat cs))"
  shows "\<exists>rb' b. lua_load A fuel acc rb = Ret (b, acc @ concat cs) rb' \<and> good rb' \<and>
    unat (cb rb') = unat (cb rb) \<and> content rb' = (if b then rest else le_bytes 8 (0 :: size_t) @ rest)"
  using assms
proof (induction cs arbitrary: fuel acc rb)
  case Nil
  then obtain f where f: "fuel = Suc f" by (cases fuel) auto
  show ?case
    by (rule rb_lua_reader_last [OF Nil.prems(1), of rest])
      (use Nil.prems(2) in \<open>auto simp: f intro!: exI [of _ True]\<close>)
next
  case (Cons c cs)
  from Cons.prems(4) obtain f where f: "fuel = Suc f" "length cs < f" by (cases fuel) auto
  obtain rb1 where rd: "rb_lua_reader rb = Ok (Block c, rb1)" "good rb1"
      "content rb1 = concat (map str_bytes cs) @ le_bytes 8 (0 :: size_t) @ rest" "unat (cb rb1) = unat (cb rb)"
    by (rule rb_lua_reader_block [OF Cons.prems(1), of c "concat (map str_bytes cs) @ le_bytes 8 (0 :: size_t) @ rest"])
      (use Cons.prems(2,3) in simp_all)
  have c: "0 < length c" "list_all chunk_ok cs"
    using Cons.prems(3) chunk_ok_def [of c] by auto
  show ?case
  proof (cases "api_load_stops A (acc @ c)")
    case True
    have "concat cs = []"
      using Cons.prems(5) [of "length (acc @ c)"] True c(1) by (cases "concat cs = []") auto
    with c(2) have "cs = []" by (cases cs) (auto simp: chunk_ok_def)
    with True rd show ?thesis by (auto simp: f(1) intro!: exI [of _ False])
  next
    case False
    have "\<not> api_load_stops A (take n ((acc @ c) @ concat cs))"
      if "length (acc @ c) < n" "n < length ((acc @ c) @ concat cs)" for n
      using Cons.prems(5) [of n] that c(1) by (simp del: length_concat take_append)
    from Cons.IH [OF rd(2,3) c(2) f(2) this] show ?thesis
      using False rd(1,4) by (auto simp: f(1))
  qed
qed

lemma lua_load_dump:
  assumes "good rb" and "content rb = concat (map block_bytes bss) @ le_bytes 8 (0 :: size_t) @ rest"
    and "length (concat (map block_bytes bss)) < fuel" and "loads_whole A (concat bss)"
  shows "\<exists>rb' b. lua_load A fuel [] rb = Ret (b, concat bss) rb' \<and> good rb' \<and>
    unat (cb rb') = unat (cb rb) \<and> content rb' = (if b then rest else le_bytes 8 (0 :: size_t) @ rest)"
proof -
  let ?cs = "concat (map chunks bss)"
  have "length ?cs < fuel"
    using length_concat_chunks [OF chunks_concat(3), of bss] assms(3) unfolding chunks_concat by linarith
  moreover have "content rb = concat (map str_bytes ?cs) @ le_bytes 8 (0 :: size_t) @ rest"
    using assms(2) by (simp only: chunks_concat)
  ultimately have "\<exists>rb' b. lua_load A fuel [] rb = Ret (b, [] @ concat ?cs) rb' \<and> good rb' \<and>
      unat (cb rb') = unat (cb rb) \<and> content rb' = (if b then rest else le_bytes 8 (0 :: size_t) @ rest)"
  proof (intro lua_load_chunks)
    fix n assume "length ([] :: byte list) < n" and "n < length ([] @ concat ?cs)"
    then show "\<not> api_load_stops A (take n ([] @ concat ?cs))"
      using assms(4) by (simp only: chunks_concat append_Nil loads_whole_def list_all_iff) simp
  qed (use assms(1) chunks_concat(3) in auto)
  then show ?thesis by (simp only: chunks_concat append_Nil)
qed

text \<open>
  The load of an encoded value: \<open>loaded rb rest v r\<close> says that \<open>r\<close> pushes \<open>v\<close> and leaves \<open>rest\<close> in the
  buffer.
\<close>

definition loaded :: "ringbuffer \<Rightarrow> byte list \<Rightarrow> lua_value \<Rightarrow> load_result \<Rightarrow> bool" where
  "loaded rb rest v r \<longleftrightarrow> (\<exists>rb'. r = Ret (LoadVal v) rb' \<and> good rb' \<and> content rb' = rest \<and>
     unat (cb rb') = unat (cb rb))"

lemma loadedI:
  "good rb' \<Longrightarrow> content rb' = rest \<Longrightarrow> unat (cb rb') = unat (cb rb) \<Longrightarrow> v = v' \<Longrightarrow> loaded rb rest v (Ret (LoadVal v') rb')"
  by (simp add: loaded_def)

lemma loaded_cong: "unat (cb rb1) = unat (cb rb) \<Longrightarrow> loaded rb1 rest v r \<Longrightarrow> loaded rb rest v r"
  by (simp add: loaded_def)

lemma load_string_front:
  assumes "good rb" and "content rb = str_bytes str @ rest"
  shows "loaded rb rest (LString str) (load_string rb)"
  unfolding load_string_def
  by (rule RB_READ_str [OF assms, where cap = unat and k = "\<lambda>_ str. Ret (LoadVal (LString str))"])
    (auto intro: loadedI)

lemma load_typename_front:
  assumes "good rb" and "content rb = str_bytes (meta_name m) @ rest"
  shows "loaded rb rest (LTable es (reload_meta A m)) (load_typename A es rb)"
  unfolding load_typename_def
  by (rule RB_READ_str [OF assms, where cap = "\<lambda>n. unat (n + 1)" and k = "\<lambda>n str. Ret (LoadVal
      (LTable es (if n > 0 then api_metatable A (c_string str) else NoMeta)))"])
    (auto simp: reload_meta_def word_gt_0 unat_eq_zero intro!: loadedI)

lemma load_userdata_front:
  assumes "good rb" and "content rb = str_bytes (meta_name m) @ le_bytes 8 ptr @ rest"
    and "\<not> (type = 7 \<and> api_metatable A (meta_name m) = NoMeta)"
  shows "loaded rb rest (LUserdata (api_metatable A (meta_name m)) ptr) (load_userdata A type rb)"
  unfolding load_userdata_def
proof (rule RB_READ_str [OF assms(1,2), where cap = "\<lambda>n. unat (n + 1)"])
  fix n :: size_t and rb'
  assume rb': "good rb'" "content rb' = le_bytes 8 ptr @ rest" "unat (cb rb') = unat (cb rb)"
  show "loaded rb rest (LUserdata (api_metatable A (meta_name m)) ptr)
     (RB_READ 8 8 (\<lambda>pb rb. let m = api_metatable A (c_string (meta_name m)) in
        if type = 7 \<and> m = NoMeta then Raise (LuaErrStr ''cannot find metatable'') rb
        else Ret (LoadVal (LUserdata m (le_word pb))) rb) rb')"
    by (rule RB_READ_front [OF rb'(1,2)]) (use assms(3) rb'(3) in \<open>auto simp: Let_def intro!: loadedI\<close>)
qed auto

text \<open>The upvalues of a function: absent, or a table that \<open>rcsv\<close> loads.\<close>

lemma load_upvalues_front:
  fixes flag :: cint
  assumes "good rb"
    and c: "content rb = le_bytes 4 flag @ (if flag = 1 then le_bytes 4 e @ tb else []) @ rest"
    and v: "(if flag = 1 then (case tab of LTable es m \<Rightarrow>
         map_option (LFunction what proto) (restore_upvalues A e ups es) | _ \<Rightarrow> None)
       else Some (LFunction what proto ups)) = Some v"
    and table: "\<And>rb'. flag = 1 \<Longrightarrow> good rb' \<Longrightarrow> content rb' = tb @ rest \<Longrightarrow> loaded rb' rest tab (rcsv rb')"
  shows "loaded rb rest v (load_upvalues A rcsv what proto ups rb)"
  unfolding load_upvalues_def
proof (rule RB_READ_front [OF assms(1,2)])
  fix rb1 assume rb1: "good rb1" "unat (cb rb1) = unat (cb rb)"
    and c1: "content rb1 = (if flag = 1 then le_bytes 4 e @ tb else []) @ rest"
  let ?k = "\<lambda>eb rb. case rcsv rb of
      Ret (LoadVal (LTable es m)) rb \<Rightarrow> (case restore_upvalues A (le_word eb) ups es of
         None \<Rightarrow> Abort StackCorrupt | Some ups \<Rightarrow> Ret (LoadVal (LFunction what proto ups)) rb)
    | Ret r rb \<Rightarrow> Abort StackCorrupt | Raise e rb \<Rightarrow> Raise e rb | Abort f \<Rightarrow> Abort f"
  have "loaded rb rest v (RB_READ 4 4 ?k rb1)" if f: "flag = 1"
  proof (rule RB_READ_front [OF rb1(1)])
    show "content rb1 = le_bytes 4 e @ tb @ rest" using c1 f by simp
    fix rb2 assume rb2: "good rb2" "content rb2 = tb @ rest" "unat (cb rb2) = unat (cb rb1)"
    show "loaded rb rest v (?k (le_bytes 4 e) rb2)"
      using table [OF f rb2(1,2)] v f rb1(2) rb2(3)
      by (auto simp: loaded_def split: lua_value.splits option.splits)
  qed simp_all
  then show "loaded rb rest v (if le_word (le_bytes 4 flag) = (1 :: cint) then RB_READ 4 4 ?k rb1
      else Ret (LoadVal (LFunction what proto ups)) rb1)"
    using v rb1 c1 by (auto simp: loaded_def)
qed simp_all

lemma load_function_front:
  fixes flag :: cint
  assumes "good rb"
    and c: "content rb = concat (map block_bytes bss) @ le_bytes 8 (0 :: size_t) @ le_bytes 4 flag @
      (if flag = 1 then le_bytes 4 e @ tb else []) @ rest"
    and fuel: "length (concat (map block_bytes bss)) < fuel"
    and v: "make_function A (concat bss) (if flag = 1 then Some (e, tab) else None) = Some v"
    and table: "\<And>rb' t. flag = 1 \<Longrightarrow> tab = Some t \<Longrightarrow> good rb' \<Longrightarrow> content rb' = tb @ rest \<Longrightarrow> loaded rb' rest t (rcsv rb')"
  shows "loaded rb rest v (load_function A rcsv (lua_load A fuel [] rb))"
proof -
  let ?tail = "le_bytes 4 flag @ (if flag = 1 then le_bytes 4 e @ tb else []) @ rest"
  from v obtain what proto ups where undump: "api_undump A (concat bss) = Some (what, proto, ups)"
    and whole: "loads_whole A (concat bss)"
    by (auto simp: make_function_def split: if_splits option.splits)
  obtain rb1 b where ld: "lua_load A fuel [] rb = Ret (b, concat bss) rb1" "good rb1" "unat (cb rb1) = unat (cb rb)"
      "content rb1 = (if b then ?tail else le_bytes 8 (0 :: size_t) @ ?tail)"
    using lua_load_dump [OF assms(1) c fuel whole] by blast
  have v': "(if flag = 1 then (case the tab of LTable es m \<Rightarrow>
         map_option (LFunction what proto) (restore_upvalues A e ups es) | _ \<Rightarrow> None)
       else Some (LFunction what proto ups)) = Some v"
    and tab: "flag = 1 \<Longrightarrow> tab \<noteq> None"
    using v by (auto simp: make_function_def undump split: if_splits option.splits lua_value.splits)
  have ups: "loaded rb rest v (load_upvalues A rcsv what proto ups rb2)"
    if "good rb2" "content rb2 = ?tail" "unat (cb rb2) = unat (cb rb)" for rb2
    by (rule loaded_cong [OF that(3)], rule load_upvalues_front [OF that(1,2) v' table]) (use tab in auto)
  show ?thesis
  proof (cases b)
    case True
    with ld ups show ?thesis by (simp add: load_function_def undump)
  next
    case False
    have "loaded rb rest v (RB_READ 8 8 (\<lambda>lb. load_upvalues A rcsv what proto ups) rb1)"
      by (rule RB_READ_front [OF ld(2), where xs = "le_bytes 8 (0 :: size_t)" and ys = ?tail])
        (use ld False in \<open>auto intro: ups\<close>)
    with False ld(1) show ?thesis by (simp add: load_function_def undump)
  qed
qed

lemma load_tag:
  assumes "good rb" and "content rb = x # bs" and "api_checkstack A d"
    and "\<And>rb1. good rb1 \<Longrightarrow> content rb1 = bs \<Longrightarrow> unat (cb rb1) = unat (cb rb) \<Longrightarrow>
      P (load_switch A fuel d is_key x rb1)"
  shows "P (rb_load_rcsv A (Suc fuel) d is_key rb)"
proof -
  have "rb_load_rcsv A (Suc fuel) d is_key rb = RB_READ 1 1 (\<lambda>tb. load_switch A fuel d is_key (hd tb)) rb"
    using assms(3) by (simp add: rb_load_rcsv.simps load_switch_def [abs_def] Let_def)
  moreover have "P (RB_READ 1 1 (\<lambda>tb. load_switch A fuel d is_key (hd tb)) rb)"
    by (rule RB_READ_front [OF assms(1), where xs = "[x]" and ys = bs]) (use assms(2,4) in auto)
  ultimately show ?thesis by simp
qed

lemma load_number_front:
  fixes n :: "64 word"
  assumes "good rb" and "content rb = le_bytes 8 n @ rest"
  shows "loaded rb rest (f n) (RB_READ 8 8 (\<lambda>n. Ret (LoadVal (f (le_word n)))) rb)"
  by (rule RB_READ_front [OF assms]) (auto intro: loadedI)

lemma load_byte_front:
  assumes "good rb" and "content rb = b # rest"
  shows "loaded rb rest (f b) (RB_READ 1 1 (\<lambda>n. Ret (LoadVal (f (hd n)))) rb)"
  by (rule RB_READ_front [OF assms(1), where xs = "[b]"]) (use assms(2) in \<open>auto intro: loadedI\<close>)

definition loaded_entries :: "ringbuffer \<Rightarrow> byte list \<Rightarrow> entry list \<Rightarrow> (ringbuffer, entry list) lres \<Rightarrow> bool" where
  "loaded_entries rb rest es r \<longleftrightarrow> (\<exists>rb'. r = Ret es rb' \<and> good rb' \<and> content rb' = rest \<and>
     unat (cb rb') = unat (cb rb))"

lemma load_table_front:
  assumes "loaded_entries rb (str_bytes (meta_name m) @ rest) es r"
  shows "loaded rb rest (LTable es (reload_meta A m)) (case r of
      Ret es rb \<Rightarrow> load_typename A es rb | Raise e rb \<Rightarrow> Raise e rb | Abort f \<Rightarrow> Abort f)"
proof -
  obtain rb1 where rb1: "r = Ret es rb1" "good rb1" "content rb1 = str_bytes (meta_name m) @ rest"
      "unat (cb rb1) = unat (cb rb)"
    using assms by (auto simp: loaded_entries_def)
  show ?thesis
    using loaded_cong [OF rb1(4) load_typename_front [OF rb1(2,3)]] rb1(1) by simp
qed

lemma load_entries_end:
  assumes "good rb" and "content rb = 0 # rest" and "api_checkstack A (d + 1)" and "1 < fuel"
  shows "loaded_entries rb rest acc (load_entries A fuel d acc rb)"
proof -
  have f: "fuel = Suc (Suc (fuel - 2))" using assms(4) by simp
  have "\<exists>rb'. rb_load_rcsv A (Suc (fuel - 2)) (d + 1) True rb = Ret LoadEnd rb' \<and> good rb' \<and> content rb' = rest \<and>
      unat (cb rb') = unat (cb rb)"
    by (rule load_tag [OF assms(1-3)]) auto
  then show ?thesis by (subst f) (auto simp: load_entries.simps loaded_entries_def)
qed

lemma load_entries_step:
  assumes k: "loaded rb (bv @ rest) k (rb_load_rcsv A f (d + 1) True rb)"
    and v: "\<And>rb1. good rb1 \<Longrightarrow> content rb1 = bv @ rest \<Longrightarrow>
      loaded rb1 rest v (rb_load_rcsv A f (d + 2) False rb1)"
    and set: "api_settable A acc k v = Some acc'"
    and es: "\<And>rb1. good rb1 \<Longrightarrow> content rb1 = rest \<Longrightarrow>
      loaded_entries rb1 rest' es (load_entries A f d acc' rb1)"
  shows "loaded_entries rb rest' es (load_entries A (Suc f) d acc rb)"
proof -
  obtain rb1 where rb1: "rb_load_rcsv A f (d + 1) True rb = Ret (LoadVal k) rb1" "good rb1"
      "content rb1 = bv @ rest" "unat (cb rb1) = unat (cb rb)"
    using k by (auto simp: loaded_def)
  obtain rb2 where rb2: "rb_load_rcsv A f (d + 2) False rb1 = Ret (LoadVal v) rb2" "good rb2"
      "content rb2 = rest" "unat (cb rb2) = unat (cb rb1)"
    using v [OF rb1(2,3)] by (auto simp: loaded_def)
  show ?thesis
    using es [OF rb2(2,3)] rb1 rb2 set by (auto simp: load_entries.simps loaded_entries_def)
qed

text \<open>A value with no parts.\<close>

lemma load_leaf_front:
  assumes v: "reload A upval v = Some v'" "\<not> is_function v" "\<And>es m. v \<noteq> LTable es m"
    and rb: "good rb" "content rb = encode A upval v @ rest"
    and d: "api_checkstack A d" and key: "\<not> (is_key \<and> v = LNil)" and fuel: "0 < fuel"
  shows "loaded rb rest v' (rb_load_rcsv A fuel d is_key rb)"
proof -
  from fuel obtain f where f: "fuel = Suc f" by (cases fuel) auto
  obtain x bs where x: "encode A upval v = x # bs"
    using encode_pos [OF v(1)] by (cases "encode A upval v") auto
  show ?thesis
    unfolding f
  proof (rule load_tag [OF rb(1) _ d, of x "bs @ rest"])
    show "content rb = x # bs @ rest" using rb(2) x by simp
    fix rb1 assume rb1: "good rb1" "content rb1 = bs @ rest" "unat (cb rb1) = unat (cb rb)"
    have "loaded rb1 rest v' (load_switch A f d is_key x rb1)"
    proof (cases v)
      case (LUserdata m ptr)
      then have "\<not> (userdata_type m = 7 \<and> api_metatable A (meta_name m) = NoMeta)"
        and "v' = LUserdata (api_metatable A (meta_name m)) ptr"
        using v(1) by (auto simp: Let_def split: if_splits)
      then show ?thesis using x LUserdata load_userdata_front [OF rb1(1), of m ptr rest] rb1(2) by auto
    next
      case (LBoolean b)
      then show ?thesis
        using x v load_byte_front [OF rb1(1), of "if b then 1 else 0" rest "\<lambda>b. LBoolean (b \<noteq> 0)"] rb1(2)
        by (auto split: if_splits)
    qed (use x v key rb1 load_number_front [OF rb1(1), of _ rest] load_string_front [OF rb1(1)]
        in \<open>auto intro!: loadedI\<close>)
    with rb1(3) show "loaded rb rest v' (load_switch A f d is_key x rb1)" by (rule loaded_cong)
  qed
qed

text \<open>The main fact: loading the encoding of a value gives the value the reading state makes of it.\<close>

theorem rb_load_rcsv_front:
  "reload A upval v = Some v' \<Longrightarrow> good rb \<Longrightarrow> content rb = encode A upval v @ rest \<Longrightarrow>
     stack_ok A d (slots upval v) \<Longrightarrow> \<not> (is_key \<and> v = LNil) \<Longrightarrow> 2 * length (encode A upval v) < fuel \<Longrightarrow>
     loaded rb rest v' (rb_load_rcsv A fuel d is_key rb)"
  "reload_entries A upval es = Some es' \<Longrightarrow> build_table A acc es' = Some es'' \<Longrightarrow> good rb \<Longrightarrow>
     content rb = encode_entries A upval es @ 0 # rest \<Longrightarrow> stack_ok A (d + 1) (2 + slots_entries upval es) \<Longrightarrow>
     2 * length (encode_entries A upval es) + 1 < fuel \<Longrightarrow>
     loaded_entries rb rest es'' (load_entries A fuel d acc rb)"
proof (induction A upval v and A upval es arbitrary: v' rb rest d is_key fuel and es' es'' acc rb rest d fuel
    rule: encode_encode_entries.induct)
  case (6 A upval es m)
  then obtain f where f: "fuel = Suc f" by (cases fuel) auto
  from "6.prems"(1) obtain es' es'' where es: "reload_entries A upval es = Some es'"
      "build_table A [] es' = Some es''" "v' = LTable es'' (reload_meta A m)"
    by (auto split: option.splits)
  show ?case unfolding f
  proof (rule load_tag [OF "6.prems"(2)])
    fix rb1 assume rb1: "good rb1" "unat (cb rb1) = unat (cb rb)"
      "content rb1 = encode_entries A upval es @ 0 # str_bytes (meta_name m) @ rest"
    have "loaded_entries rb1 (str_bytes (meta_name m) @ rest) es'' (load_entries A f d [] rb1)"
      by (rule "6.IH" [OF es(1,2) rb1(1,3)])
        (use "6.prems"(4,6) f in \<open>auto elim!: stack_ok_mono simp: str_bytes_def\<close>)
    from loaded_cong [OF rb1(2) load_table_front [OF this]]
    show "loaded rb rest v' (load_switch A f d is_key 5 rb1)" using es(3) by simp
  qed (use 6 in \<open>auto dest: stack_ok_now\<close>)
next
  case (7 A upval what proto ups)
  then obtain f where f: "fuel = Suc f" by (cases fuel) auto
  let ?flag = "upvalue_flag upval ups" and ?tab = "LTable (upvalue_entries 1 ups) NoMeta"
  show ?case unfolding f
  proof (rule load_tag [OF "7.prems"(2)])
    fix rb1 assume rb1: "good rb1" "unat (cb rb1) = unat (cb rb)"
      "content rb1 = concat (map block_bytes (api_dump A proto)) @ le_bytes 8 (0 :: size_t) @ le_bytes 4 ?flag @
         (if ?flag = 1 then le_bytes 4 (env_index 1 (- 1) ups) @ encode A upval ?tab else []) @ rest"
    have "loaded rb1 rest v' (load_function A (rb_load_rcsv A f (d + 1) False) (lua_load A f [] rb1))"
    proof (rule load_function_front [OF rb1(1,3), where tab = "reload A upval ?tab"])
      show "make_function A (concat (api_dump A proto))
         (if ?flag = 1 then Some (env_index 1 (- 1) ups, reload A upval ?tab) else None) = Some v'"
        using "7.prems"(1) by (simp only: reload.simps)
      fix rb2 t assume "?flag = 1" "reload A upval ?tab = Some t" "good rb2" "content rb2 = encode A upval ?tab @ rest"
      then show "loaded rb2 rest t (rb_load_rcsv A f (d + 1) False rb2)"
        by (intro "7.IH") (use "7.prems"(4,6) f in \<open>auto elim!: stack_ok_mono\<close>)
    qed (use "7.prems"(6) f in simp)
    from loaded_cong [OF rb1(2) this]
    show "loaded rb rest v' (load_switch A f d is_key 6 rb1)" by simp
  qed (use 7 in \<open>auto dest: stack_ok_now simp del: encode.simps(6)\<close>)
next
  case (11 A upval)
  then show ?case by (auto intro!: load_entries_end dest: stack_ok_now)
next
  case (12 A upval k v es)
  then obtain f where f: "fuel = Suc f" by (cases fuel) auto
  from "12.prems"(1) obtain k' v' es1 where r: "reload A upval k = Some k'" "reload A upval v = Some v'"
      "reload_entries A upval es = Some es1" "es' = (k', v') # es1" "k \<noteq> LNil"
    by (auto split: option.splits if_splits)
  from "12.prems"(2) r(4) obtain acc' where acc': "api_settable A acc k' v' = Some acc'"
      "build_table A acc' es1 = Some es''"
    by (auto split: option.splits)
  have fuel: "2 * length (encode A upval k) < f" "2 * length (encode A upval v) < f"
      "2 * length (encode_entries A upval es) + 1 < f"
    using "12.prems"(6) [unfolded f] encode_pos [OF r(1)] by (simp_all del: length_greater_0_conv)
  show ?case unfolding f
  proof (rule load_entries_step [where bv = "encode A upval v" and rest = "encode_entries A upval es @ 0 # rest", OF _ _ acc'(1)])
    show "loaded rb (encode A upval v @ encode_entries A upval es @ 0 # rest) k' (rb_load_rcsv A f (d + 1) True rb)"
      by (rule "12.IH"(1) [OF r(1) "12.prems"(3)]) (use "12.prems"(4,5) fuel r(5) in \<open>auto elim!: stack_ok_mono\<close>)
    show "loaded rb1 (encode_entries A upval es @ 0 # rest) v' (rb_load_rcsv A f (d + 2) False rb1)"
      if "good rb1" "content rb1 = encode A upval v @ encode_entries A upval es @ 0 # rest" for rb1
      by (rule "12.IH"(2) [OF r(2) that]) (use "12.prems"(5) fuel in \<open>auto elim!: stack_ok_mono\<close>)
    show "loaded_entries rb1 rest es'' (load_entries A f d acc' rb1)"
      if "good rb1" "content rb1 = encode_entries A upval es @ 0 # rest" for rb1
      by (rule "12.IH"(3) [OF r(3) acc'(2) that]) (use "12.prems"(5) fuel in \<open>auto elim!: stack_ok_mono\<close>)
  qed
qed (erule load_leaf_front; auto dest: stack_ok_now simp del: encode.simps)+

lemma length_content_rcb: "good rb \<Longrightarrow> length (content rb) = unat (rcb rb)"
  by (simp add: length_content)

lemma rb_load_front:
  assumes "reload A upval v = Some v'" and "good rb" and "content rb = encode A upval v @ rest"
    and "stack_ok A d (slots upval v)"
  shows "loaded rb rest v' (rb_load A d rb)"
proof -
  have "length (encode A upval v) \<le> unat (rcb rb)"
    using length_content_rcb [OF assms(2)] assms(3) by simp
  then show ?thesis
    unfolding rb_load_def by (intro rb_load_rcsv_front(1) [OF assms]) simp_all
qed

end

interpretation stored: ring_reader rb_inv
  by unfold_locales (auto intro: ringbuffer_read_inv)

interpretation received: ring_reader rb_bounds
  by unfold_locales (auto intro: ringbuffer_read_bounds)

section \<open>Plain data\<close>

text \<open>
  Values made of booleans, numbers, strings and tables without metatable, whose keys are
  scalars that \<open>lua_next\<close> can return (\<open>raw_key\<close>, a predicate of the Lua version: not NaN, and in Lua
  5.3 no float with an integral value).
\<close>

fun scalar :: "lua_value \<Rightarrow> bool" where
  "scalar (LBoolean _) = True"
| "scalar (LNumber _) = True"
| "scalar (LInteger _) = True"
| "scalar (LString _) = True"
| "scalar _ = False"

fun plain :: "(lua_value \<Rightarrow> bool) \<Rightarrow> lua_value \<Rightarrow> bool"
  and plain_entries :: "(lua_value \<Rightarrow> bool) \<Rightarrow> entry list \<Rightarrow> bool" where
  "plain raw_key LNil = True"
| "plain raw_key (LTable es m) = (m = NoMeta \<and> distinct (map fst es) \<and> plain_entries raw_key es)"
| "plain raw_key v = scalar v"
| "plain_entries raw_key [] = True"
| "plain_entries raw_key ((k, v) # es) =
     (scalar k \<and> raw_key k \<and> v \<noteq> LNil \<and> plain raw_key v \<and> plain_entries raw_key es)"

text \<open>Equality of values up to the order in which \<open>lua_next\<close> visits a table.\<close>

inductive lua_eq :: "lua_value \<Rightarrow> lua_value \<Rightarrow> bool" where
  lua_eq_refl: "lua_eq v v"
| lua_eq_table: "list_all2 (rel_prod (=) lua_eq) es es1 \<Longrightarrow> mset es1 = mset es2 \<Longrightarrow>
    lua_eq (LTable es m) (LTable es2 m)"

inductive_cases lua_eq_NilE: "lua_eq v LNil"

text \<open>What \<open>lua_settable\<close> does with a key the table does not have.\<close>

definition settable_inserts :: "lua_api \<Rightarrow> (lua_value \<Rightarrow> bool) \<Rightarrow> bool" where
  "settable_inserts A raw_key \<longleftrightarrow> (\<forall>es k v. raw_key k \<and> v \<noteq> LNil \<and> k \<notin> fst ` set es \<longrightarrow>
     (\<exists>es'. api_settable A es k v = Some es' \<and> mset es' = add_mset (k, v) (mset es)))"

lemma build_table_inserts:
  assumes "settable_inserts A raw_key"
  shows "list_all (\<lambda>(k, v). raw_key k \<and> v \<noteq> LNil) es \<Longrightarrow> distinct (map fst es) \<Longrightarrow>
    fst ` set acc \<inter> fst ` set es = {} \<Longrightarrow>
    \<exists>es'. build_table A acc es = Some es' \<and> mset es' = mset acc + mset es"
proof (induction es arbitrary: acc)
  case (Cons e es)
  obtain k v where e: "e = (k, v)" by (cases e)
  from Cons.prems have "raw_key k" "v \<noteq> LNil" "k \<notin> fst ` set acc" by (auto simp: e)
  then obtain acc' where acc': "api_settable A acc k v = Some acc'" "mset acc' = add_mset (k, v) (mset acc)"
    using assms unfolding settable_inserts_def by blast
  have "set acc' = insert (k, v) (set acc)" using arg_cong [OF acc'(2), of set_mset] by simp
  then have "\<exists>es'. build_table A acc' es = Some es' \<and> mset es' = mset acc' + mset es"
    using Cons.prems by (intro Cons.IH) (auto simp: e)
  with acc' show ?case by (auto simp: e)
qed simp

lemma reload_entries_plain:
  assumes "list_all2 (rel_prod (=) lua_eq) es es'" and "plain_entries raw_key es"
  shows "list_all (\<lambda>(k, v). raw_key k \<and> v \<noteq> LNil) es' \<and> map fst es' = map fst es"
  using assms
proof (induction es es' rule: list_all2_induct)
  case (Cons e es e' es')
  then show ?case by (cases e; cases e') (auto elim: lua_eq_NilE)
qed simp

lemma reload_plain:
  shows "plain raw_key v \<Longrightarrow> settable_inserts A raw_key \<Longrightarrow> \<exists>v'. reload A upval v = Some v' \<and> lua_eq v v'"
    and "plain_entries raw_key es \<Longrightarrow> settable_inserts A raw_key \<Longrightarrow>
      \<exists>es'. reload_entries A upval es = Some es' \<and> list_all2 (rel_prod (=) lua_eq) es es'"
proof (induction raw_key v and raw_key es rule: plain_plain_entries.induct)
  case (2 raw_key es m)
  then obtain es1 where es1: "reload_entries A upval es = Some es1" "list_all2 (rel_prod (=) lua_eq) es es1"
    by auto
  from reload_entries_plain [OF es1(2)] 2 obtain es2 where "build_table A [] es1 = Some es2" "mset es2 = mset es1"
    using build_table_inserts [OF "2.prems"(2), of es1 "[]"] by auto
  with es1 2 show ?case by (auto simp: reload_meta_def intro: lua_eq_table)
next
  case (5 raw_key k v es)
  moreover have "reload A upval k = Some k" "k \<noteq> LNil" if "scalar k"
    using that by (cases k; simp)+
  ultimately show ?case by auto
qed (auto intro: lua_eq_refl)

section \<open>Properties\<close>




text \<open>
  C1: Round trip: a value saved into an empty ring buffer is loaded back as the value the reading
  state makes of it, with its tables rebuilt entry by entry, its functions undumped and
  given their upvalues, its metatables looked up by name, and nothing is left in the buffer.
\<close>

theorem rb_save_load_roundtrip:
  assumes "savable A oop upval v" and "reload A upval v = Some v'"
    and "rb_inv (srb s)" and "content (srb s) = []" and "index \<le> ltop s"
    and "length (encode A upval v) \<le> unat (cb (srb s))" and "stack_ok A d (slots upval v)"
  shows "\<exists>s' rb'. rb_save A oop upval index v s = Ret 0 s' \<and> ltop s' = ltop s \<and>
    rb_load A d (srb s') = Ret (LoadVal v') rb' \<and> rb_inv rb' \<and> content rb' = []"
proof -
  have "fits s (encode A upval v)" using assms(4,6) by (simp add: fits_def)
  then obtain s' where s': "rb_save A oop upval index v s = Ret 0 s'" "ltop s' = ltop s" "rb_inv (srb s')"
      "content (srb s') = encode A upval v @ []"
    using rb_save_spec(1) [OF assms(1,3,5)] assms(4) by (auto simp: save_spec_def appended_def stuck_def)
  from stored.rb_load_front [OF assms(2) s'(3,4) assms(7)] s' show ?thesis by (auto simp: stored.loaded_def)
qed

theorem rb_save_load_roundtrip_witness:
  "\<exists>s' rb'. rb_save small_lua False 0 2 (LTable [(LString [97], LFunction ''Lua'' 3 [])] NoMeta) (small_state 64) = Ret 0 s' \<and>
    ltop s' = ltop (small_state 64) \<and>
    rb_load small_lua 0 (srb s') = Ret (LoadVal (LTable [(LString [97], LFunction ''Lua'' 3 [])] NoMeta)) rb' \<and>
    rb_inv rb' \<and> content rb' = []"
  by (rule rb_save_load_roundtrip)
    (simp_all add: max_object_def upvalue_flag_def reload_meta_def make_function_def loads_whole_def
      small_undump_def small_settable_def stack_ok_def list_all_iff str_bytes_def block_bytes.simps CHUNK_SIZE_def)

text \<open>
  C7: Plain data survive the trip: nil, booleans, numbers, strings and tables of them come back
  as the same value, up to the order in which the tables are traversed. \<^term>\<open>settable_inserts\<close> states
  what \<open>lua_settable\<close> does with a key that is not in the table.
\<close>

theorem rb_save_load_plain:
  assumes "plain raw_key v" and "settable_inserts A raw_key" and "savable A oop upval v"
    and "rb_inv (srb s)" and "content (srb s) = []" and "index \<le> ltop s"
    and "length (encode A upval v) \<le> unat (cb (srb s))" and "stack_ok A d (slots upval v)"
  shows "\<exists>s' v' rb'. rb_save A oop upval index v s = Ret 0 s' \<and>
    rb_load A d (srb s') = Ret (LoadVal v') rb' \<and> lua_eq v v' \<and> content rb' = []"
proof -
  obtain v' where v': "reload A upval v = Some v'" "lua_eq v v'"
    using reload_plain(1) [OF assms(1,2)] by blast
  have "fits s (encode A upval v)" using assms(5,7) by (simp add: fits_def)
  then obtain s' where s': "rb_save A oop upval index v s = Ret 0 s'" "rb_inv (srb s')"
      "content (srb s') = encode A upval v @ []"
    using rb_save_spec(1) [OF assms(3,4,6)] assms(5) by (auto simp: save_spec_def appended_def stuck_def)
  from stored.rb_load_front [OF v'(1) s'(2,3) assms(8)] s' v'(2) show ?thesis by (auto simp: stored.loaded_def)
qed

lemma small_lua_inserts: "settable_inserts small_lua (\<lambda>k. k \<noteq> LNil)"
  by (auto simp: settable_inserts_def small_settable_def)

theorem rb_save_load_plain_witness:
  "\<exists>s' v' rb'. rb_save small_lua True 0 2 (LTable [(LInteger 1, LNumber 5), (LString [], LBoolean True)] NoMeta) (small_state 64) = Ret 0 s' \<and>
    rb_load small_lua 0 (srb s') = Ret (LoadVal v') rb' \<and>
    lua_eq (LTable [(LInteger 1, LNumber 5), (LString [], LBoolean True)] NoMeta) v' \<and> content rb' = []"
  by (rule rb_save_load_plain [OF _ small_lua_inserts]) (simp_all add: max_object_def stack_ok_def list_all_iff str_bytes_def)

text \<open>
  C40: The reader of function chunks trusts the lengths in the data: a block length above
  \<open>CHUNK_SIZE\<close>, with as many bytes behind it, makes it copy past the end of its 8192-byte buffer.
\<close>

theorem rb_lua_reader_overflow:
  assumes "rb_inv rb" and "content rb = le_bytes 8 (n :: size_t) @ data"
    and "CHUNK_SIZE < unat n" and "CHUNK_SIZE < length data"
  shows "rb_lua_reader rb = Crash OutOfBounds"
proof -
  obtain rb1 where rb1: "ringbuffer_read rb 8 8 = Ok (8, le_bytes 8 n, rb1)" "rb_inv rb1" "content rb1 = data"
    by (rule ring.get_front [OF assms(1,2), of 8 8]) simp_all
  have "CHUNK_SIZE < unat (c_min n (rcb rb1))"
    using assms(3,4) rb1 length_content [of rb1] by (simp add: unat_c_min)
  moreover have "cb rb1 \<noteq> 0" using rb1(2) by (auto simp: rb_inv_def rb_bounds_def)
  ultimately have "ringbuffer_read rb1 CHUNK_SIZE n = Crash OutOfBounds"
    by (simp add: ringbuffer_read_def Let_def)
  moreover have "n \<noteq> 0" using assms(3) by auto
  ultimately show ?thesis using rb1(1) by (simp add: rb_lua_reader_def Let_def)
qed

text \<open>A buffer that announces a block of 8193 bytes and has 8200 bytes behind the length.\<close>

definition oversized_block :: ringbuffer where
  "oversized_block =
     \<lparr>buf = \<lparr>msize = 9000, mdata = (\<lambda>k. if k = 0 then 1 else if k = 1 then 32 else 0)\<rparr>,
      cb = 9000, rp = 0, wp = 8208, rcb = 8208, saved_wp = 0, saved_rcb = 0\<rparr>"

lemma oversized_block_content:
  "content oversized_block = le_bytes 8 (8193 :: size_t) @ map (\<lambda>_. 0) [8..<8208]"
proof -
  have "[0..<unat (rcb oversized_block)] = [0..<8208]" by (simp add: oversized_block_def del: upt_rec_numeral)
  moreover have "[0..<8208] = [0..<8] @ [8..<8208]" by (rule upt_split) simp_all
  moreover have "map (\<lambda>k. mdata (buf oversized_block) (k mod 9000)) [8..<8208] = map (\<lambda>_. 0) [8..<8208]"
    by (rule map_cong [OF refl], simp only: set_upt) (auto simp: oversized_block_def)
  moreover have "map (\<lambda>k. mdata (buf oversized_block) (k mod 9000)) [0..<8] = le_bytes 8 (8193 :: size_t)"
    by code_simp
  moreover have "unat (rp oversized_block) = 0" "unat (cb oversized_block) = 9000" by (simp_all add: oversized_block_def)
  ultimately show ?thesis by (simp add: content_def del: upt_rec_numeral)
qed

theorem rb_lua_reader_overflow_witness: "rb_lua_reader oversized_block = Crash OutOfBounds"
  by (rule rb_lua_reader_overflow [OF _ oversized_block_content])
    (simp_all add: rb_inv_def rb_bounds_def oversized_block_def max_object_def CHUNK_SIZE_def del: upt_rec_numeral)

end
