(* ===== verification/Pthread.thy ===== *)
theory Pthread
  imports LuaValue
begin

text \<open>
  What the library uses of POSIX threads and of the reference counters of TH: recursive
  mutexes, the outcome of a handler that may have to wait, and counted references. The
  counters are functions of the TH library, which is not part of the program; they are a
  record, and \<open>th_ok\<close> is what their documentation promises.
\<close>

section \<open>Recursive mutexes\<close>

type_synonym tid = nat

record pmutex =
  owner :: "tid option"
  depth :: nat

definition pthread_mutex_init :: pmutex where
  "pthread_mutex_init = \<lparr>owner = None, depth = 0\<rparr>"

text \<open>\<open>None\<close>: the mutex is held by another thread and the caller blocks.\<close>

definition pthread_mutex_lock :: "tid \<Rightarrow> pmutex \<Rightarrow> pmutex option" where
  "pthread_mutex_lock t m =
     (case owner m of
        None \<Rightarrow> Some \<lparr>owner = Some t, depth = 1\<rparr>
      | Some o' \<Rightarrow> if o' = t then Some (m\<lparr>depth := depth m + 1\<rparr>) else None)"

definition pthread_mutex_unlock :: "tid \<Rightarrow> pmutex \<Rightarrow> pmutex" where
  "pthread_mutex_unlock t m =
     (if owner m = Some t
      then if depth m \<le> 1 then \<lparr>owner = None, depth = 0\<rparr> else m\<lparr>depth := depth m - 1\<rparr>
      else m)"

definition mutex_wf :: "pmutex \<Rightarrow> bool" where
  "mutex_wf m \<longleftrightarrow> (owner m = None \<longleftrightarrow> depth m = 0)"

lemma mutex_wf_init [simp]: "mutex_wf pthread_mutex_init"
  by (simp add: mutex_wf_def pthread_mutex_init_def)

lemma mutex_wf_lock: "mutex_wf m \<Longrightarrow> pthread_mutex_lock t m = Some m' \<Longrightarrow> mutex_wf m' \<and> owner m' = Some t"
  by (auto simp: mutex_wf_def pthread_mutex_lock_def split: option.splits if_splits)

lemma mutex_wf_unlock: "mutex_wf m \<Longrightarrow> mutex_wf (pthread_mutex_unlock t m)"
  by (auto simp: mutex_wf_def pthread_mutex_unlock_def)

lemma unlock_lock:
  "mutex_wf m \<Longrightarrow> pthread_mutex_lock t m = Some m' \<Longrightarrow> pthread_mutex_unlock t m' = m"
  by (cases m) (auto simp: mutex_wf_def pthread_mutex_lock_def pthread_mutex_unlock_def split: option.splits if_splits)

lemma lock_free: "owner m = None \<Longrightarrow> \<exists>m'. pthread_mutex_lock t m = Some m'"
  by (simp add: pthread_mutex_lock_def)

text \<open>
  The calls a handler makes on a condition variable are recorded in order; whom they wake is
  up to the scheduler.
\<close>

datatype cond_call = Signal | Broadcast

text \<open>
  What the calls made on a condition variable, in their order, do to the threads that wait on it and those
  that are on their way again: a signal wakes one that waits, if there is one, a broadcast all of them.
\<close>

inductive cond_wake :: "cond_call list \<Rightarrow> tid set \<Rightarrow> tid set \<Rightarrow> tid set \<Rightarrow> tid set \<Rightarrow> bool" where
  cond_none: "cond_wake [] wt wk wt wk"
| cond_signal: "t \<in> wt \<Longrightarrow> cond_wake cs (wt - {t}) (insert t wk) wt' wk' \<Longrightarrow> cond_wake (Signal # cs) wt wk wt' wk'"
| cond_nobody: "cond_wake cs {} wk wt' wk' \<Longrightarrow> cond_wake (Signal # cs) {} wk wt' wk'"
| cond_broadcast: "cond_wake cs {} (wk \<union> wt) wt' wk' \<Longrightarrow> cond_wake (Broadcast # cs) wt wk wt' wk'"

inductive_simps cond_wake_simps:
  "cond_wake [] wt wk wt' wk'"
  "cond_wake (Broadcast # cs) wt wk wt' wk'"
  "cond_wake (Signal # cs) wt wk wt' wk'"

text \<open>Whatever the calls are, they are answered: some threads may be woken by them.\<close>

lemma cond_wake_total: "\<exists>wt' wk'. cond_wake cs wt wk wt' wk'"
proof (induction cs arbitrary: wt wk)
  case (Cons c cs)
  show ?case
  proof (cases "c = Broadcast \<or> wt = {}")
    case True
    obtain wt' wk' where "cond_wake cs {} (if c = Broadcast then wk \<union> wt else wk) wt' wk'" using Cons by blast
    with True show ?thesis by (cases c) (auto simp: cond_wake_simps)
  next
    case False
    then obtain t where t: "t \<in> wt" "c = Signal" by (cases c) auto
    obtain wt' wk' where "cond_wake cs (wt - {t}) (insert t wk) wt' wk'" using Cons by blast
    with t show ?thesis by (blast intro: cond_signal)
  qed
qed (blast intro: cond_none)

section \<open>Handlers that wait\<close>

text \<open>
  A handler is done, blocks because the mutex is held by another thread, or waits on a condition
  with its mutex released and the state as given.
\<close>

datatype ('s, 'a) outcome = Done "('s, 'a) lres" | LockWait | CondWait 's

text \<open>What a handler pushes on the Lua stack.\<close>

datatype pushed = PInt int | PBool bool | PVal lua_value | PStr string | PNum "64 word" | PUserdata pointer

section \<open>Counted references\<close>

text \<open>
  \<open>th_inc\<close> and \<open>th_dec\<close> are \<open>THAtomicIncrementRef\<close> and \<open>THAtomicDecrementRef\<close>: the new counter, and
  whether the object has no reference left.
\<close>

record th_api =
  th_inc :: "cint \<Rightarrow> cint"
  th_dec :: "cint \<Rightarrow> cint \<times> bool"

definition th_ok :: "th_api \<Rightarrow> bool" where
  "th_ok T \<longleftrightarrow> (\<forall>n. th_inc T n = n + 1 \<and> th_dec T n = (n - 1, n = 1))"

definition th_model :: th_api where
  "th_model = \<lparr>th_inc = (\<lambda>n. n + 1), th_dec = (\<lambda>n. (n - 1, n = 1))\<rparr>"

lemma th_model_ok [simp]: "th_ok th_model"
  by (simp add: th_ok_def th_model_def)

lemma th_ok_model: "th_ok T \<Longrightarrow> T = th_model"
  by (cases T) (auto simp: th_ok_def th_model_def)

lemma refcount_arith:
  fixes n :: cint
  shows "unat n + 1 < 2 ^ 31 \<Longrightarrow> unat (n + 1) = unat n + 1"
    and "1 \<le> unat n \<Longrightarrow> unat (n - 1) = unat n - 1"
    and "unat n = 1 \<longleftrightarrow> n = 1"
  by (simp_all add: unat_word_ariths word_unat_eq_iff) (metis One_nat_def unat_1 unat_minus_one unat_0 not_one_le_zero)

text \<open>
  An object with a counter, as its users see it: \<open>refs\<close> is the number of references, \<open>None\<close> stands for
  a freed object. The users of an object of this kind never free it while references remain.
\<close>

locale counted =
  fixes refs :: "'o \<Rightarrow> nat" and fresh :: 'o
    and retain :: "'o \<Rightarrow> 'o" and release :: "'o \<Rightarrow> 'o option"
  assumes refs_fresh: "refs fresh = 1"
    and refs_retain: "0 < refs x \<Longrightarrow> refs x + 1 < 2 ^ 31 \<Longrightarrow> refs (retain x) = refs x + 1"
    and release_last: "refs x = 1 \<Longrightarrow> release x = None"
    and release_more: "1 < refs x \<Longrightarrow> refs x < 2 ^ 31 \<Longrightarrow> \<exists>x'. release x = Some x' \<and> refs x' = refs x - 1"
begin

text \<open>A history of retains (\<open>True\<close>) and releases.\<close>

fun history :: "bool list \<Rightarrow> 'o \<Rightarrow> 'o option" where
  "history [] x = Some x"
| "history (True # bs) x = history bs (retain x)"
| "history (False # bs) x = (case release x of None \<Rightarrow> None | Some x \<Rightarrow> history bs x)"

definition balance :: "bool list \<Rightarrow> int" where
  "balance bs = sum_list (map (\<lambda>b. if b then 1 else - 1) bs)"

lemma balance_simps [simp]:
  "balance [] = 0" "balance (True # bs) = balance bs + 1" "balance (False # bs) = balance bs - 1"
  by (simp_all add: balance_def)

lemma history_alive:
  assumes "0 < refs x" and "\<forall>n \<le> length bs. 0 < int (refs x) + balance (take n bs)"
    and "refs x + length bs < 2 ^ 31"
  shows "\<exists>x'. history bs x = Some x' \<and> int (refs x') = int (refs x) + balance bs"
  using assms
proof (induction bs arbitrary: x rule: list.induct)
  case (Cons b bs)
  have step: "0 < int (refs x) + (if b then 1 else - 1) + balance (take n bs)" if "n \<le> length bs" for n
    using Cons.prems(2) [rule_format, of "Suc n"] that by (cases b) simp_all
  show ?case
  proof (cases b)
    case True
    have r: "refs (retain x) = refs x + 1" using Cons.prems by (intro refs_retain) simp_all
    have "\<exists>x'. history bs (retain x) = Some x' \<and> int (refs x') = int (refs (retain x)) + balance bs"
      by (rule Cons.IH) (use step Cons.prems(3) r True in \<open>auto simp: add.commute add.left_commute\<close>)
    with True r show ?thesis by (auto simp: add.commute)
  next
    case False
    have "1 < refs x" using step [of 0] False by simp
    then obtain x1 where x1: "release x = Some x1" "refs x1 = refs x - 1"
      using release_more [of x] Cons.prems(3) by auto
    have "\<exists>x'. history bs x1 = Some x' \<and> int (refs x') = int (refs x1) + balance bs"
      by (rule Cons.IH) (use step Cons.prems(3) x1 False \<open>1 < refs x\<close> in \<open>auto simp: of_nat_diff\<close>)
    with False x1 \<open>1 < refs x\<close> show ?thesis by (auto simp: of_nat_diff)
  qed
qed simp

lemma history_released:
  "refs x = Suc n \<Longrightarrow> refs x < 2 ^ 31 \<Longrightarrow> history (replicate (Suc n) False) x = None"
proof (induction n arbitrary: x)
  case 0
  then show ?case by (simp add: release_last)
next
  case (Suc n)
  then obtain x' where "release x = Some x'" "refs x' = Suc n" using release_more [of x] by auto
  with Suc.IH [of x'] Suc.prems show ?case by simp
qed

lemma history_freed:
  assumes "refs x = 1"
  shows "history (False # bs) x = None"
  using release_last [OF assms] by simp

end

end
