(* ===== verification/Growth.thy ===== *)
theory Growth
  imports Deserialize Pthread
begin

text \<open>
  Queues of values: the loop that saves a value and grows the ring buffer until it fits, which
  channels, workqueues, marshals, shared tables, map and spawn all have, and the loop over
  several values of a channel or workqueue write. The contract of such a queue is the
  locale \<open>item_queue\<close>.
\<close>

section \<open>Model\<close>

text \<open>
  \<open>rb_save_with_growth\<close>: \<open>None\<close> is the loop that never ends. The result may be a negative errno
  with the bytes of a refused value still in the buffer; undoing them is left to the caller.
\<close>

partial_function (option) rb_save_with_growth ::
    "lua_api \<Rightarrow> (nat \<Rightarrow> byte) \<Rightarrow> size_t \<Rightarrow> cint \<Rightarrow> nat \<Rightarrow> lua_value \<Rightarrow> save_state \<Rightarrow> save_result option" where
  "rb_save_with_growth A junk sz upval index v s =
     (case rb_save A False upval index v (s\<lparr>srb := ringbuffer_push_write_pos (srb s)\<rparr>) of
        Ret ret s1 \<Rightarrow>
          if ret = - ENOMEM then
            (case ringbuffer_grow_by junk (ringbuffer_pop_write_pos (srb s1)) sz of
               Crash e \<Rightarrow> Some (Abort e)
             | Ok rb \<Rightarrow> rb_save_with_growth A junk sz upval index v (s1\<lparr>srb := rb\<rparr>))
          else Some (Ret ret s1)
      | Raise e s1 \<Rightarrow> Some (Raise e s1)
      | Abort f \<Rightarrow> Some (Abort f))"

declare rb_save_with_growth.simps [code]

text \<open>
  The loop \<open>while (index <= top)\<close> over the arguments of a write. The counter of items is 32 bits
  wide; a refused value is undone and its error returned, with the values before it kept.
\<close>

fun write_items ::
    "lua_api \<Rightarrow> (nat \<Rightarrow> byte) \<Rightarrow> size_t \<Rightarrow> cint \<Rightarrow> nat \<Rightarrow> lua_value list \<Rightarrow> save_state \<Rightarrow> uint32 \<Rightarrow>
      (save_state \<times> uint32, int) lres option" where
  "write_items A junk sz upval index [] s num_items = Some (Ret 0 (s, num_items))"
| "write_items A junk sz upval index (v # vs) s num_items =
     (case rb_save_with_growth A junk sz upval index v s of
        None \<Rightarrow> None
      | Some (Ret ret s1) \<Rightarrow>
          if ret \<noteq> 0 then Some (Ret ret (s1\<lparr>srb := ringbuffer_pop_write_pos (srb s1)\<rparr>, num_items))
          else write_items A junk sz upval (index + 1) vs s1 (num_items + 1)
      | Some (Raise e s1) \<Rightarrow> Some (Raise e (s1, num_items))
      | Some (Abort f) \<Rightarrow> Some (Abort f))"

section \<open>Growing until the value fits\<close>

lemma push_stuck:
  assumes "rb_inv (srb s)"
  shows "rb_mark (content (srb s)) (srb (s\<lparr>srb := ringbuffer_push_write_pos (srb s)\<rparr>))"
  using rb_mark_push [OF assms] by simp

text \<open>One attempt: the value is saved, or the buffer goes back to its old contents and grows.\<close>

lemma save_attempt:
  assumes v: "savable A False upval v" and inv: "rb_inv (srb s)" and idx: "index \<le> ltop s"
    and n: "n = length (content (srb s)) + length (encode A upval v)"
  shows "if n \<le> unat (cb (srb s))
    then \<exists>s'. rb_save A False upval index v (s\<lparr>srb := ringbuffer_push_write_pos (srb s)\<rparr>) = Ret 0 s' \<and> rb_inv (srb s') \<and>
      content (srb s') = content (srb s) @ encode A upval v \<and> cb (srb s') = cb (srb s) \<and> ltop s' = ltop s
    else \<exists>s1. rb_save A False upval index v (s\<lparr>srb := ringbuffer_push_write_pos (srb s)\<rparr>) = Ret (- ENOMEM) s1 \<and> ltop s \<le> ltop s1 \<and>
      (0 < unat sz \<longrightarrow> n + unat sz < max_object \<longrightarrow>
        (\<exists>rb. ringbuffer_grow_by junk (ringbuffer_pop_write_pos (srb s1)) sz = Ok rb \<and> rb_inv rb \<and>
          content rb = content (srb s) \<and> unat (cb rb) = unat (cb (srb s)) + unat sz))"
proof -
  let ?s = "s\<lparr>srb := ringbuffer_push_write_pos (srb s)\<rparr>"
  have spec: "save_spec ?s (encode A upval v) (pointers upval v) (ltop s) (fail_tops index (ltop s) v)
      (rb_save A False upval index v ?s)"
    using rb_save_spec(1) [OF v, of ?s index] inv idx by simp
  show ?thesis
  proof (cases "fits ?s (encode A upval v)")
    case True
    with spec show ?thesis
      by (auto simp: n save_spec_def fits_def appended_def stuck_def word_unat_eq_iff)
  next
    case False
    with spec obtain s' where s': "rb_save A False upval index v ?s = Ret (- ENOMEM) s'" "stuck ?s s'"
        "ltop s' \<in> fail_tops index (ltop s) v"
      by (auto simp: save_spec_def)
    have "rb_mark (content (srb s)) (srb s')" using s'(2) push_stuck [OF inv] by (simp add: stuck_def)
    note old = rb_mark_pop [OF this]
    have cb: "unat (cb (srb s')) = unat (cb (srb s))" using s'(2) by (simp add: stuck_def)
    have "\<exists>rb. ringbuffer_grow_by junk (ringbuffer_pop_write_pos (srb s')) sz = Ok rb \<and> rb_inv rb \<and>
        content rb = content (srb s) \<and> unat (cb rb) = unat (cb (srb s)) + unat sz"
      if "0 < unat sz" "n + unat sz < max_object"
      by (rule ringbuffer_grow_by_spec [OF rb_inv_bounds [OF old(1)], of sz junk])
        (use that old cb False in \<open>auto simp: n fits_def\<close>)
    moreover have "ltop s \<le> ltop s'" using s'(3) by (auto simp: fail_tops_def split: if_splits)
    ultimately show ?thesis using False s'(1) by (auto simp: n fits_def)
  qed
qed

text \<open>
  A loop of such attempts ends, since each adds \<open>sz\<close> bytes of room. The loops of the components differ in what they do with
  the Lua stack between two attempts; their contract is that an attempt that fits is the result and one that does not is
  followed by another with more room.
\<close>

locale growth_loop =
  fixes A :: lua_api and upval :: cint and sz :: size_t and save :: "nat \<Rightarrow> lua_value \<Rightarrow> save_state \<Rightarrow> save_result option"
  assumes save_fits: "savable A False upval v \<Longrightarrow> rb_inv (srb s) \<Longrightarrow> index \<le> ltop s \<Longrightarrow>
      length (content (srb s)) + length (encode A upval v) \<le> unat (cb (srb s)) \<Longrightarrow>
      \<exists>s'. save index v s = Some (Ret 0 s') \<and> rb_inv (srb s') \<and> content (srb s') = content (srb s) @ encode A upval v \<and>
        cb (srb s') = cb (srb s) \<and> ltop s \<le> ltop s'"
    and save_grows: "savable A False upval v \<Longrightarrow> rb_inv (srb s) \<Longrightarrow> index \<le> ltop s \<Longrightarrow> 0 < unat sz \<Longrightarrow>
      unat (cb (srb s)) < length (content (srb s)) + length (encode A upval v) \<Longrightarrow>
      length (content (srb s)) + length (encode A upval v) + unat sz < max_object \<Longrightarrow>
      \<exists>s1. save index v s = save index v s1 \<and> rb_inv (srb s1) \<and> content (srb s1) = content (srb s) \<and>
        unat (cb (srb s1)) = unat (cb (srb s)) + unat sz \<and> ltop s \<le> ltop s1"
begin

lemma save_loop:
  assumes v: "savable A False upval v" and inc: "0 < unat sz"
  shows "rb_inv (srb s) \<Longrightarrow> index \<le> ltop s \<Longrightarrow>
    length (content (srb s)) + length (encode A upval v) + unat sz < max_object \<Longrightarrow>
    \<exists>s'. save index v s = Some (Ret 0 s') \<and> rb_inv (srb s') \<and>
      content (srb s') = content (srb s) @ encode A upval v \<and> ltop s \<le> ltop s' \<and>
      unat (cb (srb s')) \<le> max (unat (cb (srb s))) (length (content (srb s)) + length (encode A upval v) + unat sz)"
proof (induction "length (content (srb s)) + length (encode A upval v) - unat (cb (srb s))" arbitrary: s
    rule: less_induct)
  case less
  let ?n = "length (content (srb s)) + length (encode A upval v)"
  show ?case
  proof (cases "?n \<le> unat (cb (srb s))")
    case True
    from save_fits [OF v less.prems(1,2) True] show ?thesis by auto
  next
    case False
    then obtain s1 where eq: "save index v s = save index v s1"
      and s1: "rb_inv (srb s1)" "content (srb s1) = content (srb s)"
        "unat (cb (srb s1)) = unat (cb (srb s)) + unat sz" "ltop s \<le> ltop s1"
      using save_grows [OF v less.prems(1,2) inc _ less.prems(3)] by auto
    have "\<exists>s'. save index v s1 = Some (Ret 0 s') \<and> rb_inv (srb s') \<and>
        content (srb s') = content (srb s1) @ encode A upval v \<and> ltop s1 \<le> ltop s' \<and>
        unat (cb (srb s')) \<le> max (unat (cb (srb s1))) (length (content (srb s1)) + length (encode A upval v) + unat sz)"
      by (rule less.hyps) (use s1 less.prems inc False in auto)
    with eq s1 False show ?thesis by auto
  qed
qed

end

interpretation grow: growth_loop A upval sz "rb_save_with_growth A junk sz upval" for A junk upval sz
proof unfold_locales
  fix v and s :: save_state and index
  assume a: "savable A False upval v" "rb_inv (srb s)" "index \<le> ltop s"
  note attempt = save_attempt [OF a refl, where sz = sz and junk = junk]
  let ?n = "length (content (srb s)) + length (encode A upval v)"
  show "\<exists>s'. rb_save_with_growth A junk sz upval index v s = Some (Ret 0 s') \<and> rb_inv (srb s') \<and>
      content (srb s') = content (srb s) @ encode A upval v \<and> cb (srb s') = cb (srb s) \<and> ltop s \<le> ltop s'"
    if "?n \<le> unat (cb (srb s))"
    using attempt that by (subst rb_save_with_growth.simps) (auto simp: ENOMEM_def)
  show "\<exists>s1. rb_save_with_growth A junk sz upval index v s = rb_save_with_growth A junk sz upval index v s1 \<and>
      rb_inv (srb s1) \<and> content (srb s1) = content (srb s) \<and> unat (cb (srb s1)) = unat (cb (srb s)) + unat sz \<and> ltop s \<le> ltop s1"
    if room: "0 < unat sz" "unat (cb (srb s)) < ?n" "?n + unat sz < max_object"
  proof -
    obtain s1 rb where s1: "rb_save A False upval index v (s\<lparr>srb := ringbuffer_push_write_pos (srb s)\<rparr>) = Ret (- ENOMEM) s1" "ltop s \<le> ltop s1"
        and rb: "ringbuffer_grow_by junk (ringbuffer_pop_write_pos (srb s1)) sz = Ok rb" "rb_inv rb"
          "content rb = content (srb s)" "unat (cb rb) = unat (cb (srb s)) + unat sz"
      using attempt room by auto
    have "rb_save_with_growth A junk sz upval index v s = rb_save_with_growth A junk sz upval index v (s1\<lparr>srb := rb\<rparr>)"
      using s1(1) rb(1) by (simp add: rb_save_with_growth.simps [of A junk sz upval index v s])
    with s1(2) rb show ?thesis by (auto intro!: exI [of _ "s1\<lparr>srb := rb\<rparr>"])
  qed
qed

lemmas rb_save_with_growth_spec = grow.save_loop

text \<open>With an increment of zero the loop never ends once a value does not fit.\<close>

lemma rb_save_with_growth_diverges:
  assumes "rb_save_with_growth A junk sz upval index v s = Some r"
  shows "sz = 0 \<Longrightarrow> savable A False upval v \<Longrightarrow> rb_inv (srb s) \<Longrightarrow> index \<le> ltop s \<Longrightarrow>
    length (content (srb s)) < unat (cb (srb s)) \<Longrightarrow>
    length (content (srb s)) + length (encode A upval v) \<le> unat (cb (srb s))"
proof (induction A junk sz upval index v s r rule: rb_save_with_growth.raw_induct)
  case (1 f A junk sz upval index v s r)
  let ?s = "s\<lparr>srb := ringbuffer_push_write_pos (srb s)\<rparr>"
  have spec: "save_spec ?s (encode A upval v) (pointers upval v) (ltop s) (fail_tops index (ltop s) v)
      (rb_save A False upval index v ?s)"
    using rb_save_spec(1) [OF "1.prems"(2), of ?s index] "1.prems" by simp
  show ?case
  proof (rule ccontr)
    assume "\<not> ?case"
    then have "\<not> fits ?s (encode A upval v)" by (simp add: fits_def)
    with spec obtain s' where s': "rb_save A False upval index v ?s = Ret (- ENOMEM) s'" "stuck ?s s'"
        "ltop s' \<in> fail_tops index (ltop s) v"
      by (auto simp: save_spec_def)
    have "rb_mark (content (srb s)) (srb s')" using s'(2) push_stuck [OF "1.prems"(3)] by (simp add: stuck_def)
    note old = rb_mark_pop [OF this]
    have cb: "unat (cb (srb s')) = unat (cb (srb s))" using s'(2) by (simp add: stuck_def)
    have small: "unat (cb (srb s)) < max_object" using "1.prems"(3) by (simp add: rb_inv_def rb_bounds_def)
    obtain rb where rb: "ringbuffer_grow_by junk (ringbuffer_pop_write_pos (srb s')) sz = Ok rb" "rb_inv rb"
        "content rb = content (srb s)" "unat (cb rb) = unat (cb (srb s)) + unat sz"
      by (rule ringbuffer_grow_by_spec [OF rb_inv_bounds [OF old(1)], of sz junk])
        (use small "1.prems" old cb stored.length_content_rcb [OF old(1)] in auto)
    have top: "index \<le> ltop s'" using s'(3) "1.prems"(4) by (auto simp: fail_tops_def split: if_splits)
    have rec: "f A junk sz upval index v (s'\<lparr>srb := rb\<rparr>) = Some r"
      using "1.hyps" s'(1) rb(1) by simp
    from "1.IH" [OF rec] \<open>\<not> ?case\<close> "1.prems" rb top show False by simp
  qed
qed (rule assms)

section \<open>The contract of a queue of values\<close>

text \<open>
  A queue that holds items, as the channels and workqueues use it: an item that is \<open>fine\<close> is put at the back,
  at a cost in capacity, and what is taken from the front is its \<open>view\<close>.
\<close>

locale item_queue =
  fixes holds :: "'q \<Rightarrow> 'i list \<Rightarrow> bool" and fine :: "'i \<Rightarrow> 'q \<Rightarrow> bool"
    and cap :: "'q \<Rightarrow> nat" and cost :: "'q \<Rightarrow> 'i \<Rightarrow> nat"
    and put :: "'i \<Rightarrow> 'q \<Rightarrow> 'q option" and get :: "'q \<Rightarrow> ('v \<times> 'q) option" and view :: "'i \<Rightarrow> 'v option"
  assumes put_back: "holds q xs \<Longrightarrow> fine x q \<Longrightarrow> cap q + cost q x < max_object \<Longrightarrow>
      \<exists>q'. put x q = Some q' \<and> holds q' (xs @ [x]) \<and> cap q' \<le> cap q + cost q x \<and>
        (\<forall>y. (fine y q \<longrightarrow> fine y q') \<and> cost q' y = cost q y)"
    and get_front: "holds q (x # xs) \<Longrightarrow> view x = Some v \<Longrightarrow>
      \<exists>q'. get q = Some (v, q') \<and> holds q' xs \<and> cap q' = cap q"
begin

fun put_all :: "'i list \<Rightarrow> 'q \<Rightarrow> 'q option" where
  "put_all [] q = Some q"
| "put_all (x # xs) q = (case put x q of None \<Rightarrow> None | Some q \<Rightarrow> put_all xs q)"

fun get_all :: "nat \<Rightarrow> 'q \<Rightarrow> ('v list \<times> 'q) option" where
  "get_all 0 q = Some ([], q)"
| "get_all (Suc n) q = (case get q of None \<Rightarrow> None
     | Some (v, q) \<Rightarrow> map_option (\<lambda>(vs, q). (v # vs, q)) (get_all n q))"

lemma put_all_back:
  "holds q ys \<Longrightarrow> list_all (\<lambda>x. fine x q) xs \<Longrightarrow> cap q + sum_list (map (cost q) xs) < max_object \<Longrightarrow>
     \<exists>q'. put_all xs q = Some q' \<and> holds q' (ys @ xs) \<and> cap q' \<le> cap q + sum_list (map (cost q) xs)"
proof (induction xs arbitrary: q ys)
  case (Cons x xs)
  then obtain q1 where q1: "put x q = Some q1" "holds q1 (ys @ [x])" "cap q1 \<le> cap q + cost q x"
      "\<forall>y. (fine y q \<longrightarrow> fine y q1) \<and> cost q1 y = cost q y"
    using put_back [of q ys x] by auto
  have "cost q1 = cost q" using q1(4) by auto
  moreover have "list_all (\<lambda>x. fine x q1) xs" using Cons.prems(2) q1(4) by (simp add: list_all_iff)
  ultimately show ?case using Cons.IH [OF q1(2)] q1 Cons.prems(3) by fastforce
qed auto

lemma get_all_front:
  "holds q (xs @ ys) \<Longrightarrow> map view xs = map Some vs \<Longrightarrow>
     \<exists>q'. get_all (length xs) q = Some (vs, q') \<and> holds q' ys \<and> cap q' = cap q"
proof (induction xs arbitrary: q vs)
  case (Cons x xs)
  then obtain v ws where vs: "vs = v # ws" "view x = Some v" "map view xs = map Some ws" by (cases vs) auto
  obtain q1 where q1: "get q = Some (v, q1)" "holds q1 (xs @ ys)" "cap q1 = cap q"
    using get_front [of q x "xs @ ys" v] Cons.prems(1) vs(2) by auto
  from Cons.IH [OF q1(2) vs(3)] q1 vs(1) show ?case by auto
qed simp

lemma first_in_first_out:
  assumes "holds q ys" and "list_all (\<lambda>x. fine x q) xs" and "cap q + sum_list (map (cost q) xs) < max_object"
    and "map view (ys @ xs) = map Some vs"
  shows "\<exists>q1 q2. put_all xs q = Some q1 \<and> get_all (length (ys @ xs)) q1 = Some (vs, q2) \<and> holds q2 []"
  using put_all_back [OF assms(1-3)] get_all_front [of _ "ys @ xs" "[]" vs] assms(4) by fastforce

end

text \<open>
  The queue in a ring buffer: an item is the stack index of a value, the upvalue flag and the
  value; the queue is the state of the saving thread with the increment.
\<close>

type_synonym item = "nat \<times> cint \<times> lua_value"

definition items_bytes :: "lua_api \<Rightarrow> item list \<Rightarrow> byte list" where
  "items_bytes A xs = concat (map (\<lambda>(index, upval, v). encode A upval v) xs)"

definition rb_holds :: "lua_api \<Rightarrow> ringbuffer \<Rightarrow> item list \<Rightarrow> bool" where
  "rb_holds A rb xs \<longleftrightarrow> rb_inv rb \<and> content rb = items_bytes A xs"

definition item_fine :: "lua_api \<Rightarrow> item \<Rightarrow> save_state \<times> size_t \<Rightarrow> bool" where
  "item_fine A x q = (case (x, q) of ((index, upval, v), s, sz) \<Rightarrow>
     savable A False upval v \<and> index \<le> ltop s \<and> 0 < sz)"

definition item_put :: "lua_api \<Rightarrow> (nat \<Rightarrow> byte) \<Rightarrow> item \<Rightarrow> save_state \<times> size_t \<Rightarrow> (save_state \<times> size_t) option" where
  "item_put A junk x q = (case (x, q) of ((index, upval, v), s, sz) \<Rightarrow>
     (case rb_save_with_growth A junk sz upval index v s of
        Some (Ret ret s) \<Rightarrow> if ret = 0 then Some (s, sz) else None | _ \<Rightarrow> None))"

definition item_get :: "lua_api \<Rightarrow> nat \<Rightarrow> save_state \<times> size_t \<Rightarrow> (lua_value \<times> save_state \<times> size_t) option" where
  "item_get A d q = (case q of (s, sz) \<Rightarrow>
     (case rb_load A d (srb s) of Ret (LoadVal v) rb \<Rightarrow> Some (v, s\<lparr>srb := rb\<rparr>, sz) | _ \<Rightarrow> None))"

definition item_view :: "lua_api \<Rightarrow> nat \<Rightarrow> item \<Rightarrow> lua_value option" where
  "item_view A d x = (case x of (index, upval, v) \<Rightarrow>
     if stack_ok A d (slots upval v) then reload A upval v else None)"

definition item_cost :: "lua_api \<Rightarrow> save_state \<times> size_t \<Rightarrow> item \<Rightarrow> nat" where
  "item_cost A q x = (case x of (index, upval, v) \<Rightarrow> length (encode A upval v) + unat (snd q))"

lemma items_bytes_simps [simp]:
  "items_bytes A [] = []"
  "items_bytes A ((index, upval, v) # xs) = encode A upval v @ items_bytes A xs"
  "items_bytes A (xs @ ys) = items_bytes A xs @ items_bytes A ys"
  by (simp_all add: items_bytes_def)

interpretation rbq: item_queue "\<lambda>q. rb_holds A (srb (fst q))" "item_fine A" "\<lambda>q. unat (cb (srb (fst q)))"
  "item_cost A" "item_put A junk" "item_get A d" "item_view A d" for A junk d
proof unfold_locales
  fix q :: "save_state \<times> size_t" and xs :: "item list" and x :: item and v
  assume h: "rb_holds A (srb (fst q)) xs" and f: "item_fine A x q"
    and small: "unat (cb (srb (fst q))) + item_cost A q x < max_object"
  obtain s sz where q: "q = (s, sz)" by (cases q)
  obtain index upval w where x: "x = (index, upval, w)" by (cases x)
  have inv: "rb_inv (srb s)" using h by (simp add: rb_holds_def q)
  have len: "length (content (srb s)) \<le> unat (cb (srb s))" using ring.bytes_le [OF inv] .
  have sz: "0 < unat sz" using f by (simp add: item_fine_def q x word_less_nat_alt)
  obtain s' where s': "rb_save_with_growth A junk sz upval index w s = Some (Ret 0 s')" "rb_inv (srb s')"
      "content (srb s') = content (srb s) @ encode A upval w" "ltop s \<le> ltop s'"
      "unat (cb (srb s')) \<le> max (unat (cb (srb s))) (length (content (srb s)) + length (encode A upval w) + unat sz)"
    using rb_save_with_growth_spec [OF _ sz inv, of A upval w index junk] f small len
    by (auto simp: item_fine_def item_cost_def q x)
  then show "\<exists>q'. item_put A junk x q = Some q' \<and> rb_holds A (srb (fst q')) (xs @ [x]) \<and>
      unat (cb (srb (fst q'))) \<le> unat (cb (srb (fst q))) + item_cost A q x \<and>
      (\<forall>y. (item_fine A y q \<longrightarrow> item_fine A y q') \<and> item_cost A q' y = item_cost A q y)"
    using h len by (auto simp: item_put_def item_cost_def item_fine_def rb_holds_def q x)
next
  fix q :: "save_state \<times> size_t" and xs :: "item list" and x :: item and v
  assume h: "rb_holds A (srb (fst q)) (x # xs)" and v: "item_view A d x = Some v"
  obtain s sz where q: "q = (s, sz)" by (cases q)
  obtain index upval w where x: "x = (index, upval, w)" by (cases x)
  have "stored.loaded (srb s) (items_bytes A xs) v (rb_load A d (srb s))"
    by (rule stored.rb_load_front [of A upval w])
      (use h v in \<open>auto simp: rb_holds_def q x item_view_def split: if_splits\<close>)
  then show "\<exists>q'. item_get A d q = Some (v, q') \<and> rb_holds A (srb (fst q')) xs \<and>
      unat (cb (srb (fst q'))) = unat (cb (srb (fst q)))"
    by (auto simp: stored.loaded_def item_get_def rb_holds_def q)
qed

text \<open>The arguments of a write as items, and the loop over them.\<close>

fun arg_items :: "nat \<Rightarrow> cint \<Rightarrow> lua_value list \<Rightarrow> item list" where
  "arg_items index upval [] = []"
| "arg_items index upval (v # vs) = (index, upval, v) # arg_items (index + 1) upval vs"

lemma write_items_put_all:
  "rbq.put_all A junk (arg_items index upval vs) (s, sz) = Some (s', sz') \<Longrightarrow>
     write_items A junk sz upval index vs s n = Some (Ret 0 (s', n + of_nat (length vs)))"
proof (induction vs arbitrary: index s n)
  case (Cons v vs)
  then obtain q1 where q1: "item_put A junk (index, upval, v) (s, sz) = Some q1"
      "rbq.put_all A junk (arg_items (index + 1) upval vs) q1 = Some (s', sz')"
    by (auto split: option.splits)
  then obtain s1 where s1: "rb_save_with_growth A junk sz upval index v s = Some (Ret 0 s1)"
      "rbq.put_all A junk (arg_items (index + 1) upval vs) (s1, sz) = Some (s', sz')"
    by (auto simp: item_put_def split: option.splits lres.splits if_splits)
  from Cons.IH [OF s1(2), of "n + 1"] s1(1) show ?case by (simp add: algebra_simps)
qed simp

lemma args_fine:
  "list_all (savable A False upval) vs \<Longrightarrow> 0 < sz \<Longrightarrow> index + length vs \<le> Suc (ltop s) \<Longrightarrow>
     list_all (\<lambda>x. item_fine A x (s, sz)) (arg_items index upval vs)"
  by (induction vs arbitrary: index) (auto simp: item_fine_def)

definition args_cost :: "lua_api \<Rightarrow> size_t \<Rightarrow> cint \<Rightarrow> lua_value list \<Rightarrow> nat" where
  "args_cost A sz upval vs = sum_list (map (\<lambda>v. length (encode A upval v) + unat sz) vs)"

lemma args_cost_items:
  "sum_list (map (item_cost A (s, sz)) (arg_items index upval vs)) = args_cost A sz upval vs"
  by (induction vs arbitrary: index) (auto simp: item_cost_def args_cost_def)

lemma write_items_spec:
  assumes "rb_holds A (srb s) xs" and "list_all (savable A False upval) vs" and "0 < sz"
    and "index + length vs \<le> Suc (ltop s)" and "unat (cb (srb s)) + args_cost A sz upval vs < max_object"
  shows "\<exists>s'. write_items A junk sz upval index vs s n = Some (Ret 0 (s', n + of_nat (length vs))) \<and>
    rb_holds A (srb s') (xs @ arg_items index upval vs) \<and>
    unat (cb (srb s')) \<le> unat (cb (srb s)) + args_cost A sz upval vs"
proof -
  have "\<exists>q'. rbq.put_all A junk (arg_items index upval vs) (s, sz) = Some q' \<and>
      rb_holds A (srb (fst q')) (xs @ arg_items index upval vs) \<and>
      unat (cb (srb (fst q'))) \<le> unat (cb (srb s)) + args_cost A sz upval vs"
    using rbq.put_all_back [of A "(s, sz)" xs "arg_items index upval vs" junk] args_fine [OF assms(2-4)] assms(1,5)
    by (simp add: args_cost_items)
  then show ?thesis using write_items_put_all by fastforce
qed

section \<open>Properties\<close>

text \<open>
  C22: The loop that saves a value into a ring buffer and grows the buffer while the value does not
  fit ends whenever the increment is positive, with the encoding appended to the contents,
  and the buffer grows to less than one increment beyond what is needed.
\<close>

theorem rb_save_with_growth_succeeds:
  assumes "savable A False upval v" and "0 < unat sz" and "rb_inv (srb s)" and "index \<le> ltop s"
    and "length (content (srb s)) + length (encode A upval v) + unat sz < max_object"
  shows "\<exists>s'. rb_save_with_growth A junk sz upval index v s = Some (Ret 0 s') \<and> rb_inv (srb s') \<and>
    content (srb s') = content (srb s) @ encode A upval v \<and>
    unat (cb (srb s')) \<le> max (unat (cb (srb s))) (length (content (srb s)) + length (encode A upval v) + unat sz)"
  using rb_save_with_growth_spec [OF assms] by blast

theorem rb_save_with_growth_succeeds_witness:
  "\<exists>s'. rb_save_with_growth small_lua (\<lambda>_. 0) 1 0 2 (LString [1, 2, 3]) (small_state 2) = Some (Ret 0 s') \<and> rb_inv (srb s') \<and>
    content (srb s') = content (srb (small_state 2)) @ encode small_lua 0 (LString [1, 2, 3]) \<and>
    unat (cb (srb s')) \<le> max (unat (cb (srb (small_state 2))))
      (length (content (srb (small_state 2))) + length (encode small_lua 0 (LString [1, 2, 3])) + unat (1 :: size_t))"
  by (rule rb_save_with_growth_succeeds) (simp_all add: max_object_def str_bytes_def)

text \<open>
  With an increment of zero (a workqueue, marshal, map or shared table opened with increment 0) the loop
  never ends when the value does not fit: growing by nothing is tried again for ever.
\<close>

theorem rb_save_with_growth_hangs:
  assumes "savable A False upval v" and "rb_inv (srb s)" and "index \<le> ltop s"
    and "length (content (srb s)) < unat (cb (srb s))"
    and "unat (cb (srb s)) < length (content (srb s)) + length (encode A upval v)"
  shows "rb_save_with_growth A junk 0 upval index v s = None"
  using rb_save_with_growth_diverges [of A junk 0 upval index v s] assms
  by (cases "rb_save_with_growth A junk 0 upval index v s") auto

theorem rb_save_with_growth_hangs_witness:
  "rb_save_with_growth small_lua (\<lambda>_. 0) 0 0 2 (LBoolean True) (small_state 1) = None"
  by (rule rb_save_with_growth_hangs) (simp_all add: max_object_def)

text \<open>
  A save that runs out of space after it has retained a userdata is tried again from the start, and retains it
  again: one saved reference is counted twice, and the object is never freed.
\<close>

theorem rb_save_with_growth_retains_twice:
  "(case rb_save_with_growth small_lua (\<lambda>_. 0) 16 0 2 (LTable [(LBoolean True, LUserdata (NamedMeta [65]) 16)] NoMeta) (small_state 24) of
      Some (Ret ret s) \<Rightarrow> ret = 0 \<and> retained s = [16, 16] \<and>
        pointers 0 (LTable [(LBoolean True, LUserdata (NamedMeta [65]) 16)] NoMeta) = [16]
    | _ \<Rightarrow> False)"
  by code_simp

end
