(* ===== verification/Channel.thy ===== *)
theory Channel
  imports Growth
begin

text \<open>
  Channels, \<^verbatim>\<open>src/channel.c\<close>: every handler as a function of the userdata's channel, \<open>None\<close> when it was
  freed. The refinement to a list of values with a closed flag is at the end.
\<close>

section \<open>Model\<close>

record channel =
  c_rb :: ringbuffer
  c_mutex :: pmutex
  c_cond :: "cond_call list"
  c_closed :: bool
  c_drained :: bool
  c_num_items :: uint32
  c_refcount :: cint
  c_size_increment :: size_t

type_synonym channel_outcome = "(channel option, pushed list) outcome"

definition STATUS_OPEN :: int where "STATUS_OPEN = 0"
definition STATUS_CLOSED :: int where "STATUS_CLOSED = 1"
definition STATUS_DRAINED :: int where "STATUS_DRAINED = 2"

lemmas status_defs = STATUS_OPEN_def STATUS_CLOSED_def STATUS_DRAINED_def

definition DEFAULT_CHANNEL_SIZE :: size_t where
  "DEFAULT_CHANNEL_SIZE = 16 * 1024"

definition channel_lock :: "tid \<Rightarrow> channel \<Rightarrow> (channel \<Rightarrow> channel_outcome) \<Rightarrow> channel_outcome" where
  "channel_lock t ch k =
     (case pthread_mutex_lock t (c_mutex ch) of None \<Rightarrow> LockWait | Some m \<Rightarrow> k (ch\<lparr>c_mutex := m\<rparr>))"

definition channel_unlock :: "tid \<Rightarrow> channel \<Rightarrow> channel" where
  "channel_unlock t ch = ch\<lparr>c_mutex := pthread_mutex_unlock t (c_mutex ch)\<rparr>"

definition channel_init_queue :: "(nat \<Rightarrow> byte) \<Rightarrow> size_t \<Rightarrow> channel \<Rightarrow> channel" where
  "channel_init_queue junk sz ch =
     ch\<lparr>c_mutex := pthread_mutex_init, c_cond := [], c_rb := ringbuffer_create junk sz\<rparr>"

text \<open>The members not set by \<open>channel_create\<close> are zero after \<open>calloc\<close>.\<close>

definition channel_create :: "(nat \<Rightarrow> byte) \<Rightarrow> channel" where
  "channel_create junk =
     channel_init_queue junk DEFAULT_CHANNEL_SIZE
       \<lparr>c_rb = ringbuffer_create junk 0, c_mutex = pthread_mutex_init, c_cond = [], c_closed = False,
        c_drained = False, c_num_items = 0, c_refcount = 1, c_size_increment = DEFAULT_CHANNEL_SIZE\<rparr>"

definition invalid_channel :: channel_outcome where
  "invalid_channel = Done (Raise (LuaErrStr ''invalid channel'') None)"

definition channel_close :: "tid \<Rightarrow> channel option \<Rightarrow> channel_outcome" where
  "channel_close t ud = (case ud of None \<Rightarrow> invalid_channel
    | Some ch \<Rightarrow> channel_lock t ch (\<lambda>ch.
        let ch = (if \<not> c_closed ch then
             let ch = ch\<lparr>c_closed := True\<rparr>;
                 ch = (if c_num_items ch = 0 then ch\<lparr>c_drained := True\<rparr> else ch)
             in ch\<lparr>c_cond := c_cond ch @ [Broadcast]\<rparr>
           else ch)
        in Done (Ret [] (Some (channel_unlock t ch)))))"

definition channel_closed :: "tid \<Rightarrow> channel option \<Rightarrow> channel_outcome" where
  "channel_closed t ud = (case ud of None \<Rightarrow> invalid_channel
    | Some ch \<Rightarrow> channel_lock t ch (\<lambda>ch. Done (Ret [PBool (c_closed ch)] (Some (channel_unlock t ch)))))"

definition channel_drained :: "tid \<Rightarrow> channel option \<Rightarrow> channel_outcome" where
  "channel_drained t ud = (case ud of None \<Rightarrow> invalid_channel
    | Some ch \<Rightarrow> channel_lock t ch (\<lambda>ch. Done (Ret [PBool (c_drained ch)] (Some (channel_unlock t ch)))))"

text \<open>
  One round of the loop of \<open>channel_read\<close>, with the mutex held; \<open>d\<close> slots of the Lua stack are in use when
  the value is loaded. A Lua error in \<open>rb_load\<close> leaves the handler with the mutex held. A reader
  that waits runs \<open>channel_read\<close> again from the lock when it is woken.
\<close>

definition channel_read_round :: "lua_api \<Rightarrow> nat \<Rightarrow> tid \<Rightarrow> bool \<Rightarrow> channel \<Rightarrow> channel_outcome" where
  "channel_read_round A d t doNotBlock ch =
     (if c_num_items ch \<noteq> 0 then
        let ch = (if c_closed ch \<and> c_num_items ch = 1
              then ch\<lparr>c_drained := True, c_cond := c_cond ch @ [Broadcast]\<rparr> else ch);
            status = (if c_closed ch then STATUS_CLOSED else STATUS_OPEN)
        in case rb_load A d (c_rb ch) of
             Ret ret rb \<Rightarrow>
               let ch = channel_unlock t (ch\<lparr>c_rb := rb, c_num_items := c_num_items ch - 1\<rparr>)
               in (case ret of
                     LoadErr e \<Rightarrow> Done (Raise (lua_handle_error e) (Some ch))
                   | LoadEnd \<Rightarrow> Done (Ret [PInt status] (Some ch))
                   | LoadVal v \<Rightarrow> Done (Ret [PInt status, PVal v] (Some ch)))
           | Raise e rb \<Rightarrow> Done (Raise e (Some (ch\<lparr>c_rb := rb\<rparr>)))
           | Abort f \<Rightarrow> Done (Abort f)
      else if c_drained ch then Done (Ret [PInt STATUS_DRAINED] (Some (channel_unlock t ch)))
      else if doNotBlock then
        Done (Ret [PInt (if c_drained ch then STATUS_DRAINED else if c_closed ch then STATUS_CLOSED else STATUS_OPEN)]
          (Some (channel_unlock t ch)))
      else CondWait (Some (channel_unlock t ch)))"

definition channel_read :: "lua_api \<Rightarrow> nat \<Rightarrow> tid \<Rightarrow> bool \<Rightarrow> channel option \<Rightarrow> channel_outcome" where
  "channel_read A d t doNotBlock ud = (case ud of None \<Rightarrow> invalid_channel
    | Some ch \<Rightarrow> channel_lock t ch (channel_read_round A d t doNotBlock))"

text \<open>
  \<open>channel_write\<close> with the values \<open>vs\<close> at the stack indices from 2. \<open>None\<close>: the loop does not end. A Lua
  error in \<open>rb_save\<close> leaves the handler with the mutex held and what was written of the value in the
  buffer.
\<close>

definition channel_write ::
    "lua_api \<Rightarrow> (nat \<Rightarrow> byte) \<Rightarrow> tid \<Rightarrow> lua_value list \<Rightarrow> channel option \<Rightarrow> channel_outcome option" where
  "channel_write A junk t vs ud = (case ud of None \<Rightarrow> Some invalid_channel
    | Some ch \<Rightarrow>
      (case pthread_mutex_lock t (c_mutex ch) of None \<Rightarrow> Some LockWait | Some m \<Rightarrow>
        let ch = ch\<lparr>c_mutex := m\<rparr> in
        if c_drained ch then Some (Done (Ret [PInt STATUS_DRAINED] (Some (channel_unlock t ch))))
        else if c_closed ch then Some (Done (Ret [PInt STATUS_CLOSED] (Some (channel_unlock t ch))))
        else case write_items A junk (c_size_increment ch) 0 2 vs
                 \<lparr>srb = c_rb ch, ltop = 1 + length vs, retained = []\<rparr> (c_num_items ch) of
            None \<Rightarrow> None
          | Some (Ret ret (s, n)) \<Rightarrow>
              let ch = ch\<lparr>c_rb := srb s, c_num_items := n\<rparr> in
              if ret \<noteq> 0 then Some (Done (Raise (lua_handle_error (- ret)) (Some (channel_unlock t ch))))
              else Some (Done (Ret [PInt STATUS_OPEN]
                (Some (channel_unlock t (ch\<lparr>c_cond := c_cond ch @ [Signal]\<rparr>)))))
          | Some (Raise e (s, n)) \<Rightarrow> Some (Done (Raise e (Some (ch\<lparr>c_rb := srb s, c_num_items := n\<rparr>))))
          | Some (Abort f) \<Rightarrow> Some (Done (Abort f))))"

definition channel_num_items :: "tid \<Rightarrow> channel option \<Rightarrow> channel_outcome" where
  "channel_num_items t ud = (case ud of None \<Rightarrow> invalid_channel
    | Some ch \<Rightarrow> channel_lock t ch (\<lambda>ch. Done (Ret [PInt (uint (c_num_items ch))] (Some (channel_unlock t ch)))))"

definition channel_gc :: "th_api \<Rightarrow> tid \<Rightarrow> channel option \<Rightarrow> channel_outcome" where
  "channel_gc T t ud = (case ud of None \<Rightarrow> invalid_channel
    | Some ch \<Rightarrow> channel_lock t ch (\<lambda>ch.
        case th_dec T (c_refcount ch) of
          (n, True) \<Rightarrow>
            (case ringbuffer_destroy (Some (c_rb ch)) of
               Ok _ \<Rightarrow> Done (Ret [] None) | Crash f \<Rightarrow> Done (Abort f))
        | (n, False) \<Rightarrow> Done (Ret [] (Some (channel_unlock t (ch\<lparr>c_refcount := n\<rparr>))))))"

definition channel_retain :: "th_api \<Rightarrow> tid \<Rightarrow> channel option \<Rightarrow> channel_outcome" where
  "channel_retain T t ud = (case ud of None \<Rightarrow> invalid_channel
    | Some ch \<Rightarrow> channel_lock t ch (\<lambda>ch.
        Done (Ret [] (Some (channel_unlock t (ch\<lparr>c_refcount := th_inc T (c_refcount ch)\<rparr>))))))"

definition channel_metatablename :: "pushed list" where
  "channel_metatablename = [PStr ''ipc.channel'']"

section \<open>Abstraction\<close>

text \<open>
  A channel that no thread is using, as the list of the values in it and whether it was closed;
  it is drained when it is closed and empty.
\<close>

definition queued :: "lua_value list \<Rightarrow> item list" where
  "queued vs = map (\<lambda>v. (0, 0, v)) vs"

definition chan_rel :: "lua_api \<Rightarrow> channel \<Rightarrow> lua_value list \<times> bool \<Rightarrow> bool" where
  "chan_rel A ch a \<longleftrightarrow> (case a of (vs, closed) \<Rightarrow>
     owner (c_mutex ch) = None \<and> mutex_wf (c_mutex ch) \<and> rb_holds A (c_rb ch) (queued vs) \<and>
     c_num_items ch = of_nat (length vs) \<and> length vs < 2 ^ 32 \<and>
     c_closed ch = closed \<and> c_drained ch = (closed \<and> vs = []) \<and> 0 < c_size_increment ch)"

lemma queued_simps [simp]: "queued [] = []" "queued (v # vs) = (0, 0, v) # queued vs" "queued (vs @ ws) = queued vs @ queued ws"
  by (simp_all add: queued_def)

lemma items_bytes_args: "items_bytes A (arg_items i upval vs) = items_bytes A (map (\<lambda>v. (0, upval, v)) vs)"
  by (induction vs arbitrary: i) simp_all

lemma chan_rel_create: "chan_rel A (channel_create junk) ([], False)"
  by (simp add: chan_rel_def channel_create_def channel_init_queue_def rb_holds_def rb_inv_create
      max_object_def DEFAULT_CHANNEL_SIZE_def) (simp add: pthread_mutex_init_def)

lemma num_items_simps:
  assumes "length vs < 2 ^ 32"
  shows "(of_nat (length vs) :: uint32) = 0 \<longleftrightarrow> vs = []"
    and "uint (of_nat (length vs) :: uint32) = int (length vs)"
proof -
  have n: "unat (of_nat (length vs) :: uint32) = length vs" using assms by (rule unat_of_nat_uint32)
  then show "(of_nat (length vs) :: uint32) = 0 \<longleftrightarrow> vs = []" by (metis length_0_conv unat_eq_zero)
  show "uint (of_nat (length vs) :: uint32) = int (length vs)" by (simp only: uint_nat n)
qed

lemma num_items_one:
  "length (v # vs) < 2 ^ 32 \<Longrightarrow> (of_nat (length (v # vs)) :: uint32) = 1 \<longleftrightarrow> vs = []"
  using num_items_simps(1) [of vs] by simp

text \<open>A value the channel can carry from a writer to a reader with \<open>d\<close> stack slots in use.\<close>

definition sendable :: "lua_api \<Rightarrow> nat \<Rightarrow> lua_value \<Rightarrow> bool" where
  "sendable A d v \<longleftrightarrow> savable A False 0 v \<and> reload A 0 v \<noteq> None \<and> stack_ok A d (slots 0 v)"

datatype chan_op = CWrite "lua_value list" | CRead | CClose | CClosed | CDrained | CNum

text \<open>The handlers as operations on a channel; a read is one that does not block.\<close>

fun chan_handler :: "lua_api \<Rightarrow> (nat \<Rightarrow> byte) \<Rightarrow> nat \<Rightarrow> tid \<Rightarrow> chan_op \<Rightarrow> channel \<Rightarrow> channel_outcome option" where
  "chan_handler A junk d t (CWrite vs) ch = channel_write A junk t vs (Some ch)"
| "chan_handler A junk d t CRead ch = Some (channel_read A d t True (Some ch))"
| "chan_handler A junk d t CClose ch = Some (channel_close t (Some ch))"
| "chan_handler A junk d t CClosed ch = Some (channel_closed t (Some ch))"
| "chan_handler A junk d t CDrained ch = Some (channel_drained t (Some ch))"
| "chan_handler A junk d t CNum ch = Some (channel_num_items t (Some ch))"

fun chan_run :: "lua_api \<Rightarrow> (nat \<Rightarrow> byte) \<Rightarrow> nat \<Rightarrow> (tid \<times> chan_op) list \<Rightarrow> channel \<Rightarrow> (pushed list list \<times> channel) option" where
  "chan_run A junk d [] ch = Some ([], ch)"
| "chan_run A junk d ((t, op) # ops) ch =
     (case chan_handler A junk d t op ch of
        Some (Done (Ret out (Some ch))) \<Rightarrow> map_option (\<lambda>(outs, ch). (out # outs, ch)) (chan_run A junk d ops ch)
      | _ \<Rightarrow> None)"

text \<open>The same operations on the list of values.\<close>

fun abs_step :: "lua_api \<Rightarrow> chan_op \<Rightarrow> lua_value list \<times> bool \<Rightarrow> pushed list \<times> lua_value list \<times> bool" where
  "abs_step A (CWrite ws) (vs, closed) =
     (if \<not> closed then ([PInt STATUS_OPEN], vs @ ws, closed)
      else ([PInt (if vs = [] then STATUS_DRAINED else STATUS_CLOSED)], vs, closed))"
| "abs_step A CRead ([], closed) = ([PInt (if closed then STATUS_DRAINED else STATUS_OPEN)], [], closed)"
| "abs_step A CRead (v # vs, closed) =
     ([PInt (if closed then STATUS_CLOSED else STATUS_OPEN), PVal (the (reload A 0 v))], vs, closed)"
| "abs_step A CClose (vs, closed) = ([], vs, True)"
| "abs_step A CClosed (vs, closed) = ([PBool closed], vs, closed)"
| "abs_step A CDrained (vs, closed) = ([PBool (closed \<and> vs = [])], vs, closed)"
| "abs_step A CNum (vs, closed) = ([PInt (int (length vs))], vs, closed)"

fun abs_run :: "lua_api \<Rightarrow> (tid \<times> chan_op) list \<Rightarrow> lua_value list \<times> bool \<Rightarrow> pushed list list \<times> lua_value list \<times> bool" where
  "abs_run A [] a = ([], a)"
| "abs_run A ((t, op) # ops) a = (let (out, a) = abs_step A op a; (outs, a) = abs_run A ops a in (out # outs, a))"

text \<open>What an operation may add to the buffer and to the number of items.\<close>

fun op_cost :: "lua_api \<Rightarrow> size_t \<Rightarrow> chan_op \<Rightarrow> nat" where
  "op_cost A sz (CWrite vs) = args_cost A sz 0 vs"
| "op_cost A sz _ = 0"

fun op_items :: "chan_op \<Rightarrow> lua_value list" where
  "op_items (CWrite vs) = vs"
| "op_items _ = []"

section \<open>Each operation refines its abstraction\<close>

lemma locked:
  assumes "chan_rel A ch a"
  obtains m where "pthread_mutex_lock t (c_mutex ch) = Some m" and "pthread_mutex_unlock t m = c_mutex ch"
proof -
  have "owner (c_mutex ch) = None" "mutex_wf (c_mutex ch)"
    using assms by (simp_all add: chan_rel_def split: prod.splits)
  moreover from this(1) obtain m where m: "pthread_mutex_lock t (c_mutex ch) = Some m" using lock_free by blast
  ultimately show thesis by (intro that [OF m]) (simp add: unlock_lock)
qed

lemma channel_lock_rel:
  assumes "chan_rel A ch a" and "\<And>m. pthread_mutex_unlock t m = c_mutex ch \<Longrightarrow> P (k (ch\<lparr>c_mutex := m\<rparr>))"
  shows "P (channel_lock t ch k)"
  by (rule locked [OF assms(1), of t]) (simp add: channel_lock_def assms(2))

lemma channel_close_rel:
  assumes "chan_rel A ch (vs, closed)"
  shows "\<exists>ch'. channel_close t (Some ch) = Done (Ret [] (Some ch')) \<and> chan_rel A ch' (vs, True) \<and>
    c_rb ch' = c_rb ch \<and> c_size_increment ch' = c_size_increment ch"
  unfolding channel_close_def option.case
  by (rule channel_lock_rel [OF assms])
    (use assms num_items_simps(1) [of vs] in \<open>auto simp: chan_rel_def channel_unlock_def Let_def\<close>)

lemma channel_query_rel:
  assumes "chan_rel A ch (vs, closed)"
  shows "channel_closed t (Some ch) = Done (Ret [PBool closed] (Some ch))"
    and "channel_drained t (Some ch) = Done (Ret [PBool (closed \<and> vs = [])] (Some ch))"
    and "channel_num_items t (Some ch) = Done (Ret [PInt (int (length vs))] (Some ch))"
  unfolding channel_closed_def channel_drained_def channel_num_items_def option.case
  by (rule channel_lock_rel [OF assms];
      use assms num_items_simps(2) [of vs] in \<open>auto simp: chan_rel_def channel_unlock_def\<close>)+

lemma rb_load_queued:
  assumes "rb_holds A rb (queued (v # vs))" and "sendable A d v"
  shows "\<exists>rb'. rb_load A d rb = Ret (LoadVal (the (reload A 0 v))) rb' \<and> rb_holds A rb' (queued vs) \<and>
    unat (cb rb') = unat (cb rb)"
proof -
  obtain v' where "reload A 0 v = Some v'" using assms(2) by (auto simp: sendable_def)
  then show ?thesis
    using rbq.get_front [of A "(\<lparr>srb = rb, ltop = 0, retained = []\<rparr>, 1)" "(0, 0, v)" "queued vs" d v'] assms
    by (auto simp: item_view_def sendable_def item_get_def split: lres.splits load_ret.splits)
qed

lemma channel_read_rel:
  assumes rel: "chan_rel A ch (v # vs, closed)" and v: "sendable A d v"
  shows "\<exists>ch'. channel_read A d t nb (Some ch) =
      Done (Ret [PInt (if closed then STATUS_CLOSED else STATUS_OPEN), PVal (the (reload A 0 v))] (Some ch')) \<and>
    chan_rel A ch' (vs, closed) \<and> unat (cb (c_rb ch')) = unat (cb (c_rb ch)) \<and> c_size_increment ch' = c_size_increment ch"
proof -
  have len: "length (v # vs) < 2 ^ 32" and h: "rb_holds A (c_rb ch) (queued (v # vs))"
    using rel by (simp_all add: chan_rel_def)
  obtain rb' where rb': "rb_load A d (c_rb ch) = Ret (LoadVal (the (reload A 0 v))) rb'" "rb_holds A rb' (queued vs)"
      "unat (cb rb') = unat (cb (c_rb ch))"
    using rb_load_queued [OF h v] by blast
  have n: "c_num_items ch \<noteq> 0" "c_num_items ch = 1 \<longleftrightarrow> vs = []" "c_num_items ch - 1 = of_nat (length vs)"
    using rel num_items_simps(1) [OF len] num_items_one [OF len] by (simp_all add: chan_rel_def)
  show ?thesis
    unfolding channel_read_def option.case
    by (rule channel_lock_rel [OF rel])
      (use rel n rb' in \<open>auto simp: channel_read_round_def chan_rel_def channel_unlock_def Let_def\<close>)
qed

lemma channel_read_empty_rel:
  assumes "chan_rel A ch ([], closed)"
  shows "channel_read A d t nb (Some ch) =
    (if closed then Done (Ret [PInt STATUS_DRAINED] (Some ch))
     else if nb then Done (Ret [PInt STATUS_OPEN] (Some ch)) else CondWait (Some ch))"
  unfolding channel_read_def option.case
  by (rule channel_lock_rel [OF assms])
    (use assms in \<open>auto simp: channel_read_round_def chan_rel_def channel_unlock_def\<close>)

lemma channel_write_open_rel:
  assumes rel: "chan_rel A ch (vs, False)" and ws: "list_all (savable A False 0) ws"
    and cost: "unat (cb (c_rb ch)) + args_cost A (c_size_increment ch) 0 ws < max_object"
    and len: "length vs + length ws < 2 ^ 32"
  shows "\<exists>ch'. channel_write A junk t ws (Some ch) = Some (Done (Ret [PInt STATUS_OPEN] (Some ch'))) \<and>
    chan_rel A ch' (vs @ ws, False) \<and> c_size_increment ch' = c_size_increment ch \<and>
    unat (cb (c_rb ch')) \<le> unat (cb (c_rb ch)) + args_cost A (c_size_increment ch) 0 ws \<and>
    c_cond ch' = c_cond ch @ [Signal]"
proof -
  let ?s = "\<lparr>srb = c_rb ch, ltop = 1 + length ws, retained = []\<rparr>"
  obtain m where m: "pthread_mutex_lock t (c_mutex ch) = Some m" "pthread_mutex_unlock t m = c_mutex ch"
    by (rule locked [OF rel])
  obtain s' where s': "write_items A junk (c_size_increment ch) 0 2 ws ?s (c_num_items ch) =
        Some (Ret 0 (s', c_num_items ch + of_nat (length ws)))"
      "rb_holds A (srb s') (queued vs @ arg_items 2 0 ws)"
      "unat (cb (srb s')) \<le> unat (cb (c_rb ch)) + args_cost A (c_size_increment ch) 0 ws"
    using write_items_spec [of A ?s "queued vs" 0 ws "c_size_increment ch" 2 junk "c_num_items ch"] rel ws cost
    by (auto simp: chan_rel_def)
  have "rb_holds A (srb s') (queued (vs @ ws))"
    using s'(2) by (simp add: rb_holds_def items_bytes_args queued_def)
  then show ?thesis
    using rel m s' len by (auto simp: channel_write_def chan_rel_def channel_unlock_def Let_def)
qed

lemma channel_write_closed_rel:
  assumes "chan_rel A ch (vs, True)"
  shows "channel_write A junk t ws (Some ch) =
    Some (Done (Ret [PInt (if vs = [] then STATUS_DRAINED else STATUS_CLOSED)] (Some ch)))"
  by (rule locked [OF assms, of t])
    (use assms in \<open>auto simp: channel_write_def chan_rel_def channel_unlock_def Let_def\<close>)

lemma chan_step_rel:
  assumes rel: "chan_rel A ch a" and vs: "list_all (sendable A d) (fst a @ op_items op)"
    and cost: "unat (cb (c_rb ch)) + op_cost A (c_size_increment ch) op < max_object"
    and len: "length (fst a @ op_items op) < 2 ^ 32"
  shows "\<exists>out ch' a'. chan_handler A junk d t op ch = Some (Done (Ret out (Some ch'))) \<and>
    abs_step A op a = (out, a') \<and> chan_rel A ch' a' \<and> set (fst a') \<subseteq> set (fst a @ op_items op) \<and>
    length (fst a') \<le> length (fst a @ op_items op) \<and> c_size_increment ch' = c_size_increment ch \<and>
    unat (cb (c_rb ch')) \<le> unat (cb (c_rb ch)) + op_cost A (c_size_increment ch) op"
proof -
  obtain us closed where a: "a = (us, closed)" by (cases a)
  have save: "list_all (savable A False 0) (op_items op)"
    using vs by (auto simp: list_all_iff sendable_def)
  show ?thesis
  proof (cases op)
    case (CWrite ws)
    then show ?thesis
      using channel_write_open_rel [of A ch us ws junk t] channel_write_closed_rel [of A ch us junk t ws]
        rel save cost len by (cases closed) (auto simp: a)
  next
    case CRead
    then show ?thesis
      using channel_read_rel [of A ch "hd us" "tl us" closed d t True] channel_read_empty_rel [of A ch closed d t True]
        rel vs by (cases us) (auto simp: a)
  next
    case CClose
    then show ?thesis using channel_close_rel [of A ch us closed t] rel by (auto simp: a)
  qed (use channel_query_rel [of A ch us closed t] rel in \<open>auto simp: a\<close>)
qed

text \<open>Reference counting.\<close>

definition chan_refs :: "channel \<Rightarrow> nat" where
  "chan_refs ch = (if owner (c_mutex ch) = None \<and> mutex_wf (c_mutex ch) then unat (c_refcount ch) else 0)"

definition chan_retained :: "th_api \<Rightarrow> tid \<Rightarrow> channel \<Rightarrow> channel" where
  "chan_retained T t ch = (case channel_retain T t (Some ch) of Done (Ret _ (Some ch)) \<Rightarrow> ch | _ \<Rightarrow> ch)"

definition chan_released :: "th_api \<Rightarrow> tid \<Rightarrow> channel \<Rightarrow> channel option" where
  "chan_released T t ch = (case channel_gc T t (Some ch) of Done (Ret _ ud) \<Rightarrow> ud | _ \<Rightarrow> Some ch)"

interpretation chan_rc: counted chan_refs "channel_create junk" "chan_retained th_model t" "chan_released th_model t" for junk t
proof unfold_locales
  show "chan_refs (channel_create junk) = 1"
    by (simp add: chan_refs_def channel_create_def channel_init_queue_def) (simp add: pthread_mutex_init_def)
next
  fix x :: channel assume "0 < chan_refs x" and "chan_refs x + 1 < 2 ^ 31"
  then show "chan_refs (chan_retained th_model t x) = chan_refs x + 1"
    by (auto simp: chan_refs_def chan_retained_def channel_retain_def channel_lock_def channel_unlock_def
        pthread_mutex_lock_def pthread_mutex_unlock_def mutex_wf_def th_model_def refcount_arith split: if_splits)
next
  fix x :: channel assume "chan_refs x = 1"
  moreover from this have "c_refcount x = 1"
    by (auto simp: chan_refs_def refcount_arith(3) simp del: One_nat_def split: if_splits)
  ultimately show "chan_released th_model t x = None"
    by (auto simp: chan_refs_def chan_released_def channel_gc_def channel_lock_def pthread_mutex_lock_def
        ringbuffer_destroy_def th_model_def refcount_arith split: if_splits)
next
  fix x :: channel assume "1 < chan_refs x" and "chan_refs x < 2 ^ 31"
  moreover from this have "c_refcount x \<noteq> 1" "1 \<le> unat (c_refcount x)"
    by (auto simp: chan_refs_def split: if_splits)
  ultimately show "\<exists>x'. chan_released th_model t x = Some x' \<and> chan_refs x' = chan_refs x - 1"
    by (auto simp: chan_refs_def chan_released_def channel_gc_def channel_lock_def channel_unlock_def
        pthread_mutex_lock_def pthread_mutex_unlock_def mutex_wf_def th_model_def refcount_arith split: if_splits)
qed

section \<open>Properties\<close>

text \<open>
  C2: Refinement: on a channel no thread is using, every sequence of writes, non-blocking reads, closes and
  queries by any threads gives the results of the list of values with a closed flag:
  values come out in the order they went in, each once, a closed channel refuses writes,
  and the status tells open, closed and drained apart.
\<close>

theorem channel_refines:
  "chan_rel A ch a \<Longrightarrow> list_all (sendable A d) (fst a @ concat (map (op_items \<circ> snd) ops)) \<Longrightarrow>
     unat (cb (c_rb ch)) + sum_list (map (op_cost A (c_size_increment ch) \<circ> snd) ops) < max_object \<Longrightarrow>
     length (fst a @ concat (map (op_items \<circ> snd) ops)) < 2 ^ 32 \<Longrightarrow>
     \<exists>outs ch' a'. chan_run A junk d ops ch = Some (outs, ch') \<and> abs_run A ops a = (outs, a') \<and> chan_rel A ch' a'"
proof (induction ops arbitrary: ch a)
  case (Cons top ops)
  obtain t op where top: "top = (t, op)" by (cases top)
  obtain out ch1 a1 where 1: "chan_handler A junk d t op ch = Some (Done (Ret out (Some ch1)))"
      "abs_step A op a = (out, a1)" "chan_rel A ch1 a1" "set (fst a1) \<subseteq> set (fst a @ op_items op)"
      "length (fst a1) \<le> length (fst a @ op_items op)" "c_size_increment ch1 = c_size_increment ch"
      "unat (cb (c_rb ch1)) \<le> unat (cb (c_rb ch)) + op_cost A (c_size_increment ch) op"
    using chan_step_rel [of A ch a d op junk t] Cons.prems by (fastforce simp: top)
  have "\<exists>outs ch' a'. chan_run A junk d ops ch1 = Some (outs, ch') \<and> abs_run A ops a1 = (outs, a') \<and> chan_rel A ch' a'"
    by (rule Cons.IH) (use 1 Cons.prems in \<open>auto simp: top list_all_iff\<close>)
  with 1 show ?case by (auto simp: top)
qed simp

theorem channel_refines_witness:
  "\<exists>outs ch' a'. chan_run small_lua (\<lambda>_. 0) 2 [(1, CWrite [LBoolean True, LNil]), (2, CRead), (1, CClose), (2, CRead), (2, CRead)]
      (channel_create (\<lambda>_. 0)) = Some (outs, ch') \<and>
    abs_run small_lua [(1, CWrite [LBoolean True, LNil]), (2, CRead), (1, CClose), (2, CRead), (2, CRead)] ([], False) = (outs, a') \<and>
    chan_rel small_lua ch' a'"
  by (rule channel_refines [OF chan_rel_create])
    (simp_all add: sendable_def stack_ok_def list_all_iff args_cost_def max_object_def,
     simp add: channel_create_def channel_init_queue_def ringbuffer_create_def DEFAULT_CHANNEL_SIZE_def)

text \<open>
  C34: A blocking read of an open empty channel waits, with the mutex released and the channel as
  it was; of a closed empty channel it returns \<open>STATUS_DRAINED\<close> instead of waiting; otherwise it returns the
  first value.
\<close>

theorem channel_read_blocks:
  assumes "chan_rel A ch (vs, closed)" and "list_all (sendable A d) vs"
  shows "case vs of
      [] \<Rightarrow> channel_read A d t False (Some ch) =
        (if closed then Done (Ret [PInt STATUS_DRAINED] (Some ch)) else CondWait (Some ch))
    | v # ws \<Rightarrow> \<exists>ch'. channel_read A d t False (Some ch) =
        Done (Ret [PInt (if closed then STATUS_CLOSED else STATUS_OPEN), PVal (the (reload A 0 v))] (Some ch')) \<and>
        chan_rel A ch' (ws, closed)"
proof (cases vs)
  case Nil
  with channel_read_empty_rel [of A ch closed d t False] assms(1) show ?thesis by simp
next
  case (Cons v ws)
  then have "\<exists>ch'. channel_read A d t False (Some ch) =
      Done (Ret [PInt (if closed then STATUS_CLOSED else STATUS_OPEN), PVal (the (reload A 0 v))] (Some ch')) \<and>
      chan_rel A ch' (ws, closed)"
    using channel_read_rel [of A ch v ws closed d t False] assms by auto
  with Cons show ?thesis by simp
qed

theorem channel_read_blocks_witness:
  "case ([] :: lua_value list) of
      [] \<Rightarrow> channel_read small_lua 2 1 False (Some (channel_create (\<lambda>_. 0))) =
        (if False then Done (Ret [PInt STATUS_DRAINED] (Some (channel_create (\<lambda>_. 0)))) else CondWait (Some (channel_create (\<lambda>_. 0))))
    | v # ws \<Rightarrow> \<exists>ch'. channel_read small_lua 2 1 False (Some (channel_create (\<lambda>_. 0))) =
        Done (Ret [PInt (if False then STATUS_CLOSED else STATUS_OPEN), PVal (the (reload small_lua 0 v))] (Some ch')) \<and>
        chan_rel small_lua ch' (ws, False)"
  by (rule channel_read_blocks [OF chan_rel_create]) simp

text \<open>
  A channel lives as long as references to it: over any history of retains and releases in which
  the count of references stays positive it is not freed, and the release of the last
  reference frees it.
\<close>

theorem channel_freed_last:
  assumes "th_ok T" and "\<forall>n \<le> length bs. 0 < 1 + chan_rc.balance (take n bs)" and "length bs + 1 < 2 ^ 31"
  shows "\<exists>ch. counted.history (chan_retained T t) (chan_released T t) bs (channel_create junk) = Some ch \<and>
      int (chan_refs ch) = 1 + chan_rc.balance bs \<and>
      (chan_refs ch = 1 \<longrightarrow> chan_released T t ch = None)"
  using chan_rc.history_alive [of "channel_create junk" bs t] assms
  by (auto simp: th_ok_model [OF assms(1)] chan_rc.refs_fresh chan_rc.release_last)

theorem channel_freed_last_witness:
  "\<exists>ch. counted.history (chan_retained th_model 1) (chan_released th_model 1) [True, False] (channel_create (\<lambda>_. 0)) = Some ch \<and>
      int (chan_refs ch) = 1 + chan_rc.balance [True, False] \<and>
      (chan_refs ch = 1 \<longrightarrow> chan_released th_model 1 ch = None)"
proof (rule channel_freed_last)
  show "\<forall>n\<le>length [True, False]. 0 < 1 + chan_rc.balance (take n [True, False])"
    by (auto simp: take_Cons split: nat.splits)
qed simp_all

text \<open>
  C38: A C function in a write: the Lua error leaves the handler with the mutex held, so that every other
  thread blocks on the channel from then on, and leaves the byte already written for the function
  in the buffer, ahead of the next value.
\<close>

theorem channel_write_error_locks:
  assumes "chan_rel A ch (vs, False)" and "take 1 what \<noteq> ''L''"
    and "length (content (c_rb ch)) < unat (cb (c_rb ch))" and "t' \<noteq> t"
  shows "\<exists>ch'. channel_write A junk t [LFunction what proto ups] (Some ch) =
      Some (Done (Raise (LuaErrStr ''attempt to persist a C function'') (Some ch'))) \<and>
    content (c_rb ch') = content (c_rb ch) @ [6] \<and> c_num_items ch' = c_num_items ch \<and>
    channel_read A d t' nb (Some ch') = LockWait \<and> channel_close t' (Some ch') = LockWait"
proof -
  let ?rb = "ringbuffer_push_write_pos (c_rb ch)"
  have inv: "rb_inv ?rb" using assms(1) by (simp add: chan_rel_def rb_holds_def)
  obtain rb where rb: "ringbuffer_write ?rb (Some [6]) (of_nat (length [6 :: byte])) = Ok (of_nat (length [6 :: byte]), rb)"
      "content rb = content (c_rb ch) @ [6]"
    using ring.put_fits [OF inv, of "[6]"] assms(3) by auto
  let ?s = "\<lparr>srb = c_rb ch, ltop = 2, retained = []\<rparr>"
  have save: "rb_save A False 0 2 (LFunction what proto ups) (?s\<lparr>srb := ?rb\<rparr>) =
      Raise (LuaErrStr ''attempt to persist a C function'') (?s\<lparr>srb := rb\<rparr>)"
    using rb(1) assms(2) by (simp add: Let_def RB_WRITE_def RB_WRITE_POP_def push_def)
  have items: "write_items A junk (c_size_increment ch) 0 2 [LFunction what proto ups] ?s n =
      Some (Raise (LuaErrStr ''attempt to persist a C function'') (?s\<lparr>srb := rb\<rparr>, n))" for n
    using save by (simp add: rb_save_with_growth.simps [of A junk] del: rb_save.simps)
  have free: "owner (c_mutex ch) = None" "\<not> c_closed ch" "\<not> c_drained ch"
    using assms(1) by (auto simp: chan_rel_def)
  show ?thesis
    using items [of "c_num_items ch"] rb(2) free assms(4)
    by (auto simp: channel_write_def Let_def pthread_mutex_lock_def channel_read_def channel_close_def
        channel_lock_def numeral_2_eq_2 [symmetric])
qed

theorem channel_write_error_locks_witness:
  "\<exists>ch'. channel_write small_lua (\<lambda>_. 0) 1 [LFunction ''C'' 0 []] (Some (channel_create (\<lambda>_. 0))) =
      Some (Done (Raise (LuaErrStr ''attempt to persist a C function'') (Some ch'))) \<and>
    content (c_rb ch') = content (c_rb (channel_create (\<lambda>_. 0))) @ [6] \<and>
    c_num_items ch' = c_num_items (channel_create (\<lambda>_. 0)) \<and>
    channel_read small_lua 2 7 True (Some ch') = LockWait \<and> channel_close 7 (Some ch') = LockWait"
  by (rule channel_write_error_locks [OF chan_rel_create])
    (simp_all add: channel_create_def channel_init_queue_def,
     simp add: ringbuffer_create_def DEFAULT_CHANNEL_SIZE_def)

end
