(* ===== verification/ChannelSync.thy ===== *)
theory ChannelSync
  imports Channel
begin

text \<open>
  Threads around one channel of \<^verbatim>\<open>src/channel.c\<close>: readers that wait on the condition variable, the wake-ups
  the handlers send, and the question whether a reader can be left asleep while there is
  a value for it.
\<close>

section \<open>Model\<close>

text \<open>
  A reader is \<open>trying\<close> when it will run the next round of the loop of \<open>channel_read\<close>, and \<open>waiting\<close> when it is in
  \<open>pthread_cond_wait\<close>. The handlers run under the mutex and are steps of their own.
\<close>

record world =
  w_ch :: channel
  waiting :: "tid set"
  trying :: "tid set"

text \<open>What the calls made on the condition variable do to the readers: a signal wakes one that waits, if any.\<close>

inductive wake :: "cond_call list \<Rightarrow> world \<Rightarrow> world \<Rightarrow> bool" where
  wake_none: "wake [] w w"
| wake_signal: "t \<in> waiting w \<Longrightarrow> wake cs (w\<lparr>waiting := waiting w - {t}, trying := insert t (trying w)\<rparr>) w' \<Longrightarrow>
    wake (Signal # cs) w w'"
| wake_nobody: "waiting w = {} \<Longrightarrow> wake cs w w' \<Longrightarrow> wake (Signal # cs) w w'"
| wake_broadcast: "wake cs (w\<lparr>waiting := {}, trying := trying w \<union> waiting w\<rparr>) w' \<Longrightarrow> wake (Broadcast # cs) w w'"

inductive_cases wake_NilE: "wake [] w w'"
inductive_cases wake_SignalE: "wake (Signal # cs) w w'"
inductive_cases wake_BroadcastE: "wake (Broadcast # cs) w w'"

text \<open>The calls a handler has added to the record of the condition variable.\<close>

definition new_calls :: "channel \<Rightarrow> channel \<Rightarrow> cond_call list" where
  "new_calls ch ch' = drop (length (c_cond ch)) (c_cond ch')"

text \<open>
  The steps, with at most \<open>lim\<close> values in one write. A wake-up without a call is possible at
  any time. A write stays within the largest object and the 32-bit counter.
\<close>

inductive sync_step :: "lua_api \<Rightarrow> (nat \<Rightarrow> byte) \<Rightarrow> nat \<Rightarrow> nat \<Rightarrow> world \<Rightarrow> world \<Rightarrow> bool"
  for A junk d lim where
  step_start: "t \<notin> waiting w \<union> trying w \<Longrightarrow> sync_step A junk d lim w (w\<lparr>trying := insert t (trying w)\<rparr>)"
| step_return: "t \<in> trying w \<Longrightarrow> channel_read A d t False (Some (w_ch w)) = Done (Ret out (Some ch)) \<Longrightarrow>
    wake (new_calls (w_ch w) ch) (w\<lparr>w_ch := ch, trying := trying w - {t}\<rparr>) w' \<Longrightarrow> sync_step A junk d lim w w'"
| step_wait: "t \<in> trying w \<Longrightarrow> channel_read A d t False (Some (w_ch w)) = CondWait (Some ch) \<Longrightarrow>
    sync_step A junk d lim w (w\<lparr>w_ch := ch, trying := trying w - {t}, waiting := insert t (waiting w)\<rparr>)"
| step_write: "length vs \<le> lim \<Longrightarrow> list_all (sendable A d) vs \<Longrightarrow>
    unat (cb (c_rb (w_ch w))) + args_cost A (c_size_increment (w_ch w)) 0 vs < max_object \<Longrightarrow>
    unat (c_num_items (w_ch w)) + length vs < 2 ^ 32 \<Longrightarrow>
    channel_write A junk t vs (Some (w_ch w)) = Some (Done (Ret out (Some ch))) \<Longrightarrow>
    wake (new_calls (w_ch w) ch) (w\<lparr>w_ch := ch\<rparr>) w' \<Longrightarrow> sync_step A junk d lim w w'"
| step_close: "channel_close t (Some (w_ch w)) = Done (Ret out (Some ch)) \<Longrightarrow>
    wake (new_calls (w_ch w) ch) (w\<lparr>w_ch := ch\<rparr>) w' \<Longrightarrow> sync_step A junk d lim w w'"
| step_spurious: "t \<in> waiting w \<Longrightarrow>
    sync_step A junk d lim w (w\<lparr>waiting := waiting w - {t}, trying := insert t (trying w)\<rparr>)"

definition world_init :: "(nat \<Rightarrow> byte) \<Rightarrow> world" where
  "world_init junk = \<lparr>w_ch = channel_create junk, waiting = {}, trying = {}\<rparr>"

inductive reachable :: "lua_api \<Rightarrow> (nat \<Rightarrow> byte) \<Rightarrow> nat \<Rightarrow> nat \<Rightarrow> world \<Rightarrow> bool" for A junk d lim where
  reach_init: "reachable A junk d lim (world_init junk)"
| reach_step: "reachable A junk d lim w \<Longrightarrow> sync_step A junk d lim w w' \<Longrightarrow> reachable A junk d lim w'"

section \<open>The invariant for writes of one value\<close>

text \<open>
  While somebody waits, there are at least as many readers on their way as there are values;
  nobody waits on a closed channel.
\<close>

definition no_lost_wakeup :: "lua_value list \<Rightarrow> bool \<Rightarrow> tid set \<Rightarrow> tid set \<Rightarrow> bool" where
  "no_lost_wakeup vs closed wt tr \<longleftrightarrow> finite tr \<and> finite wt \<and> wt \<inter> tr = {} \<and> (closed \<longrightarrow> wt = {}) \<and>
     (wt \<noteq> {} \<longrightarrow> length vs \<le> card tr)"

definition sync_inv :: "lua_api \<Rightarrow> nat \<Rightarrow> world \<Rightarrow> bool" where
  "sync_inv A d w \<longleftrightarrow> (\<exists>vs closed. chan_rel A (w_ch w) (vs, closed) \<and> list_all (sendable A d) vs \<and>
     no_lost_wakeup vs closed (waiting w) (trying w))"

lemma sync_invI:
  "chan_rel A (w_ch w) (vs, closed) \<Longrightarrow> list_all (sendable A d) vs \<Longrightarrow>
     no_lost_wakeup vs closed (waiting w) (trying w) \<Longrightarrow> sync_inv A d w"
  by (auto simp: sync_inv_def)

lemma new_calls_cond [simp]: "c_cond ch' = c_cond ch @ cs \<Longrightarrow> new_calls ch ch' = cs"
  by (simp add: new_calls_def)

text \<open>The calls each handler makes.\<close>

lemma channel_close_cond:
  assumes "chan_rel A ch (vs, closed)" and "channel_close t (Some ch) = Done (Ret out (Some ch'))"
  shows "c_cond ch' = c_cond ch @ (if closed then [] else [Broadcast])"
proof -
  obtain m where "pthread_mutex_lock t (c_mutex ch) = Some m" by (rule locked [OF assms(1)])
  with assms show ?thesis
    by (auto simp: channel_close_def channel_lock_def channel_unlock_def Let_def chan_rel_def split: if_splits)
qed

lemma channel_read_cond:
  assumes "chan_rel A ch (v # vs, closed)" and "channel_read A d t nb (Some ch) = Done (Ret out (Some ch'))"
  shows "c_cond ch' = c_cond ch @ (if closed \<and> vs = [] then [Broadcast] else [])"
proof -
  obtain m where "pthread_mutex_lock t (c_mutex ch) = Some m" by (rule locked [OF assms(1)])
  moreover have "length (v # vs) < 2 ^ 32" using assms(1) by (simp add: chan_rel_def)
  note n = num_items_simps(1) [OF this] num_items_one [OF this]
  moreover have "c_num_items ch = of_nat (length (v # vs))" using assms(1) by (simp add: chan_rel_def)
  note n [folded this]
  ultimately show ?thesis
    using assms by (auto simp: channel_read_def channel_read_round_def channel_lock_def channel_unlock_def Let_def
        chan_rel_def split: if_splits lres.splits load_ret.splits)
qed

text \<open>How the counts change.\<close>

lemma no_lost_wakeup_steps:
  assumes "no_lost_wakeup vs closed wt tr"
  shows "t \<notin> wt \<union> tr \<Longrightarrow> no_lost_wakeup vs closed wt (insert t tr)"
    and "t \<in> wt \<Longrightarrow> no_lost_wakeup vs closed (wt - {t}) (insert t tr)"
    and "vs = [] \<Longrightarrow> closed \<Longrightarrow> no_lost_wakeup vs closed wt (tr - {t})"
    and "vs = v # us \<Longrightarrow> t \<in> tr \<Longrightarrow> no_lost_wakeup us closed wt (tr - {t})"
    and "vs = [] \<Longrightarrow> \<not> closed \<Longrightarrow> t \<in> tr \<Longrightarrow> no_lost_wakeup vs closed (insert t wt) (tr - {t})"
    and "t \<in> wt \<Longrightarrow> length ws \<le> 1 \<Longrightarrow> no_lost_wakeup (vs @ ws) closed (wt - {t}) (insert t tr)"
    and "no_lost_wakeup vs True {} (tr \<union> wt)"
proof -
  have new: "card (insert t tr) = card tr + 1" if "t \<in> wt"
    using assms that by (subst card_insert_disjoint) (auto simp: no_lost_wakeup_def)
  then show "t \<in> wt \<Longrightarrow> length ws \<le> 1 \<Longrightarrow> no_lost_wakeup (vs @ ws) closed (wt - {t}) (insert t tr)"
    using assms by (auto simp: no_lost_wakeup_def)
  show "vs = v # us \<Longrightarrow> t \<in> tr \<Longrightarrow> no_lost_wakeup us closed wt (tr - {t})"
    using assms card_Diff_singleton [of t tr] by (auto simp: no_lost_wakeup_def)
qed (use assms in \<open>auto simp: no_lost_wakeup_def card_insert_if\<close>)

lemma wake_signal_inv:
  assumes "wake [Signal] w w'" and "no_lost_wakeup vs closed (waiting w) (trying w)" and "length ws \<le> 1"
  shows "no_lost_wakeup (vs @ ws) closed (waiting w') (trying w')" and "w_ch w' = w_ch w"
  using assms
  by (auto elim!: wake_SignalE wake_NilE intro!: no_lost_wakeup_steps(6)) (auto simp: no_lost_wakeup_def)

lemma wake_broadcast_inv:
  assumes "wake (if b then [Broadcast] else []) w w'" and "no_lost_wakeup vs closed (waiting w) (trying w)"
    and "b \<Longrightarrow> closed"
  shows "no_lost_wakeup vs closed (waiting w') (trying w')" and "w_ch w' = w_ch w"
  using assms no_lost_wakeup_steps(7) [OF assms(2)]
  by (auto split: if_splits elim!: wake_BroadcastE wake_NilE)

lemma sync_invE:
  assumes "sync_inv A d w"
  obtains vs closed where "chan_rel A (w_ch w) (vs, closed)" and "list_all (sendable A d) vs"
    and "no_lost_wakeup vs closed (waiting w) (trying w)"
  using assms by (auto simp: sync_inv_def)

lemma return_inv:
  assumes "sync_inv A d w" and t: "t \<in> trying w"
    and read: "channel_read A d t False (Some (w_ch w)) = Done (Ret out (Some ch))"
    and wake: "wake (new_calls (w_ch w) ch) (w\<lparr>w_ch := ch, trying := trying w - {t}\<rparr>) w'"
  shows "sync_inv A d w'"
proof (rule sync_invE [OF assms(1)])
  fix vs closed
  assume inv: "chan_rel A (w_ch w) (vs, closed)" "list_all (sendable A d) vs"
    "no_lost_wakeup vs closed (waiting w) (trying w)"
  show ?thesis
  proof (cases vs)
    case Nil
    with channel_read_empty_rel [of A "w_ch w" closed d t False] inv(1) read
    have "closed" "ch = w_ch w" by (auto split: if_splits)
    with wake have "w' = w\<lparr>trying := trying w - {t}\<rparr>" by (auto simp: new_calls_def elim: wake_NilE)
    then show ?thesis
      using inv Nil \<open>closed\<close> no_lost_wakeup_steps(3) [OF inv(3) Nil] by (intro sync_invI) auto
  next
    case (Cons v us)
    have rel: "chan_rel A ch (us, closed)"
      using channel_read_rel [of A "w_ch w" v us closed d t False] inv(1,2) read Cons by auto
    have "new_calls (w_ch w) ch = (if closed \<and> us = [] then [Broadcast] else [])"
      using channel_read_cond [OF inv(1) [unfolded Cons] read] by (rule new_calls_cond)
    with wake have "wake (if closed \<and> us = [] then [Broadcast] else []) (w\<lparr>w_ch := ch, trying := trying w - {t}\<rparr>) w'"
      by simp
    from wake_broadcast_inv [OF this, of us closed] no_lost_wakeup_steps(4) [OF inv(3) Cons t]
    show ?thesis using rel inv(2) Cons by (intro sync_invI) auto
  qed
qed

lemma wait_inv:
  assumes "sync_inv A d w" and t: "t \<in> trying w"
    and read: "channel_read A d t False (Some (w_ch w)) = CondWait (Some ch)"
  shows "sync_inv A d (w\<lparr>w_ch := ch, trying := trying w - {t}, waiting := insert t (waiting w)\<rparr>)"
proof (rule sync_invE [OF assms(1)])
  fix vs closed
  assume inv: "chan_rel A (w_ch w) (vs, closed)" "list_all (sendable A d) vs"
    "no_lost_wakeup vs closed (waiting w) (trying w)"
  have "vs = []"
    using channel_read_rel [of A "w_ch w" "hd vs" "tl vs" closed d t False] inv read by (cases vs) auto
  moreover from this have "\<not> closed" "ch = w_ch w"
    using channel_read_empty_rel [of A "w_ch w" closed d t False] inv(1) read by (auto split: if_splits)
  ultimately show ?thesis
    using inv no_lost_wakeup_steps(5) [OF inv(3) _ _ t] by (intro sync_invI) auto
qed

lemma write_inv:
  assumes "sync_inv A d w" and vs: "length vs \<le> 1" "list_all (sendable A d) vs"
    and small: "unat (cb (c_rb (w_ch w))) + args_cost A (c_size_increment (w_ch w)) 0 vs < max_object"
      "unat (c_num_items (w_ch w)) + length vs < 2 ^ 32"
    and wr: "channel_write A junk t vs (Some (w_ch w)) = Some (Done (Ret out (Some ch)))"
    and wake: "wake (new_calls (w_ch w) ch) (w\<lparr>w_ch := ch\<rparr>) w'"
  shows "sync_inv A d w'"
proof (rule sync_invE [OF assms(1)])
  fix us closed
  assume inv: "chan_rel A (w_ch w) (us, closed)" "list_all (sendable A d) us"
    "no_lost_wakeup us closed (waiting w) (trying w)"
  have len: "length us + length vs < 2 ^ 32"
    using inv(1) small(2) unat_of_nat_uint32 [of "length us"] by (simp add: chan_rel_def)
  show ?thesis
  proof (cases closed)
    case True
    with channel_write_closed_rel [of A "w_ch w" us junk t vs] inv(1) wr have "ch = w_ch w" by simp
    with wake have "w' = w" by (auto simp: new_calls_def elim: wake_NilE)
    with assms(1) show ?thesis by simp
  next
    case False
    have "list_all (savable A False 0) vs" using vs(2) by (simp add: list_all_iff sendable_def)
    with channel_write_open_rel [of A "w_ch w" us vs junk t] inv(1) small(1) wr len False
    have rel: "chan_rel A ch (us @ vs, False)" and "c_cond ch = c_cond (w_ch w) @ [Signal]" by auto
    with wake have "wake [Signal] (w\<lparr>w_ch := ch\<rparr>) w'" by simp
    from wake_signal_inv [OF this, of us closed vs] inv(2,3) vs rel False
    show ?thesis by (intro sync_invI) auto
  qed
qed

lemma close_inv:
  assumes "sync_inv A d w" and close: "channel_close t (Some (w_ch w)) = Done (Ret out (Some ch))"
    and wake: "wake (new_calls (w_ch w) ch) (w\<lparr>w_ch := ch\<rparr>) w'"
  shows "sync_inv A d w'"
proof (rule sync_invE [OF assms(1)])
  fix vs closed
  assume inv: "chan_rel A (w_ch w) (vs, closed)" "list_all (sendable A d) vs"
    "no_lost_wakeup vs closed (waiting w) (trying w)"
  have rel: "chan_rel A ch (vs, True)"
    using channel_close_rel [OF inv(1), of t] close by auto
  have "wake (if closed then [] else [Broadcast]) (w\<lparr>w_ch := ch\<rparr>) w'"
    using wake channel_close_cond [OF inv(1) close] by simp
  then have "no_lost_wakeup vs True (waiting w') (trying w') \<and> w_ch w' = ch"
    using inv(3) no_lost_wakeup_steps(7) [OF inv(3)]
    by (auto split: if_splits elim!: wake_BroadcastE wake_NilE)
  then show ?thesis using rel inv(2) by (intro sync_invI) auto
qed

lemma sync_step_inv:
  assumes "sync_step A junk d 1 w w'" and "sync_inv A d w"
  shows "sync_inv A d w'"
  using assms
proof (induction rule: sync_step.induct)
  case (step_start t w)
  then show ?case by (auto simp: sync_inv_def intro: no_lost_wakeup_steps(1))
next
  case (step_spurious t w)
  then show ?case by (auto simp: sync_inv_def intro: no_lost_wakeup_steps(2))
qed (blast intro: return_inv wait_inv write_inv close_inv)+

lemma reachable_inv: "reachable A junk d 1 w \<Longrightarrow> sync_inv A d w"
proof (induction rule: reachable.induct)
  case reach_init
  show ?case
    by (rule sync_invI [of A _ "[]" False]) (simp_all add: world_init_def chan_rel_create no_lost_wakeup_def)
next
  case (reach_step w w')
  then show ?case by (blast intro: sync_step_inv)
qed

section \<open>Two readers and one write\<close>

lemma two_waiting:
  "reachable A junk d lim \<lparr>w_ch = channel_create junk, waiting = {1, 2}, trying = {}\<rparr>"
proof -
  have wait: "channel_read A d t False (Some (channel_create junk)) = CondWait (Some (channel_create junk))" for t
    using channel_read_empty_rel [OF chan_rel_create] by simp
  have "reachable A junk d lim \<lparr>w_ch = channel_create junk, waiting = {}, trying = {1}\<rparr>"
    using reach_step [OF reach_init [of A junk d lim] step_start [of 1]] by (simp add: world_init_def)
  from reach_step [OF this step_start [of 2]]
  have "reachable A junk d lim \<lparr>w_ch = channel_create junk, waiting = {}, trying = {2, 1}\<rparr>" by simp
  from reach_step [OF this step_wait [of 1 _ A d]] wait
  have "reachable A junk d lim \<lparr>w_ch = channel_create junk, waiting = {1}, trying = {2}\<rparr>"
    by (simp add: insert_Diff_if)
  from reach_step [OF this step_wait [of 2 _ A d]] wait show ?thesis by (simp add: insert_commute)
qed

lemma one_woken:
  assumes "length vs \<le> lim" and "list_all (sendable A d) vs" and "length vs < 2 ^ 32"
    and "16384 + args_cost A 16384 0 vs < max_object"
  shows "\<exists>ch. reachable A junk d lim \<lparr>w_ch = ch, waiting = {2}, trying = {1}\<rparr> \<and> chan_rel A ch (vs, False)"
proof -
  have sizes: "unat (cb (c_rb (channel_create junk))) = 16384" "c_size_increment (channel_create junk) = 16384"
      "c_num_items (channel_create junk) = 0"
    by (simp_all add: channel_create_def channel_init_queue_def ringbuffer_create_def DEFAULT_CHANNEL_SIZE_def)
  have "list_all (savable A False 0) vs" using assms(2) by (simp add: list_all_iff sendable_def)
  then obtain ch where ch: "channel_write A junk 3 vs (Some (channel_create junk)) = Some (Done (Ret [PInt STATUS_OPEN] (Some ch)))"
      "chan_rel A ch (vs, False)" "c_cond ch = c_cond (channel_create junk) @ [Signal]"
    using channel_write_open_rel [OF chan_rel_create, of A vs junk junk 3] assms(3,4) by (auto simp: sizes)
  have "wake [Signal] \<lparr>w_ch = ch, waiting = {1, 2}, trying = {}\<rparr> \<lparr>w_ch = ch, waiting = {2}, trying = {1}\<rparr>"
    using wake_signal [OF _ wake_none, of 1 "\<lparr>w_ch = ch, waiting = {1, 2}, trying = {}\<rparr>"] by (simp add: insert_Diff_if)
  with step_write [OF assms(1,2), of "\<lparr>w_ch = channel_create junk, waiting = {1, 2}, trying = {}\<rparr>" junk 3 "[PInt STATUS_OPEN]" ch]
  have "sync_step A junk d lim \<lparr>w_ch = channel_create junk, waiting = {1, 2}, trying = {}\<rparr>
      \<lparr>w_ch = ch, waiting = {2}, trying = {1}\<rparr>"
    using ch assms(3,4) by (simp add: sizes)
  with reach_step [OF two_waiting] ch(2) show ?thesis by blast
qed

lemma small_sendable: "sendable small_lua 2 (LBoolean b)"
  by (simp add: sendable_def stack_ok_def list_all_iff)

section \<open>Properties\<close>

text \<open>
  C8: No wake-up is lost when every write has one value: in every reachable state in which a reader
  waits and the channel has a value, another reader is on its way, and its next round returns the first value.
  Nobody waits on a closed channel.
\<close>

theorem channel_no_lost_wakeup:
  assumes "reachable A junk d 1 w" and "t \<in> waiting w"
  shows "\<not> c_closed (w_ch w) \<and>
    (c_num_items (w_ch w) \<noteq> 0 \<longrightarrow> (\<exists>u \<in> trying w. \<exists>v ch.
      channel_read A d u False (Some (w_ch w)) = Done (Ret [PInt STATUS_OPEN, PVal v] (Some ch))))"
proof (intro conjI impI)
  obtain vs closed where inv: "chan_rel A (w_ch w) (vs, closed)" "list_all (sendable A d) vs"
      "no_lost_wakeup vs closed (waiting w) (trying w)"
    using reachable_inv [OF assms(1)] by (rule sync_invE)
  have closed: "\<not> closed" using inv(3) assms(2) by (auto simp: no_lost_wakeup_def)
  then show "\<not> c_closed (w_ch w)" using inv(1) by (simp add: chan_rel_def)
  assume "c_num_items (w_ch w) \<noteq> 0"
  then obtain v us where vs: "vs = v # us" using inv(1) by (cases vs) (auto simp: chan_rel_def)
  then have "0 < card (trying w)" using inv(3) assms(2) by (auto simp: no_lost_wakeup_def)
  then obtain u where "u \<in> trying w" by (auto simp: card_gt_0_iff)
  moreover have "\<exists>v ch. channel_read A d u False (Some (w_ch w)) = Done (Ret [PInt STATUS_OPEN, PVal v] (Some ch))"
    using channel_read_rel [of A "w_ch w" v us closed d u False] inv(1,2) vs closed by auto
  ultimately show "\<exists>u \<in> trying w. \<exists>v ch.
    channel_read A d u False (Some (w_ch w)) = Done (Ret [PInt STATUS_OPEN, PVal v] (Some ch))" by blast
qed

theorem channel_no_lost_wakeup_witness:
  "\<exists>w :: world. 2 \<in> waiting w \<and> c_num_items (w_ch w) = 1 \<and> \<not> c_closed (w_ch w) \<and> (\<exists>u \<in> trying w. \<exists>v ch.
     channel_read small_lua 2 u False (Some (w_ch w)) = Done (Ret [PInt STATUS_OPEN, PVal v] (Some ch)))"
proof -
  obtain ch where ch: "reachable small_lua (\<lambda>_. 0) 2 1 \<lparr>w_ch = ch, waiting = {2}, trying = {1}\<rparr>"
      "chan_rel small_lua ch ([LBoolean True], False)"
    using one_woken [of "[LBoolean True]" 1 small_lua 2 "\<lambda>_. 0"] small_sendable
    by (auto simp: args_cost_def max_object_def)
  show ?thesis
    using channel_no_lost_wakeup [OF ch(1), of 2] ch(2)
    by - (rule exI [of _ "\<lparr>w_ch = ch, waiting = {2}, trying = {1}\<rparr>"], simp add: chan_rel_def)
qed

text \<open>
  C37: A wake-up can be lost when one write has two values: the handler signals once, so that of two waiting
  readers one wakes and takes the first value, and the other stays asleep beside an open channel that holds
  the second, with no reader on its way.
\<close>

theorem channel_lost_wakeup:
  "\<exists>w. reachable small_lua junk 2 2 w \<and> waiting w = {2} \<and> trying w = {} \<and>
     c_num_items (w_ch w) = 1 \<and> \<not> c_closed (w_ch w)"
proof -
  obtain ch where ch: "reachable small_lua junk 2 2 \<lparr>w_ch = ch, waiting = {2}, trying = {1}\<rparr>"
      "chan_rel small_lua ch ([LBoolean True, LBoolean False], False)"
    using one_woken [of "[LBoolean True, LBoolean False]" 2 small_lua 2 junk] small_sendable
    by (auto simp: args_cost_def max_object_def)
  obtain out ch' where ch': "channel_read small_lua 2 1 False (Some ch) = Done (Ret out (Some ch'))"
      "chan_rel small_lua ch' ([LBoolean False], False)"
    using channel_read_rel [OF ch(2) small_sendable, of 1 False] by auto
  have "new_calls ch ch' = []"
    using channel_read_cond [OF ch(2) ch'(1)] by (simp add: new_calls_def)
  then have "sync_step small_lua junk 2 2 \<lparr>w_ch = ch, waiting = {2}, trying = {1}\<rparr> \<lparr>w_ch = ch', waiting = {2}, trying = {}\<rparr>"
    using step_return [of 1 "\<lparr>w_ch = ch, waiting = {2}, trying = {1}\<rparr>" small_lua 2 out ch'] ch'(1)
    by (simp add: wake_none)
  with ch(1) have "reachable small_lua junk 2 2 \<lparr>w_ch = ch', waiting = {2}, trying = {}\<rparr>" by (rule reach_step)
  with ch'(2) show ?thesis by (auto simp: chan_rel_def)
qed

end
