(* ===== verification/Os.thy ===== *)
theory Os
  imports LuaValue
begin

text \<open>
  The operating system as the library uses it: system calls whose results the system decides, and
  byte streams behind descriptors, of which a call moves as many bytes as the system likes. The
  system is an argument; what a theorem needs of it is a hypothesis, such as \<open>streams_ok\<close>.
\<close>

section \<open>System calls\<close>

datatype syscall =
    SysGetaddrinfo "byte list option" "byte list option" | SysSocket | SysBind cint | SysListen cint
  | SysGetsockname cint | SysConnect cint | SysAccept cint | SysSelect "cint list" | SysSleep
  | SysGettimeofday | SysSend cint nat | SysRecv cint nat | SysPeek cint nat | SysClose cint
  | SysWrite cint nat | SysRead cint nat | SysPipe | SysKill cint int | SysWaitpid cint | SysWaitid cint
  | SysActionsInit | SysActionsDup2 cint cint | SysActionsClose cint | SysActionsDestroy
  | SysAttrInit | SysAttrDestroy | SysSpawnp "byte list" "byte list option list" "byte list option list option"
  | SysOpen "byte list" cint | SysFlock cint cint | SysSetsockopt cint int int int | SysGetpeername cint

text \<open>
  \<open>k_ret K c x\<close> is the result of the \<open>c\<close>-th system call, which is \<open>x\<close>; a negative result stands for a failure with
  that \<open>errno\<close>. \<open>k_out\<close> are the values the call stores through its pointer arguments. \<open>gai_strerror\<close> is the
  function of that name.
\<close>

record kernel =
  k_ret :: "nat \<Rightarrow> syscall \<Rightarrow> int"
  k_out :: "nat \<Rightarrow> syscall \<Rightarrow> int list"
  k_gai_strerror :: "int \<Rightarrow> string"

text \<open>
  The state of the system as one process sees it: the calls made so far, \<open>errno\<close>, what was written to each
  descriptor, and what can still be read from it: \<open>incoming\<close> are all the bytes the other end sends, whenever they arrive,
  and \<open>hangup\<close> says that it then closes its end.
\<close>

record os =
  trace :: "syscall list"
  errno :: int
  outgoing :: "cint \<Rightarrow> byte list"
  incoming :: "cint \<Rightarrow> byte list"
  hangup :: "cint \<Rightarrow> bool"

definition sys :: "kernel \<Rightarrow> syscall \<Rightarrow> os \<Rightarrow> int \<times> int list \<times> os" where
  "sys K x s =
     (let c = length (trace s); r = k_ret K c x; s = s\<lparr>trace := trace s @ [x]\<rparr> in
      if r < 0 then (- 1, [], s\<lparr>errno := - r\<rparr>) else (r, k_out K c x, s))"

text \<open>Functions that return the error instead of setting \<open>errno\<close>.\<close>

definition sys_plain :: "kernel \<Rightarrow> syscall \<Rightarrow> os \<Rightarrow> int \<times> int list \<times> os" where
  "sys_plain K x s =
     (let c = length (trace s) in (k_ret K c x, k_out K c x, s\<lparr>trace := trace s @ [x]\<rparr>))"

definition out_cint :: "int list \<Rightarrow> nat \<Rightarrow> cint" where
  "out_cint out i = (if i < length out then of_int (out ! i) else 0)"

section \<open>Byte streams\<close>

text \<open>
  \<open>stream_write K x fd bs\<close> offers the bytes \<open>bs\<close> with the call \<open>x\<close>, which takes a prefix of them. \<open>stream_read K x fd n\<close>
  asks for at most \<open>n\<close> bytes: it waits until there are some, returns 0 when the other end is closed, and never returns
  (\<open>None\<close>) when the other end neither sends nor closes.
\<close>

definition stream_write :: "kernel \<Rightarrow> syscall \<Rightarrow> cint \<Rightarrow> byte list \<Rightarrow> os \<Rightarrow> int \<times> os" where
  "stream_write K x fd bs s =
     (case sys K x s of (r, _, s) \<Rightarrow>
        (r, s\<lparr>outgoing := (outgoing s)(fd := outgoing s fd @ take (nat r) bs)\<rparr>))"

definition stream_read :: "kernel \<Rightarrow> syscall \<Rightarrow> cint \<Rightarrow> nat \<Rightarrow> os \<Rightarrow> (int \<times> byte list \<times> os) option" where
  "stream_read K x fd n s =
     (case sys K x s of (r, _, s) \<Rightarrow>
        if r < 0 then Some (r, [], s)
        else if incoming s fd = [] \<and> 0 < n then (if hangup s fd then Some (0, [], s) else None)
        else let m = min (nat r) (min n (length (incoming s fd))) in
          Some (int m, take m (incoming s fd), s\<lparr>incoming := (incoming s)(fd := drop m (incoming s fd))\<rparr>))"

text \<open>
  A stream that works: every transfer of at least one byte succeeds and moves at least one byte and at most what was
  asked for, as \<open>send\<close>, \<open>recv\<close>, \<open>read\<close> and \<open>write\<close> on blocking descriptors do when there is no error.
\<close>

fun transfer_size :: "syscall \<Rightarrow> nat option" where
  "transfer_size (SysSend fd n) = Some n"
| "transfer_size (SysRecv fd n) = Some n"
| "transfer_size (SysWrite fd n) = Some n"
| "transfer_size (SysRead fd n) = Some n"
| "transfer_size _ = None"

definition streams_ok :: "kernel \<Rightarrow> bool" where
  "streams_ok K \<longleftrightarrow> (\<forall>c x n. transfer_size x = Some n \<longrightarrow> 0 < n \<longrightarrow> 0 < k_ret K c x \<and> k_ret K c x \<le> int n)"

text \<open>A system that moves at most three bytes at a time and answers every other call with 0.\<close>

definition small_kernel :: kernel where
  "small_kernel =
     \<lparr>k_ret = (\<lambda>c x. case transfer_size x of None \<Rightarrow> 0 | Some n \<Rightarrow> int (min n 3)),
      k_out = (\<lambda>c x. []), k_gai_strerror = (\<lambda>e. [])\<rparr>"

definition small_os :: os where
  "small_os = \<lparr>trace = [], errno = 0, outgoing = (\<lambda>_. []), incoming = (\<lambda>_. []), hangup = (\<lambda>_. False)\<rparr>"

lemma small_kernel_streams_ok [simp]: "streams_ok small_kernel"
  by (simp add: streams_ok_def small_kernel_def split: option.splits)

lemma sys_simps [simp]:
  "outgoing (snd (snd (sys K x s))) = outgoing s" "incoming (snd (snd (sys K x s))) = incoming s"
  "hangup (snd (snd (sys K x s))) = hangup s"
  by (simp_all add: sys_def Let_def)

text \<open>Two states of the system that have the same streams, whatever calls were made in between.\<close>

definition same_streams :: "os \<Rightarrow> os \<Rightarrow> bool" where
  "same_streams s s' \<longleftrightarrow> outgoing s' = outgoing s \<and> incoming s' = incoming s \<and> hangup s' = hangup s"

lemma stream_write_ok:
  assumes "streams_ok K" and "transfer_size x = Some (length bs)" and "bs \<noteq> []"
  obtains m s' where "stream_write K x fd bs s = (int m, s')" and "0 < m" and "m \<le> length bs"
    and "outgoing s' = (outgoing s)(fd := outgoing s fd @ take m bs)" and "incoming s' = incoming s" and "hangup s' = hangup s"
proof -
  let ?r = "k_ret K (length (trace s)) x"
  have r: "0 < ?r" "?r \<le> int (length bs)" using assms by (auto simp: streams_ok_def)
  then show thesis
    by (intro that [of "nat ?r" "s\<lparr>trace := trace s @ [x], outgoing := (outgoing s)(fd := outgoing s fd @ take (nat ?r) bs)\<rparr>"])
      (auto simp: stream_write_def sys_def Let_def)
qed

lemma stream_read_ok:
  assumes "streams_ok K" and "transfer_size x = Some n" and "0 < n" and "incoming s fd \<noteq> []"
  obtains m s' where "stream_read K x fd n s = Some (int m, take m (incoming s fd), s')" and "0 < m" and "m \<le> n"
    and "m \<le> length (incoming s fd)"
    and "incoming s' = (incoming s)(fd := drop m (incoming s fd))" and "outgoing s' = outgoing s" and "hangup s' = hangup s"
proof -
  let ?r = "k_ret K (length (trace s)) x"
  have r: "0 < ?r" using assms by (auto simp: streams_ok_def)
  let ?m = "min (nat ?r) (min n (length (incoming s fd)))"
  show thesis
    using r assms(3,4)
    by (intro that [of ?m "s\<lparr>trace := trace s @ [x], incoming := (incoming s)(fd := drop ?m (incoming s fd))\<rparr>"])
      (simp_all add: stream_read_def sys_def Let_def)
qed

lemma stream_read_hangup:
  assumes "incoming s fd = []" and "hangup s fd" and "0 < n" and "0 \<le> k_ret K (length (trace s)) x"
  shows "stream_read K x fd n s = Some (0, [], s\<lparr>trace := trace s @ [x]\<rparr>)"
  using assms by (simp add: stream_read_def sys_def Let_def)

text \<open>
  A transfer leaves the other streams alone; \<open>wrote\<close> and \<open>took\<close> say what it does to the stream of the
  descriptor.
\<close>

definition wrote :: "cint \<Rightarrow> byte list \<Rightarrow> os \<Rightarrow> os \<Rightarrow> bool" where
  "wrote sock bs s s' \<longleftrightarrow> outgoing s' = (outgoing s)(sock := outgoing s sock @ bs) \<and> incoming s' = incoming s \<and> hangup s' = hangup s"

definition took :: "cint \<Rightarrow> byte list \<Rightarrow> os \<Rightarrow> os \<Rightarrow> bool" where
  "took sock bs s s' \<longleftrightarrow> incoming s sock = bs @ incoming s' sock \<and> (\<forall>fd. fd \<noteq> sock \<longrightarrow> incoming s' fd = incoming s fd) \<and>
     outgoing s' = outgoing s \<and> hangup s' = hangup s"

lemma wrote_trans: "wrote sock b1 s s1 \<Longrightarrow> wrote sock b2 s1 s2 \<Longrightarrow> wrote sock (b1 @ b2) s s2"
  by (auto simp: wrote_def)

lemma took_trans: "took sock b1 s s1 \<Longrightarrow> took sock b2 s1 s2 \<Longrightarrow> took sock (b1 @ b2) s s2"
  by (auto simp: took_def)

text \<open>
  A loop that writes bytes until none are left, with \<open>step\<close> what it notes of each call: it ends, and has written them all.
\<close>

locale stream_writer =
  fixes K :: kernel and fd :: cint and call :: "nat \<Rightarrow> syscall" and loop :: "byte list \<Rightarrow> 'c \<Rightarrow> os \<Rightarrow> 'r"
    and step :: "nat \<Rightarrow> 'c \<Rightarrow> 'c" and finish :: "'c \<Rightarrow> os \<Rightarrow> 'r"
  assumes call_size: "transfer_size (call n) = Some n"
    and loop_done: "loop [] c s = finish c s"
    and loop_step: "bs \<noteq> [] \<Longrightarrow> stream_write K (call (length bs)) fd bs s = (int m, s') \<Longrightarrow>
      loop bs c s = loop (drop m bs) (step m c) s'"
begin

lemma writes_all:
  assumes "streams_ok K"
  shows "\<exists>ms s'. loop bs c s = finish (fold step ms c) s' \<and> sum_list ms = length bs \<and> wrote fd bs s s'"
proof (induction "length bs" arbitrary: bs c s rule: less_induct)
  case less
  show ?case
  proof (cases "bs = []")
    case True
    then show ?thesis by (intro exI [of _ "[]"] exI [of _ s]) (simp add: wrote_def loop_done)
  next
    case False
    obtain m s1 where w: "stream_write K (call (length bs)) fd bs s = (int m, s1)" "0 < m" "m \<le> length bs"
        and s1: "wrote fd (take m bs) s s1"
      by (rule stream_write_ok [OF assms call_size False, where fd = fd and s = s]) (simp add: wrote_def)
    have "length (drop m bs) < length bs" using w(2) False by simp
    from less.hyps [OF this, of "step m c" s1] obtain ms s' where
        r: "loop (drop m bs) (step m c) s1 = finish (fold step ms (step m c)) s'" "sum_list ms = length bs - m"
          "wrote fd (drop m bs) s1 s'" by auto
    have "wrote fd bs s s'" using wrote_trans [OF s1 r(3)] by simp
    then show ?thesis
      using loop_step [OF False w(1)] r w(3) by (intro exI [of _ "m # ms"] exI [of _ s']) simp
  qed
qed

end

text \<open>
  A loop that reads until the other end is closed, asking for \<open>room\<close> bytes each time: it ends, and has read everything that was sent.
\<close>

locale stream_reader =
  fixes K :: kernel and fd :: cint and call :: "nat \<Rightarrow> syscall" and loop :: "'c \<Rightarrow> os \<Rightarrow> 'r"
    and room :: "'c \<Rightarrow> nat" and step :: "'c \<Rightarrow> byte list \<Rightarrow> 'c" and finish :: "'c \<Rightarrow> os \<Rightarrow> 'r"
  assumes call_size: "transfer_size (call n) = Some n"
    and room_step: "0 < room c \<Longrightarrow> 0 < length bs \<Longrightarrow> length bs \<le> room c \<Longrightarrow> 0 < room (step c bs)"
    and loop_step: "0 < room c \<Longrightarrow> 0 < m \<Longrightarrow> stream_read K (call (room c)) fd (room c) s = Some (int m, bs, s') \<Longrightarrow>
      loop c s = loop (step c bs) s'"
    and loop_end: "0 < room c \<Longrightarrow> stream_read K (call (room c)) fd (room c) s = Some (0, [], s') \<Longrightarrow> loop c s = finish c s'"
begin

lemma reads_all:
  assumes "streams_ok K"
  shows "hangup s fd \<Longrightarrow> 0 < room c \<Longrightarrow>
    \<exists>bss s'. loop c s = finish (foldl step c bss) s' \<and> concat bss = incoming s fd \<and> took fd (incoming s fd) s s'"
proof (induction "length (incoming s fd)" arbitrary: c s rule: less_induct)
  case less
  have ret: "0 < k_ret K (length (trace s)) (call (room c))" using assms call_size less.prems(2) by (simp add: streams_ok_def)
  show ?case
  proof (cases "incoming s fd = []")
    case True
    then have "stream_read K (call (room c)) fd (room c) s = Some (0, [], s\<lparr>trace := trace s @ [call (room c)]\<rparr>)"
      using less.prems ret by (intro stream_read_hangup) simp_all
    from loop_end [OF less.prems(2) this] True show ?thesis
      by (intro exI [of _ "[]"]) (auto simp: took_def)
  next
    case False
    let ?bs = "incoming s fd"
    obtain m s1 where r: "stream_read K (call (room c)) fd (room c) s = Some (int m, take m ?bs, s1)" "0 < m" "m \<le> room c" "m \<le> length ?bs"
        and s1: "took fd (take m ?bs) s s1" "incoming s1 fd = drop m ?bs" "hangup s1 fd"
      by (rule stream_read_ok [OF assms call_size less.prems(2) False]) (use less.prems(1) in \<open>simp_all add: took_def\<close>)
    have "0 < room (step c (take m ?bs))" using r less.prems(2) by (intro room_step) simp_all
    then obtain bss s' where ih: "loop (step c (take m ?bs)) s1 = finish (foldl step (step c (take m ?bs)) bss) s'"
        "concat bss = drop m ?bs" "took fd (drop m ?bs) s1 s'"
      using less.hyps [of s1 "step c (take m ?bs)"] s1 r False by auto
    have "took fd ?bs s s'" using took_trans [OF s1(1) ih(3)] by simp
    then show ?thesis
      using loop_step [OF less.prems(2) r(2,1)] ih by (intro exI [of _ "take m ?bs # bss"] exI [of _ s']) simp
  qed
qed

end

section \<open>Descriptors\<close>

text \<open>Closing works.\<close>

definition closes_ok :: "kernel \<Rightarrow> bool" where
  "closes_ok K \<longleftrightarrow> (\<forall>c fd. k_ret K c (SysClose fd) = 0)"

text \<open>
  The descriptors a process has from its calls: \<open>open_fds K calls\<close> are those that some call returned and that were not closed
  afterwards. A descriptor is gone after \<open>close\<close> even if that reports an error, as on Linux.
\<close>

fun fds_step :: "kernel \<Rightarrow> nat \<Rightarrow> syscall \<Rightarrow> cint set \<Rightarrow> cint set" where
  "fds_step K c SysPipe H =
     (if k_ret K c SysPipe = 0 then H \<union> {out_cint (k_out K c SysPipe) 0, out_cint (k_out K c SysPipe) 1} else H)"
| "fds_step K c (SysOpen name flags) H =
     (if 0 \<le> k_ret K c (SysOpen name flags) then insert (of_int (k_ret K c (SysOpen name flags))) H else H)"
| "fds_step K c (SysClose fd) H = H - {fd}"
| "fds_step K c _ H = H"

fun fds_after :: "kernel \<Rightarrow> nat \<Rightarrow> syscall list \<Rightarrow> cint set \<Rightarrow> cint set" where
  "fds_after K c [] H = H"
| "fds_after K c (x # xs) H = fds_after K (c + 1) xs (fds_step K c x H)"

definition open_fds :: "kernel \<Rightarrow> os \<Rightarrow> cint set" where
  "open_fds K s = fds_after K 0 (trace s) {}"

lemma fds_after_snoc: "fds_after K c (xs @ [x]) H = fds_step K (c + length xs) x (fds_after K c xs H)"
  by (induction xs arbitrary: c H) simp_all

lemma open_fds_sys [simp]:
  "open_fds K (snd (snd (sys K x s))) = fds_step K (length (trace s)) x (open_fds K s)"
  "open_fds K (snd (snd (sys_plain K x s))) = fds_step K (length (trace s)) x (open_fds K s)"
  by (simp_all add: open_fds_def sys_def sys_plain_def Let_def fds_after_snoc)

lemma open_fds_sysD: "sys K x s = (r, out, s') \<Longrightarrow> open_fds K s' = fds_step K (length (trace s)) x (open_fds K s)"
  using open_fds_sys(1) [of K x s] by simp

lemma open_fds_streams [simp]: "open_fds K (outgoing_update f s) = open_fds K s" "open_fds K (incoming_update f s) = open_fds K s"
  by (simp_all add: open_fds_def)

lemma small_kernel_closes_ok [simp]: "closes_ok small_kernel"
  by (simp add: closes_ok_def small_kernel_def)

end
