(* ===== verification/Sockets.thy ===== *)
theory Sockets
  imports Deserialize Os
begin

text \<open>
  The messages of \<^verbatim>\<open>src/cliser.c\<close>: sending and receiving bytes over a socket in as many calls as the system
  makes of it, and values framed by their length. The contract of a connection is that the values
  sent at one end are received at the other, in order.
\<close>

section \<open>Model\<close>

definition SEND_RECV_SIZE :: size_t where "SEND_RECV_SIZE = 16 * 1024"

definition LEN_INVALID :: size_t where "LEN_INVALID = 0xFFFFFFFFFFFFFFFF"

text \<open>The counters; the members that add up seconds are left out.\<close>

record net_stats =
  num_bytes :: "64 word"
  num_regions :: "64 word"
  num_calls :: "64 word"
  num_system_calls :: "64 word"
  cuda_ipc_bytes :: "64 word"

text \<open>
  The memory of another process that is open through CUDA: \<open>rp_dev_ptr\<close> is the own address of the allocation with the handle \<open>rp_handle\<close>, and \<open>rp_ptr\<close> and
  \<open>rp_count\<close> are the address and the number of elements that the process at the other end of the socket \<open>rp_sock\<close> gave with it.
\<close>

record remote_ptr =
  rp_handle :: "byte list"
  rp_ptr :: "64 word"
  rp_dev_ptr :: "64 word"
  rp_count :: size_t
  rp_sock :: cint

text \<open>
  The members up to \<open>in_flight\<close> exist in builds with CUDA only, and \<open>use_fastpath\<close> is 0 in the others. \<open>num_remote_ptrs\<close> is the length of the list. \<open>cu_buf\<close> are the contents
  of the two buffers, once they are allocated. \<open>in_flight\<close> names the buffer of each asynchronous copy that may still be running, in the
  order the copies were started, and \<open>event\<close>, once it is created, is the number of them it waits for.
\<close>

record copy_context =
  event :: "nat option"
  remote_ptrs :: "remote_ptr list"
  max_remote_ptrs :: nat
  cu_buf :: "(bool \<Rightarrow> byte list) option"
  in_flight :: "bool list"
  tx :: net_stats
  rx :: net_stats
  use_fastpath :: cint

text \<open>
  \<open>ptr\<close> are the bytes still to be sent, so that \<open>rem\<close> is their number. \<open>None\<close> is the loop that does not end.
\<close>

partial_function (option) send_loop ::
    "kernel \<Rightarrow> cint \<Rightarrow> byte list \<Rightarrow> net_stats \<Rightarrow> os \<Rightarrow> (bool \<times> net_stats \<times> os) option" where
  "send_loop K sock ptr st s =
     (if ptr = [] then Some (True, st, s)
      else case stream_write K (SysSend sock (length ptr)) sock ptr s of (ret, s) \<Rightarrow>
        let st = st\<lparr>num_system_calls := num_system_calls st + 1\<rparr> in
        if ret < 0 then Some (False, st, s)
        else send_loop K sock (drop (nat ret) ptr) (st\<lparr>num_bytes := num_bytes st + of_int ret\<rparr>) s)"

definition sock_send :: "kernel \<Rightarrow> cint \<Rightarrow> byte list \<Rightarrow> copy_context \<times> os \<Rightarrow> (size_t \<times> copy_context \<times> os) option" where
  "sock_send K sock bs = (\<lambda>(cc, s).
     (case send_loop K sock bs (tx cc) s of
        None \<Rightarrow> None
      | Some (done, st, s) \<Rightarrow> Some (if done then of_nat (length bs) else 0, cc\<lparr>tx := st\<rparr>, s)))"

text \<open>
  \<open>acc\<close> are the bytes stored so far. A \<open>recv\<close> that returns 0, because the other end is closed, is not an
  error to the loop.
\<close>

partial_function (option) recv_loop ::
    "kernel \<Rightarrow> cint \<Rightarrow> nat \<Rightarrow> byte list \<Rightarrow> net_stats \<Rightarrow> os \<Rightarrow> (bool \<times> byte list \<times> net_stats \<times> os) option" where
  "recv_loop K sock rem acc st s =
     (if rem = 0 then Some (True, acc, st, s)
      else case stream_read K (SysRecv sock rem) sock rem s of
        None \<Rightarrow> None
      | Some (ret, bs, s) \<Rightarrow>
        let st = st\<lparr>num_system_calls := num_system_calls st + 1\<rparr> in
        if ret < 0 then Some (False, acc, st, s)
        else recv_loop K sock (rem - nat ret) (acc @ bs) (st\<lparr>num_bytes := num_bytes st + of_int ret\<rparr>) s)"

definition sock_recv ::
    "kernel \<Rightarrow> cint \<Rightarrow> size_t \<Rightarrow> copy_context \<times> os \<Rightarrow> (size_t \<times> byte list \<times> copy_context \<times> os) option" where
  "sock_recv K sock len = (\<lambda>(cc, s).
     (case recv_loop K sock (unat len) [] (rx cc) s of
        None \<Rightarrow> None
      | Some (done, bs, st, s) \<Rightarrow> Some (if done then len else 0, bs, cc\<lparr>rx := st\<rparr>, s)))"

text \<open>
  The callers keep the result of type \<open>size_t\<close> in an \<open>int\<close>, test its sign and compare it, extended again,
  with the length: \<open>checked ret len what s\<close> is the error they raise.
\<close>

definition checked :: "size_t \<Rightarrow> size_t \<Rightarrow> string \<Rightarrow> os \<Rightarrow> lua_error option" where
  "checked ret len what s =
     (let ret = (ucast ret :: cint) in
      if sint ret < 0 then Some (lua_handle_error (errno s))
      else if (scast ret :: size_t) \<noteq> len then Some (LuaErrStr (''failed to '' @ what @ '' the correct number of bytes''))
      else None)"

type_synonym ('s, 'a) net_result = "('s, 'a) lres option"

definition sock_send_raw :: "kernel \<Rightarrow> cint \<Rightarrow> byte list \<Rightarrow> copy_context \<times> os \<Rightarrow> (copy_context \<times> os, unit) net_result" where
  "sock_send_raw K sock bs cs =
     (case sock_send K sock bs cs of
        None \<Rightarrow> None
      | Some (ret, cc, s) \<Rightarrow>
          (case checked ret (of_nat (length bs)) ''send'' s of
             Some e \<Rightarrow> Some (Raise e (cc, s)) | None \<Rightarrow> Some (Ret () (cc, s))))"

definition sock_recv_raw :: "kernel \<Rightarrow> cint \<Rightarrow> size_t \<Rightarrow> copy_context \<times> os \<Rightarrow> (copy_context \<times> os, byte list) net_result" where
  "sock_recv_raw K sock len cs =
     (case sock_recv K sock len cs of
        None \<Rightarrow> None
      | Some (ret, bs, cc, s) \<Rightarrow>
          (case checked ret len ''recv'' s of
             Some e \<Rightarrow> Some (Raise e (cc, s)) | None \<Rightarrow> Some (Ret bs (cc, s))))"

type_synonym sock_state = "ringbuffer \<times> copy_context \<times> os"

text \<open>
  \<open>sock_send_msg\<close>: the value \<open>v\<close> is at \<open>index\<close> of a Lua stack with \<open>height\<close> values. When it cannot be saved, the error is
  raised with the bytes written so far still in the buffer.
\<close>

definition sock_send_msg ::
    "lua_api \<Rightarrow> kernel \<Rightarrow> nat \<Rightarrow> nat \<Rightarrow> lua_value \<Rightarrow> cint \<Rightarrow> sock_state \<Rightarrow> (sock_state, lua_value list) net_result" where
  "sock_send_msg A K height index v sock = (\<lambda>(rb, cc, s).
     (case rb_save A True 0 index v \<lparr>srb = ringbuffer_push_write_pos rb, ltop = height, retained = []\<rparr> of
        Abort f \<Rightarrow> Some (Abort f)
      | Raise e w \<Rightarrow> Some (Raise e (srb w, cc, s))
      | Ret ret w \<Rightarrow>
          if ret \<noteq> 0 then Some (Raise (lua_handle_error ret) (srb w, cc, s))
          else
            let len = ringbuffer_peek (srb w); rb = ringbuffer_pop_write_pos (srb w) in
            (case sock_send K sock (le_bytes 8 len) (cc, s) of
               None \<Rightarrow> None
             | Some (ret, cc, s) \<Rightarrow>
                 (case checked ret 8 ''send'' s of
                    Some e \<Rightarrow> Some (Raise e (rb, cc, s))
                  | None \<Rightarrow>
                      (case mem_read (ringbuffer_buf_ptr rb) 0 (unat len) of
                         Crash f \<Rightarrow> Some (Abort f)
                       | Ok bs \<Rightarrow>
                           (case sock_send K sock bs (cc, s) of
                              None \<Rightarrow> None
                            | Some (ret, cc, s) \<Rightarrow>
                                (case checked ret len ''send'' s of
                                   Some e \<Rightarrow> Some (Raise e (rb, cc, s))
                                 | None \<Rightarrow> Some (Ret [] (rb, cc, s)))))))))"

text \<open>
  \<open>sock_recv_msg\<close>: the bytes go straight into the memory of the ring buffer, whose read position is then put at its
  beginning and whose write position is moved over them. \<open>junk\<close> is what the uninitialised variable \<open>len\<close> holds, which is
  compared with \<open>LEN_INVALID\<close> before the result of \<open>recv\<close> is looked at.
\<close>

definition sock_recv_msg ::
    "lua_api \<Rightarrow> kernel \<Rightarrow> nat \<Rightarrow> (nat \<Rightarrow> byte) \<Rightarrow> cint \<Rightarrow> sock_state \<Rightarrow> (sock_state, lua_value list) net_result" where
  "sock_recv_msg A K d junk sock = (\<lambda>(rb, cc, s).
     (case sock_recv K sock 8 (cc, s) of
        None \<Rightarrow> None
      | Some (ret, bs, cc, s) \<Rightarrow>
          let len = le_word (bs @ map junk [length bs..<8]) :: size_t in
          if len = LEN_INVALID then Some (Raise (LuaErrStr (''remote peer disconnected'' @ [CHR 0x0A])) (rb, cc, s))
          else (case checked ret 8 ''recv'' s of
            Some e \<Rightarrow> Some (Raise e (rb, cc, s))
          | None \<Rightarrow>
              if len > SEND_RECV_SIZE then Some (Raise (LuaErrStr ''message size is too large'') (rb, cc, s))
              else (case sock_recv K sock len (cc, s) of
                None \<Rightarrow> None
              | Some (ret, bs, cc, s) \<Rightarrow>
                  (case mem_write (ringbuffer_buf_ptr rb) 0 bs 0 (length bs) of
                     Crash f \<Rightarrow> Some (Abort f)
                   | Ok m \<Rightarrow>
                       let rb = rb\<lparr>buf := m\<rparr> in
                       (case checked ret len ''recv'' s of
                          Some e \<Rightarrow> Some (Raise e (rb, cc, s))
                        | None \<Rightarrow>
                            let rb = ringbuffer_push_write_pos (ringbuffer_reset_read_pos rb); n = scast (ucast ret :: cint) in
                            (case ringbuffer_write rb None n of
                               Crash f \<Rightarrow> Some (Abort f)
                             | Ok (i, rb) \<Rightarrow>
                                 if i \<noteq> n then
                                   Some (Raise (LuaErrStr ''failed to write the correct number of bytes into the ringbuffer'')
                                     (ringbuffer_pop_write_pos rb, cc, s))
                                 else (case rb_load A d rb of
                                     Abort f \<Rightarrow> Some (Abort f)
                                   | Raise e rb \<Rightarrow> Some (Raise e (rb, cc, s))
                                   | Ret (LoadErr e) rb \<Rightarrow> Some (Raise (lua_handle_error e) (rb, cc, s))
                                   | Ret LoadEnd rb \<Rightarrow> Some (Ret [] (rb, cc, s))
                                   | Ret (LoadVal v) rb \<Rightarrow> Some (Ret [v] (rb, cc, s))))))))))"

text \<open>
  \<open>sock_recv_msg_peek\<close> looks at the bytes that are there without taking them, first at the length, then from the
  beginning again at as many bytes as the length says, which it leaves in the buffer's memory. The result is
  positive when that many bytes are there.
\<close>

definition EAGAIN :: int where "EAGAIN = 11"

definition stream_peek :: "kernel \<Rightarrow> cint \<Rightarrow> nat \<Rightarrow> os \<Rightarrow> int \<times> byte list \<times> os" where
  "stream_peek K fd n s =
     (case sys K (SysPeek fd n) s of (r, _, s) \<Rightarrow>
        if r < 0 then (r, [], s)
        else if incoming s fd = [] then (if hangup s fd then (0, [], s) else (- 1, [], s\<lparr>errno := EAGAIN\<rparr>))
        else let m = min (nat r) (min n (length (incoming s fd))) in (int m, take m (incoming s fd), s))"

definition sock_recv_msg_peek :: "kernel \<Rightarrow> cint \<Rightarrow> ringbuffer \<times> os \<Rightarrow> (ringbuffer \<times> os, int) lres" where
  "sock_recv_msg_peek K sock = (\<lambda>(rb, s).
     (case stream_peek K sock 8 s of (ret, bs, s) \<Rightarrow>
        if ret < 0 then
          if errno s = EAGAIN then Ret 0 (rb, s) else Raise (lua_handle_error (errno s)) (rb, s)
        else if ret \<noteq> 8 then Ret 0 (rb, s)
        else
          let len = le_word bs :: size_t in
          if len > SEND_RECV_SIZE then Raise (LuaErrStr ''message size is too large'') (rb, s)
          else (case stream_peek K sock (unat len) s of (ret, bs, s) \<Rightarrow>
            (case mem_write (ringbuffer_buf_ptr rb) 0 bs 0 (length bs) of
               Crash f \<Rightarrow> Abort f
             | Ok m \<Rightarrow>
                 let rb = rb\<lparr>buf := m\<rparr> in
                 if ret < 0 then
                   if errno s = EAGAIN then Ret 0 (rb, s) else Raise (lua_handle_error (errno s)) (rb, s)
                 else if ret \<noteq> int (unat len) then Ret 0 (rb, s)
                 else Ret ret (rb, s)))))"

declare send_loop.simps [code] recv_loop.simps [code]

section \<open>Bytes\<close>

interpretation sender: stream_writer K sock "SysSend sock" "send_loop K sock"
  "\<lambda>m st. st\<lparr>num_system_calls := num_system_calls st + 1, num_bytes := num_bytes st + of_nat m\<rparr>" "\<lambda>st s. Some (True, st, s)" for K sock
  by unfold_locales (simp_all add: send_loop.simps)

lemma fold_sent:
  "num_bytes (fold (\<lambda>m st. st\<lparr>num_system_calls := num_system_calls st + 1, num_bytes := num_bytes st + of_nat m\<rparr>) ms st) =
     num_bytes st + of_nat (sum_list ms)"
  "num_calls (fold (\<lambda>m st. st\<lparr>num_system_calls := num_system_calls st + 1, num_bytes := num_bytes st + of_nat m\<rparr>) ms st) = num_calls st"
  by (induction ms arbitrary: st) (simp_all add: add.assoc)

lemma send_loop_ok:
  assumes "streams_ok K"
  shows "\<exists>st' s'. send_loop K sock bs st s = Some (True, st', s') \<and> wrote sock bs s s' \<and>
    num_bytes st' = num_bytes st + of_nat (length bs) \<and> num_calls st' = num_calls st"
  using sender.writes_all [OF assms, of sock bs st s] by (auto simp: fold_sent)

lemma recv_loop_ok:
  assumes "streams_ok K"
  shows "incoming s sock = bs @ rest \<Longrightarrow> \<exists>st' s'. recv_loop K sock (length bs) acc st s = Some (True, acc @ bs, st', s') \<and> took sock bs s s' \<and>
    num_bytes st' = num_bytes st + of_nat (length bs) \<and> num_calls st' = num_calls st"
proof (induction "length bs" arbitrary: bs acc st s rule: less_induct)
  case less
  show ?case
  proof (cases "bs = []")
    case True
    then show ?thesis by (subst recv_loop.simps) (simp add: took_def)
  next
    case False
    let ?x = "SysRecv sock (length bs)"
    obtain m s1 where w: "stream_read K ?x sock (length bs) s = Some (int m, take m bs, s1)" "0 < m" "m \<le> length bs"
        and s1: "took sock (take m bs) s s1" "incoming s1 sock = drop m bs @ rest"
      by (rule stream_read_ok [OF assms, where n = "length bs" and x = ?x and fd = sock and s = s])
        (use False less.prems in \<open>simp_all add: took_def\<close>)
    let ?st = "st\<lparr>num_system_calls := num_system_calls st + 1, num_bytes := num_bytes st + of_nat m\<rparr>"
    have "length (drop m bs) < length bs" using w(2) False by simp
    from less.hyps [OF this s1(2), of "acc @ take m bs" ?st] obtain st' s' where
        r: "recv_loop K sock (length bs - m) (acc @ take m bs) ?st s1 = Some (True, acc @ bs, st', s')" "took sock (drop m bs) s1 s'"
          "num_bytes st' = num_bytes st + of_nat m + of_nat (length (drop m bs))" "num_calls st' = num_calls st"
      by auto
    have "took sock bs s s'" using took_trans [OF s1(1) r(2)] by simp
    moreover have "(of_nat m :: 64 word) + of_nat (length bs - m) = of_nat (length bs)"
      using w(3) by (metis le_add_diff_inverse of_nat_add)
    ultimately show ?thesis
      using r w(1) False by (subst recv_loop.simps) (simp add: add.assoc)
  qed
qed

text \<open>
  A receive for more than the other end sends never returns: it waits, or, once the other end has closed, \<open>recv\<close> returns 0 again and
  again.
\<close>

lemma recv_loop_short:
  assumes "recv_loop K sock rem acc st s = Some r"
  shows "streams_ok K \<Longrightarrow> rem \<le> length (incoming s sock)"
proof (induction K sock rem acc st s r rule: recv_loop.raw_induct)
  case (1 f K sock rem acc st s r)
  let ?x = "SysRecv sock rem"
  have k: "0 < rem \<Longrightarrow> 0 \<le> k_ret K (length (trace s)) ?x"
    using "1.prems" by (fastforce simp: streams_ok_def intro: less_imp_le)
  show ?case
  proof (rule ccontr)
    assume short: "\<not> rem \<le> length (incoming s sock)"
    consider "incoming s sock = []" "hangup s sock" | "incoming s sock = []" "\<not> hangup s sock" | "incoming s sock \<noteq> []" by blast
    then show False
    proof cases
      case 1
      then have "stream_read K ?x sock rem s = Some (0, [], s\<lparr>trace := trace s @ [?x]\<rparr>)"
        using short k by (intro stream_read_hangup) simp_all
      with 1 short "1.hyps" "1.prems"
        "1.IH" [of K sock rem acc "st\<lparr>num_system_calls := num_system_calls st + 1\<rparr>" "s\<lparr>trace := trace s @ [?x]\<rparr>" r]
      show False by simp
    next
      case 2
      with short k "1.hyps" show False by (simp add: stream_read_def sys_def Let_def)
    next
      case 3
      obtain m s1 where w: "stream_read K ?x sock rem s = Some (int m, take m (incoming s sock), s1)" "m \<le> rem"
          "m \<le> length (incoming s sock)" "incoming s1 sock = drop m (incoming s sock)"
        by (rule stream_read_ok [OF "1.prems", where n = rem and x = ?x and fd = sock and s = s]) (use 3 short in simp_all)
      have "rem \<noteq> 0" using short by simp
      with w "1.hyps" "1.prems" "1.IH" [of K sock "rem - m" "acc @ take m (incoming s sock)"
          "st\<lparr>num_system_calls := num_system_calls st + 1, num_bytes := num_bytes st + of_nat m\<rparr>" s1 r]
      have "rem - m \<le> length (incoming s1 sock)" by simp
      with w short show False by simp
    qed
  qed
qed (rule assms)

lemma sock_recv_short:
  assumes "streams_ok K" and "length (incoming s sock) < unat len"
  shows "sock_recv K sock len (cc, s) = None"
proof -
  have "recv_loop K sock (unat len) [] (rx cc) s = None"
    using recv_loop_short [of K sock "unat len" "[]" "rx cc" s] assms
    by (cases "recv_loop K sock (unat len) [] (rx cc) s") auto
  then show ?thesis by (simp add: sock_recv_def)
qed

lemma small_int:
  assumes "unat (len :: size_t) < 2 ^ 31"
  shows "0 \<le> sint (ucast len :: cint)" and "scast (ucast len :: cint) = len"
proof -
  have "int (unat len) < int (2 ^ 31)" using assms by (simp only: of_nat_less_iff)
  then have "uint len < 2 ^ 31" by simp
  then have si: "sint (ucast len :: cint) = uint len"
    using signed_take_bit_int_eq_self [of 31 "uint len"] uint_ge_0 [of len] by (simp add: signed_ucast_eq)
  then show "0 \<le> sint (ucast len :: cint)" by simp
  have "scast (ucast len :: cint) = (of_int (sint (ucast len :: cint)) :: size_t)" by (simp only: of_int_sint)
  also have "\<dots> = len" by (simp only: si of_int_uint ucast_id)
  finally show "scast (ucast len :: cint) = len" .
qed

lemma checked_ok: "unat len < 2 ^ 31 \<Longrightarrow> checked len len what s = None"
  using small_int [of len] by (simp add: checked_def)

lemma sock_send_ok:
  assumes "streams_ok K"
  obtains cc' s' where "sock_send K sock bs (cc, s) = Some (of_nat (length bs), cc', s')" and "wrote sock bs s s'"
    and "rx cc' = rx cc" and "use_fastpath cc' = use_fastpath cc" and "num_calls (tx cc') = num_calls (tx cc)"
    and "num_bytes (tx cc') = num_bytes (tx cc) + of_nat (length bs)"
  using send_loop_ok [OF assms, of sock bs "tx cc" s] that by (fastforce simp: sock_send_def)

lemma sock_recv_ok:
  assumes "streams_ok K" and "incoming s sock = bs @ rest" and "length bs = unat len"
  obtains cc' s' where "sock_recv K sock len (cc, s) = Some (len, bs, cc', s')" and "took sock bs s s'"
    and "incoming s' sock = rest" and "tx cc' = tx cc" and "use_fastpath cc' = use_fastpath cc"
    and "num_calls (rx cc') = num_calls (rx cc)" and "num_bytes (rx cc') = num_bytes (rx cc) + len"
  using recv_loop_ok [OF assms(1,2), of "[]" "rx cc"] that assms(2,3) by (fastforce simp: sock_recv_def took_def)

section \<open>Messages\<close>

definition frame :: "lua_api \<Rightarrow> lua_value \<Rightarrow> byte list" where
  "frame A v = le_bytes 8 (of_nat (length (encode A 0 v)) :: size_t) @ encode A 0 v"

definition sendable :: "lua_api \<Rightarrow> lua_value \<Rightarrow> bool" where
  "sendable A v \<longleftrightarrow> savable A True 0 v \<and> length (encode A 0 v) \<le> unat SEND_RECV_SIZE"

text \<open>The buffer of a sender and of a receiver between two messages.\<close>

definition idle :: "ringbuffer \<Rightarrow> bool" where
  "idle rb \<longleftrightarrow> rb_inv rb \<and> content rb = [] \<and> rp rb = 0 \<and> cb rb = SEND_RECV_SIZE"

definition ready :: "ringbuffer \<Rightarrow> bool" where
  "ready rb \<longleftrightarrow> rb_bounds rb \<and> content rb = [] \<and> cb rb = SEND_RECV_SIZE"

lemma SEND_RECV_SIZE_nat [simp]: "unat SEND_RECV_SIZE = 16384"
  by (simp add: SEND_RECV_SIZE_def)

lemma idle_create [simp]: "idle (ringbuffer_create junk SEND_RECV_SIZE)"
  using rb_inv_create [of SEND_RECV_SIZE junk]
  by (simp add: idle_def max_object_def word_less_nat_alt) (simp add: ringbuffer_create_def)

lemma idle_ready: "idle rb \<Longrightarrow> ready rb"
  by (auto simp: idle_def ready_def)

lemma message_len:
  assumes "n \<le> 16384"
  shows "unat (of_nat n :: size_t) = n" and "(of_nat n :: size_t) \<noteq> LEN_INVALID" and "\<not> (of_nat n :: size_t) > SEND_RECV_SIZE"
proof -
  show n: "unat (of_nat n :: size_t) = n" using assms by (intro unat_of_nat_size) simp
  show "\<not> (of_nat n :: size_t) > SEND_RECV_SIZE" using n assms by (simp add: word_less_nat_alt)
  show "(of_nat n :: size_t) \<noteq> LEN_INVALID"
  proof
    assume "(of_nat n :: size_t) = LEN_INVALID"
    then have "unat (of_nat n :: size_t) = 18446744073709551615" by (simp add: LEN_INVALID_def)
    with n assms show False by simp
  qed
qed

text \<open>The bytes of a message, saved into an idle buffer, are at the beginning of its memory.\<close>

lemma save_message:
  assumes "sendable A v" and "idle rb" and "index \<le> height"
  obtains w where "rb_save A True 0 index v \<lparr>srb = ringbuffer_push_write_pos rb, ltop = height, retained = []\<rparr> = Ret 0 w"
    and "ringbuffer_peek (srb w) = of_nat (length (encode A 0 v))" and "idle (ringbuffer_pop_write_pos (srb w))"
    and "mem_read (ringbuffer_buf_ptr (ringbuffer_pop_write_pos (srb w))) 0 (length (encode A 0 v)) = Ok (encode A 0 v)"
proof -
  let ?s = "\<lparr>srb = ringbuffer_push_write_pos rb, ltop = height, retained = []\<rparr>"
  have rb: "rb_inv rb" "content rb = []" "rp rb = 0" "cb rb = SEND_RECV_SIZE" using assms(2) by (auto simp: idle_def)
  have "fits ?s (encode A 0 v)" using assms(1) rb by (simp add: fits_def sendable_def)
  then obtain w where w: "rb_save A True 0 index v ?s = Ret 0 w" "appended ?s (encode A 0 v) w"
    using rb_save_spec(1) [of A True 0 v ?s index] assms(1,3) rb(1) by (auto simp: save_spec_def sendable_def)
  have w': "rb_inv (srb w)" "content (srb w) = encode A 0 v" "unat (cb (srb w)) = 16384" "rp (srb w) = 0" "rb_mark [] (srb w)"
    using w(2) rb rb_mark_push [OF rb(1)] by (auto simp: appended_def stuck_def)
  have n: "unat (rcb (srb w)) = length (encode A 0 v)" using w'(2) length_content [of "srb w"] by simp
  have cb: "cb (srb w) = SEND_RECV_SIZE" using w'(3) by (simp add: word_unat_eq_iff)
  have "mem_read (buf (srb w)) 0 (length (encode A 0 v)) = Ok (encode A 0 v)"
    using take_content [of "length (encode A 0 v)" "srb w"] w' n assms(1)
    by (simp add: mem_read_def rb_inv_def rb_bounds_def sendable_def)
  moreover have "idle (ringbuffer_pop_write_pos (srb w))"
    using rb_mark_pop [OF w'(5)] w'(4) cb by (simp add: idle_def) (simp add: ringbuffer_pop_write_pos_def)
  moreover have "ringbuffer_peek (srb w) = of_nat (length (encode A 0 v))"
    using n by (simp add: ringbuffer_peek_def eq_of_nat_size)
  ultimately show thesis
    using that w(1) by (simp add: ringbuffer_buf_ptr_def ringbuffer_pop_write_pos_def)
qed

lemma sock_send_msg_ok:
  assumes "streams_ok K" and "sendable A v" and "idle rb" and "index \<le> height"
  obtains rb' cc' s' where "sock_send_msg A K height index v sock (rb, cc, s) = Some (Ret [] (rb', cc', s'))"
    and "idle rb'" and "wrote sock (frame A v) s s'" and "rx cc' = rx cc" and "num_calls (tx cc') = num_calls (tx cc)"
proof -
  let ?n = "length (encode A 0 v)"
  have n: "?n \<le> 16384" using assms(2) by (simp add: sendable_def)
  obtain w where w: "rb_save A True 0 index v \<lparr>srb = ringbuffer_push_write_pos rb, ltop = height, retained = []\<rparr> = Ret 0 w"
      "ringbuffer_peek (srb w) = of_nat ?n" "idle (ringbuffer_pop_write_pos (srb w))"
      "mem_read (ringbuffer_buf_ptr (ringbuffer_pop_write_pos (srb w))) 0 ?n = Ok (encode A 0 v)"
    by (rule save_message [OF assms(2-4)])
  obtain c1 s1 where s1: "sock_send K sock (le_bytes 8 (of_nat ?n :: size_t)) (cc, s) = Some (8, c1, s1)"
      "wrote sock (le_bytes 8 (of_nat ?n :: size_t)) s s1" "rx c1 = rx cc" "num_calls (tx c1) = num_calls (tx cc)"
    by (rule sock_send_ok [OF assms(1), where bs = "le_bytes 8 (of_nat ?n :: size_t)" and cc = cc and s = s and sock = sock]) simp
  obtain c2 s2 where s2: "sock_send K sock (encode A 0 v) (c1, s1) = Some (of_nat ?n, c2, s2)"
      "wrote sock (encode A 0 v) s1 s2" "rx c2 = rx c1" "num_calls (tx c2) = num_calls (tx c1)"
    by (rule sock_send_ok [OF assms(1), where bs = "encode A 0 v" and cc = c1 and s = s1 and sock = sock]) simp
  have "wrote sock (frame A v) s s2" using wrote_trans [OF s1(2) s2(2)] by (simp add: frame_def)
  moreover have "sock_send_msg A K height index v sock (rb, cc, s) = Some (Ret [] (ringbuffer_pop_write_pos (srb w), c2, s2))"
    using w s1(1) s2(1) message_len(1) [OF n] n by (simp add: sock_send_msg_def checked_ok)
  ultimately show thesis using that w(3) s1(3,4) s2(3,4) by simp
qed

text \<open>Moving the write position over bytes that are in the memory already.\<close>

lemma ringbuffer_write_skip:
  assumes "rb_bounds rb" and "rcb rb = 0" and "unat n \<le> unat (cb rb)"
  obtains rb' where "ringbuffer_write rb None n = Ok (n, rb')" and "rb_bounds rb'" and "rcb rb' = n"
    and "rp rb' = rp rb" and "cb rb' = cb rb" and "buf rb' = buf rb"
proof -
  have b: "unat (wp rb) < unat (cb rb)" "unat (cb rb) < 2 ^ 63" using assms(1) by (auto simp: rb_bounds_def max_object_def)
  have i: "c_min n (cb rb) = n" using assms(3) by (auto simp: word_unat_eq_iff unat_c_min)
  have sum: "unat (wp rb + n) = unat (wp rb) + unat n" using b assms(3) by (intro unat_add_small) simp
  show thesis
  proof (cases "wp rb + n < cb rb")
    case True
    then have "rb_bounds (rb\<lparr>wp := wp rb + n, rcb := n\<rparr>)"
      using assms b by (auto simp: rb_bounds_def word_less_nat_alt)
    with True show thesis
      by (intro that [of "rb\<lparr>wp := wp rb + n, rcb := n\<rparr>"]) (simp_all add: ringbuffer_write_def assms(2) i)
  next
    case False
    have "cb rb \<noteq> 0" using b by auto
    moreover have "rb_bounds (rb\<lparr>wp := (wp rb + n) mod cb rb, rcb := n\<rparr>)"
      using assms b by (auto simp: rb_bounds_def unat_mod)
    ultimately show thesis
      using False by (intro that [of "rb\<lparr>wp := (wp rb + n) mod cb rb, rcb := n\<rparr>"]) (simp_all add: ringbuffer_write_def assms(2) i Let_def)
  qed
qed

lemma receive_bytes:
  assumes "ready rb" and "length bs = unat n" and "unat n \<le> 16384"
  obtains m rb' where "mem_write (ringbuffer_buf_ptr rb) 0 bs 0 (length bs) = Ok m"
    and "ringbuffer_write (ringbuffer_push_write_pos (ringbuffer_reset_read_pos (rb\<lparr>buf := m\<rparr>))) None n = Ok (n, rb')"
    and "rb_bounds rb'" and "content rb' = bs" and "cb rb' = SEND_RECV_SIZE"
proof -
  have rb: "rb_bounds rb" "cb rb = SEND_RECV_SIZE" "rcb rb = 0"
    using assms(1) length_content [of rb] by (auto simp: ready_def word_unat_eq_iff)
  obtain m where m: "mem_write (buf rb) 0 bs 0 (length bs) = Ok m" "msize m = msize (buf rb)" "\<forall>k < length bs. mdata m k = bs ! k"
    using rb assms(2,3) by (auto simp: mem_write_Ok rb_bounds_def)
  let ?rb = "ringbuffer_push_write_pos (ringbuffer_reset_read_pos (rb\<lparr>buf := m\<rparr>))"
  have r: "rb_bounds ?rb" "rcb ?rb = 0" "cb ?rb = SEND_RECV_SIZE" "rp ?rb = 0" "buf ?rb = m"
    using rb m(2) by (auto simp: rb_bounds_def ringbuffer_push_write_pos_def ringbuffer_reset_read_pos_def)
  then have "unat n \<le> unat (cb ?rb)" using assms(3) by simp
  with r(1,2) obtain rb' where rb': "ringbuffer_write ?rb None n = Ok (n, rb')" "rb_bounds rb'" "rcb rb' = n" "rp rb' = rp ?rb"
      "cb rb' = cb ?rb" "buf rb' = buf ?rb"
    by (rule ringbuffer_write_skip)
  have "content rb' = bs"
    using rb' r m(3) assms(2,3) by (intro nth_equalityI) (auto simp: content_def)
  with m(1) rb' r show thesis by (intro that [of m rb']) (simp_all add: ringbuffer_buf_ptr_def)
qed

lemma sock_recv_msg_ok:
  assumes "streams_ok K" and "ready rb" and "incoming s sock = frame A v @ rest" and "length (encode A 0 v) \<le> 16384"
    and "reload A 0 v = Some v'" and "stack_ok A d (slots 0 v)"
  obtains rb' cc' s' where "sock_recv_msg A K d junk sock (rb, cc, s) = Some (Ret [v'] (rb', cc', s'))"
    and "ready rb'" and "took sock (frame A v) s s'" and "incoming s' sock = rest"
    and "tx cc' = tx cc" and "num_calls (rx cc') = num_calls (rx cc)"
proof -
  let ?n = "length (encode A 0 v)" and ?len = "of_nat (length (encode A 0 v)) :: size_t"
  note len = message_len [OF assms(4)]
  have in1: "incoming s sock = le_bytes 8 ?len @ encode A 0 v @ rest" using assms(3) by (simp add: frame_def)
  obtain c1 s1 where s1: "sock_recv K sock 8 (cc, s) = Some (8, le_bytes 8 ?len, c1, s1)"
      "took sock (le_bytes 8 ?len) s s1" "incoming s1 sock = encode A 0 v @ rest" "tx c1 = tx cc" "num_calls (rx c1) = num_calls (rx cc)"
    by (rule sock_recv_ok [OF assms(1) in1, where len = 8 and cc = cc]) simp_all
  obtain c2 s2 where s2: "sock_recv K sock ?len (c1, s1) = Some (?len, encode A 0 v, c2, s2)"
      "took sock (encode A 0 v) s1 s2" "incoming s2 sock = rest" "tx c2 = tx c1" "num_calls (rx c2) = num_calls (rx c1)"
    by (rule sock_recv_ok [OF assms(1) s1(3), where len = ?len and cc = c1]) (simp_all add: len)
  obtain m rb1 where rb1: "mem_write (ringbuffer_buf_ptr rb) 0 (encode A 0 v) 0 ?n = Ok m"
      "ringbuffer_write (ringbuffer_push_write_pos (ringbuffer_reset_read_pos (rb\<lparr>buf := m\<rparr>))) None ?len = Ok (?len, rb1)"
      "rb_bounds rb1" "content rb1 = encode A 0 v @ []" "cb rb1 = SEND_RECV_SIZE"
    by (rule receive_bytes [OF assms(2), of "encode A 0 v" ?len]) (use len(1) assms(4) in simp_all)
  obtain rb' where rb': "rb_load A d rb1 = Ret (LoadVal v') rb'" "rb_bounds rb'" "content rb' = []" "unat (cb rb') = unat (cb rb1)"
    using received.rb_load_front [OF assms(5) rb1(3,4) assms(6)] by (auto simp: received.loaded_def)
  have "ready rb'" using rb' rb1(5) by (simp add: ready_def word_unat_eq_iff)
  moreover have "took sock (frame A v) s s2" using took_trans [OF s1(2) s2(2)] by (simp add: frame_def)
  moreover have "sock_recv_msg A K d junk sock (rb, cc, s) = Some (Ret [v'] (rb', c2, s2))"
    using s1(1) s2(1) rb1(1,2) rb'(1) len small_int(2) [of ?len] assms(4) by (simp add: sock_recv_msg_def checked_ok Let_def)
  ultimately show thesis using that s1(4,5) s2(3-5) by simp
qed

end
