(* ===== verification/DList.thy ===== *)
theory DList
  imports Prelude
begin

text \<open>
  Doubly linked lists through the objects they link, as the registry of workqueues and the
  client lists of a server keep them: the contract of insert and remove on the pointers as a
  locale, and that they then insert and remove a list element.
\<close>

type_synonym addr = nat

text \<open>
  \<open>linked s x\<close>: the object takes part in the list at all. \<open>ins\<close> puts an object in front, \<open>del\<close> takes one
  out; their laws are the assignments of the code, the pointers of other objects unchanged.
\<close>

locale intrusive_list =
  fixes head :: "'s \<Rightarrow> addr option" and nxt prv :: "'s \<Rightarrow> addr \<Rightarrow> addr option"
    and linked :: "'s \<Rightarrow> addr \<Rightarrow> bool" and ins del :: "addr \<Rightarrow> 's \<Rightarrow> 's"
  assumes head_ins: "linked s x \<Longrightarrow> head (ins x s) = Some x"
    and nxt_ins: "linked s x \<Longrightarrow> nxt (ins x s) = (case head s of None \<Rightarrow> nxt s | Some h \<Rightarrow> (nxt s)(x := Some h))"
    and prv_ins: "linked s x \<Longrightarrow> prv (ins x s) = (case head s of None \<Rightarrow> prv s | Some h \<Rightarrow> (prv s)(h := Some x))"
    and head_del: "linked s x \<Longrightarrow> head (del x s) = (if head s = Some x then nxt s x else head s)"
    and prv_del: "linked s x \<Longrightarrow> prv (del x s) = (case nxt s x of None \<Rightarrow> prv s | Some n \<Rightarrow> (prv s)(n := prv s x))"
    and nxt_del: "linked s x \<Longrightarrow> nxt (del x s) = (case prv s x of None \<Rightarrow> nxt s | Some p \<Rightarrow> (nxt s)(p := nxt s x))"
begin

text \<open>\<open>chain s p xs e\<close>: the objects \<open>xs\<close> are linked in this order, with \<open>p\<close> before the first and \<open>e\<close> after the last.\<close>

fun chain :: "'s \<Rightarrow> addr option \<Rightarrow> addr list \<Rightarrow> addr option \<Rightarrow> bool" where
  "chain s p [] e = True"
| "chain s p (x # xs) e = (prv s x = p \<and> nxt s x = (if xs = [] then e else Some (hd xs)) \<and> chain s (Some x) xs e)"

definition dlist :: "'s \<Rightarrow> addr list \<Rightarrow> bool" where
  "dlist s xs \<longleftrightarrow> distinct xs \<and> head s = (if xs = [] then None else Some (hd xs)) \<and> chain s None xs None"

lemma chain_append:
  "chain s p (ys @ zs) e \<longleftrightarrow> chain s p ys (if zs = [] then e else Some (hd zs)) \<and>
     chain s (if ys = [] then p else Some (last ys)) zs e"
  by (induction ys arbitrary: p) (auto simp: hd_append)

lemma chain_cong:
  "chain s p xs e \<Longrightarrow> (\<And>x. x \<in> set xs \<Longrightarrow> prv s' x = prv s x \<and> nxt s' x = nxt s x) \<Longrightarrow> chain s' p xs e"
  by (induction xs arbitrary: p) auto

lemma dlist_cong:
  "dlist s xs \<Longrightarrow> head s' = head s \<Longrightarrow> prv s' = prv s \<Longrightarrow> nxt s' = nxt s \<Longrightarrow> dlist s' xs"
  by (auto simp: dlist_def intro: chain_cong)

text \<open>A new end of the list: only the last object's pointer changes, and likewise for its beginning.\<close>

lemma chain_new_end:
  assumes "chain s p xs e" and "distinct xs" and "xs \<noteq> []"
    and "\<And>x. x \<in> set xs \<Longrightarrow> prv s' x = prv s x"
    and "\<And>x. x \<in> set xs \<Longrightarrow> nxt s' x = (if x = last xs then e' else nxt s x)"
  shows "chain s' p xs e'"
  using assms
proof (induction xs arbitrary: p)
  case (Cons x xs)
  then show ?case by (cases "xs = []") auto
qed simp

lemma chain_new_begin:
  assumes "chain s p (x # xs) e" and "prv s' x = p'" and "nxt s' x = nxt s x"
    and "\<And>y. y \<in> set xs \<Longrightarrow> prv s' y = prv s y \<and> nxt s' y = nxt s y"
  shows "chain s' p' (x # xs) e"
  using assms chain_cong [of s "Some x" xs e s'] by simp

lemma ins_dlist:
  assumes "dlist s xs" and "linked s x" and "x \<notin> set xs" and "prv s x = None" and "nxt s x = None"
  shows "dlist (ins x s) (x # xs)"
proof (cases xs)
  case Nil
  then show ?thesis using assms by (simp add: dlist_def head_ins nxt_ins prv_ins)
next
  case (Cons h ys)
  have head: "head s = Some h" and c: "chain s None (h # ys) None" and d: "distinct (h # ys)"
    using assms(1) by (simp_all add: dlist_def Cons)
  have "chain (ins x s) (Some x) (h # ys) None"
    by (rule chain_new_begin [OF c]) (use assms(2,3) d in \<open>auto simp: head nxt_ins prv_ins Cons\<close>)
  then show ?thesis
    using assms d by (simp add: dlist_def head_ins nxt_ins prv_ins head Cons)
qed

lemma del_dlist:
  assumes "dlist s (ys @ x # zs)" and "linked s x"
  shows "dlist (del x s) (ys @ zs)"
proof -
  let ?n = "if zs = [] then None else Some (hd zs)" and ?p = "if ys = [] then None else Some (last ys)"
  have c: "chain s None ys (Some x)" "prv s x = ?p" "nxt s x = ?n" "chain s (Some x) zs None"
    and d: "distinct (ys @ x # zs)" and head: "head s = Some (if ys = [] then x else hd ys)"
    using assms(1) by (auto simp: dlist_def chain_append hd_append)
  have prv: "prv (del x s) = (if zs = [] then prv s else (prv s)(hd zs := ?p))"
    and nxt: "nxt (del x s) = (if ys = [] then nxt s else (nxt s)(last ys := ?n))"
    using assms(2) c by (simp_all add: prv_del nxt_del)
  have "chain (del x s) None ys ?n"
  proof (cases "ys = []")
    case False
    show ?thesis
      by (rule chain_new_end [OF c(1)]) (use d False in \<open>auto simp: prv nxt\<close>)
  qed simp
  moreover have "chain (del x s) ?p zs None"
  proof (cases zs)
    case (Cons z ws)
    then have z: "chain s (Some x) (z # ws) None" using c(4) by simp
    have "last ys \<notin> set zs" if "ys \<noteq> []" using d that by (meson disjoint_iff distinct_append last_in_set list.set_intros(2))
    with z d show ?thesis
      unfolding Cons by (intro chain_new_begin [OF z]) (auto simp: prv nxt Cons)
  qed simp
  ultimately show ?thesis
    using assms(2) c(3) d head by (auto simp: dlist_def chain_append head_del hd_append)
qed

end

end
