(* ===== verification/Cliser.thy ===== *)
theory Cliser
  imports Sockets DList "HOL-Library.Multiset"
begin

text \<open>
  Clients and servers, \<^verbatim>\<open>src/cliser.c\<close>: the list of a server's clients, the handlers of server, server client and
  client, and what the messages of \<open>Sockets\<close> make of them. Builds without CUDA are modelled.
\<close>

section \<open>Model\<close>

definition DEFAULT_TIMEOUT_SECONDS :: int where "DEFAULT_TIMEOUT_SECONDS = 5 * 60"

definition DEFAULT_HOST :: "byte list" where "DEFAULT_HOST = [49, 50, 55, 46, 48, 46, 48, 46, 49]"

record client =
  cl_sock :: cint
  cl_next :: "addr option"
  cl_prev :: "addr option"
  send_rb :: ringbuffer
  recv_rb :: ringbuffer
  cl_context :: copy_context
  cl_tag :: "byte list option"
  cl_id :: cint
  cl_ref_count :: cint

record server =
  sv_sock :: cint
  sv_clients :: "addr option"
  num_clients :: uint32
  sv_context :: copy_context
  ip_address :: uint32

text \<open>
  A process with one server: the client objects by address, those of them that are allocated, the address \<open>calloc\<close>
  returns next, the operating system, and \<open>store\<close>, the memory behind the userdata that know how to send themselves.
\<close>

record 'm process =
  clients :: "addr \<Rightarrow> client"
  alive :: "addr set"
  next_addr :: addr
  server :: server
  net :: os
  store :: 'm

definition set_client :: "addr \<Rightarrow> (client \<Rightarrow> client) \<Rightarrow> 'm process \<Rightarrow> 'm process" where
  "set_client a f w = w\<lparr>clients := (clients w)(a := f (clients w a))\<rparr>"

definition set_server :: "(server \<Rightarrow> server) \<Rightarrow> 'm process \<Rightarrow> 'm process" where
  "set_server f w = w\<lparr>server := f (server w)\<rparr>"

definition insert_client :: "addr \<Rightarrow> 'm process \<Rightarrow> 'm process" where
  "insert_client a w =
     (let w = (case sv_clients (server w) of
            None \<Rightarrow> w
          | Some h \<Rightarrow> set_client a (\<lambda>c. c\<lparr>cl_next := Some h\<rparr>) (set_client h (\<lambda>c. c\<lparr>cl_prev := Some a\<rparr>) w))
      in set_server (\<lambda>s. s\<lparr>sv_clients := Some a, num_clients := num_clients s + 1\<rparr>) w)"

definition remove_client :: "addr \<Rightarrow> 'm process \<Rightarrow> 'm process" where
  "remove_client a w =
     (let w = (if sv_clients (server w) = Some a then set_server (\<lambda>s. s\<lparr>sv_clients := cl_next (clients w a)\<rparr>) w else w);
          w = (case cl_next (clients w a) of None \<Rightarrow> w
               | Some n \<Rightarrow> set_client n (\<lambda>c. c\<lparr>cl_prev := cl_prev (clients w a)\<rparr>) w);
          w = (case cl_prev (clients w a) of None \<Rightarrow> w
               | Some p \<Rightarrow> set_client p (\<lambda>c. c\<lparr>cl_next := cl_next (clients w a)\<rparr>) w)
      in set_server (\<lambda>s. s\<lparr>num_clients := num_clients s - 1\<rparr>) w)"

type_synonym ('m, 'a) proc_result = "('m process, 'a) lres"

text \<open>
  \<open>destroy_client\<close>: the peer is told with a length no message has, in a single \<open>send\<close> whose result is not looked at.
\<close>

definition destroy_client :: "kernel \<Rightarrow> addr \<Rightarrow> 'm process \<Rightarrow> ('m, unit) proc_result" where
  "destroy_client K a w =
     (if a \<notin> alive w then Abort OutOfBounds
      else
        let sock = cl_sock (clients w a) in
        if sock \<noteq> 0 then
          let (_, s) = stream_write K (SysSend sock 8) sock (le_bytes 8 LEN_INVALID) (net w);
              (ret, _, s) = sys K (SysClose sock) s;
              w = w\<lparr>net := s\<rparr>
          in if ret \<noteq> 0 then Raise (lua_handle_error (errno s)) w
             else Ret () ((set_client a (\<lambda>c. c\<lparr>cl_sock := 0\<rparr>) w)\<lparr>alive := alive w - {a}\<rparr>)
        else Ret () (w\<lparr>alive := alive w - {a}\<rparr>))"

text \<open>The loop over the list, which reads the next pointer before it frees a client.\<close>

partial_function (option) destroy_clients :: "kernel \<Rightarrow> addr option \<Rightarrow> 'm process \<Rightarrow> ('m, unit) proc_result option" where
  "destroy_clients K p w =
     (case p of
        None \<Rightarrow> Some (Ret () w)
      | Some a \<Rightarrow>
          if a \<notin> alive w then Some (Abort OutOfBounds)
          else (case destroy_client K a w of
              Ret _ w' \<Rightarrow> destroy_clients K (cl_next (clients w a)) w'
            | r \<Rightarrow> Some r))"

definition destroy_server :: "kernel \<Rightarrow> 'm process \<Rightarrow> ('m, unit) proc_result option" where
  "destroy_server K w =
     (let sock = sv_sock (server w);
          (ret, _, s) = (if sock \<noteq> 0 then sys K (SysClose sock) (net w) else (0, [], net w));
          w = w\<lparr>net := s\<rparr>
      in if ret \<noteq> 0 then Some (Raise (lua_handle_error (errno s)) w)
         else (case destroy_clients K (sv_clients (server w)) (set_server (\<lambda>v. v\<lparr>sv_sock := 0\<rparr>) w) of
             Some (Ret _ w) \<Rightarrow> Some (Ret () (set_server (\<lambda>v. v\<lparr>sv_clients := None, num_clients := 0\<rparr>) w))
           | r \<Rightarrow> r))"

text \<open>The size of \<open>struct sockaddr\<close> is 16 bytes; \<open>getaddrinfo\<close> stores the length of the address it found.\<close>

definition get_sockaddr :: "kernel \<Rightarrow> byte list \<Rightarrow> byte list option \<Rightarrow> os \<Rightarrow> (os, unit) lres" where
  "get_sockaddr K host port s =
     (case sys_plain K (SysGetaddrinfo (Some host) port) s of (ret, out, s) \<Rightarrow>
        if ret \<noteq> 0 then Raise (LuaErrStr (k_gai_strerror K ret)) s
        else if 16 < out_cint out 0 then Raise (lua_handle_error ENOMEM) s
        else Ret () s)"

text \<open>
  \<open>configure_socket\<close> does not look at the results of its calls. The numbers are those of Linux: \<open>TCP_NODELAY\<close>, \<open>SO_KEEPALIVE\<close>, and the idle time, interval and number of
  the probes.
\<close>

definition configure_socket :: "kernel \<Rightarrow> cint \<Rightarrow> os \<Rightarrow> os" where
  "configure_socket K sock s =
     fold (\<lambda>x s. snd (snd (sys K x s)))
       [SysSetsockopt sock 6 1 1, SysSetsockopt sock 1 9 1, SysSetsockopt sock 6 4 60, SysSetsockopt sock 6 5 30, SysSetsockopt sock 6 6 8] s"

definition empty_stats :: net_stats where
  "empty_stats = \<lparr>num_bytes = 0, num_regions = 0, num_calls = 0, num_system_calls = 0, cuda_ipc_bytes = 0\<rparr>"

definition empty_context :: copy_context where
  "empty_context = \<lparr>event = None, remote_ptrs = [], max_remote_ptrs = 0, cu_buf = None, in_flight = [], tx = empty_stats, rx = empty_stats, use_fastpath = 0\<rparr>"

text \<open>
  \<open>cliser_server\<close>: \<open>port\<close> is \<open>port_str\<close>, \<open>None\<close> for port 0. The result is the new server and its port.
\<close>

definition cliser_server :: "kernel \<Rightarrow> byte list option \<Rightarrow> byte list option \<Rightarrow> os \<Rightarrow> (os, server \<times> int) lres" where
  "cliser_server K host port s =
     (case get_sockaddr K (case host of None \<Rightarrow> DEFAULT_HOST | Some h \<Rightarrow> h) port s of
        Abort f \<Rightarrow> Abort f | Raise e s \<Rightarrow> Raise e s
      | Ret _ s \<Rightarrow>
          let (ret, _, s) = sys K SysSocket s in
          if ret \<le> 0 then Raise (lua_handle_error (errno s)) s
          else
            let sock = of_int ret;
                fail = (\<lambda>s. let (_, _, s) = sys K (SysClose sock) s in Raise (lua_handle_error (errno s)) s);
                (ret, _, s) = sys K (SysBind sock) s in
            if ret \<noteq> 0 then fail s
            else
              let (ret, _, s) = sys K (SysListen sock) s in
              if ret \<noteq> 0 then fail s
              else
                let (ret, out, s) = sys K (SysGetsockname sock) s in
                if ret \<noteq> 0 then fail s
                else Ret (\<lparr>sv_sock = sock, sv_clients = None, num_clients = 0, sv_context = empty_context,
                            ip_address = out_cint out 0\<rparr>, sint (out_cint out 1)) s)"

text \<open>
  The loop of \<open>cliser_client\<close> until \<open>connect\<close> succeeds or the time is over: the last result of \<open>connect\<close> and the last
  socket, which is closed already when that result is not 0.
\<close>

definition seconds :: "kernel \<Rightarrow> os \<Rightarrow> int \<times> os" where
  "seconds K s = (case sys_plain K SysGettimeofday s of (_, out, s) \<Rightarrow> (if out = [] then 0 else hd out, s))"

partial_function (option) connect_loop :: "kernel \<Rightarrow> int \<Rightarrow> int \<Rightarrow> int \<Rightarrow> cint \<Rightarrow> os \<Rightarrow> (os, int \<times> cint) lres option" where
  "connect_loop K t tv ret sock s =
     (if tv < t then
        let (ret, _, s) = sys K SysSocket s in
        if ret \<le> 0 then Some (Raise (lua_handle_error (errno s)) s)
        else
          let sock = of_int ret; s = configure_socket K sock s; (ret, _, s) = sys K (SysConnect sock) s in
          if ret = 0 then Some (Ret (ret, sock) s)
          else
            let (_, _, s) = sys K (SysClose sock) s; (_, _, s) = sys K SysSleep s; (tv, s) = seconds K s in
            connect_loop K t tv ret sock s
      else Some (Ret (ret, sock) s))"

definition new_client :: "(nat \<Rightarrow> byte) \<Rightarrow> cint \<Rightarrow> cint \<Rightarrow> client" where
  "new_client junk sock ref_count =
     \<lparr>cl_sock = sock, cl_next = None, cl_prev = None, send_rb = ringbuffer_create junk SEND_RECV_SIZE,
      recv_rb = ringbuffer_create junk SEND_RECV_SIZE, cl_context = empty_context, cl_tag = None, cl_id = 0,
      cl_ref_count = ref_count\<rparr>"

definition add_client :: "client \<Rightarrow> 'm process \<Rightarrow> addr \<times> 'm process" where
  "add_client c w =
     (let a = next_addr w in
      (a, w\<lparr>clients := (clients w)(a := c), alive := insert a (alive w), next_addr := a + 1\<rparr>))"

definition cliser_client ::
    "kernel \<Rightarrow> (nat \<Rightarrow> byte) \<Rightarrow> byte list option \<Rightarrow> byte list option \<Rightarrow> 'm process \<Rightarrow> ('m, addr) proc_result option" where
  "cliser_client K junk host port w =
     (case get_sockaddr K (case host of None \<Rightarrow> DEFAULT_HOST | Some h \<Rightarrow> h) port (net w) of
        Abort f \<Rightarrow> Some (Abort f) | Raise e s \<Rightarrow> Some (Raise e (w\<lparr>net := s\<rparr>))
      | Ret _ s \<Rightarrow>
          let (tv, s) = seconds K s in
          (case connect_loop K (tv + DEFAULT_TIMEOUT_SECONDS) tv 0 (- 1) s of
             None \<Rightarrow> None
           | Some (Abort f) \<Rightarrow> Some (Abort f)
           | Some (Raise e s) \<Rightarrow> Some (Raise e (w\<lparr>net := s\<rparr>))
           | Some (Ret (ret, sock) s) \<Rightarrow>
               let fail = (\<lambda>s. let (_, _, s) = sys K (SysClose sock) s in Some (Raise (lua_handle_error (errno s)) (w\<lparr>net := s\<rparr>))) in
               if ret \<noteq> 0 then fail s
               else
                 let (ret, _, s) = sys K (SysGetsockname sock) s in
                 if ret \<noteq> 0 then fail s
                 else let (a, w) = add_client (new_client junk sock 1) (w\<lparr>net := s\<rparr>) in Some (Ret a w)))"

definition cliser_server_close :: "kernel \<Rightarrow> 'm process \<Rightarrow> ('m, unit) proc_result option" where
  "cliser_server_close = destroy_server"

text \<open>The pointer in the userdata of a client, and what is left of it.\<close>

definition cliser_client_close :: "kernel \<Rightarrow> addr option \<Rightarrow> 'm process \<Rightarrow> (addr option \<times> 'm process, unit) lres" where
  "cliser_client_close K ud w = (case ud of
      None \<Rightarrow> Ret () (None, w)
    | Some a \<Rightarrow>
        if a \<notin> alive w then Abort OutOfBounds
        else
          let w = set_client a (\<lambda>c. c\<lparr>cl_ref_count := cl_ref_count c - 1\<rparr>) w in
          if cl_ref_count (clients w a) = 0 then
            (case destroy_client K a w of
               Ret _ w \<Rightarrow> Ret () (None, w) | Raise e w \<Rightarrow> Raise e (ud, w) | Abort f \<Rightarrow> Abort f)
          else Ret () (None, w))"

definition cliser_client_retain :: "addr option \<Rightarrow> 'm process \<Rightarrow> ('m, unit) proc_result" where
  "cliser_client_retain ud w = (case ud of
      None \<Rightarrow> Abort OutOfBounds
    | Some a \<Rightarrow>
        if a \<notin> alive w then Abort OutOfBounds
        else Ret () (set_client a (\<lambda>c. c\<lparr>cl_ref_count := cl_ref_count c + 1\<rparr>) w))"

definition cliser_client_metatablename :: "byte list" where
  "cliser_client_metatablename = [105, 112, 99, 46, 99, 108, 105, 101, 110, 116]"

text \<open>The difference of the ids wraps around; \<open>qsort\<close> looks at its sign.\<close>

definition compare_clients :: "'m process \<Rightarrow> addr \<Rightarrow> addr \<Rightarrow> int" where
  "compare_clients w a b = sint (cl_id (clients w a) - cl_id (clients w b))"

definition compare_clients_inverted :: "'m process \<Rightarrow> addr \<Rightarrow> addr \<Rightarrow> int" where
  "compare_clients_inverted w a b = sint (cl_id (clients w b) - cl_id (clients w a))"

text \<open>
  \<open>qsort\<close> of the C library, an argument: of elements that compare equal it may put either first. \<open>qsort_ok\<close> is what it
  promises for a comparison that is a preorder on the elements.
\<close>

type_synonym sorter = "(addr \<Rightarrow> addr \<Rightarrow> int) \<Rightarrow> addr list \<Rightarrow> addr list"

definition preorder_on_list :: "(addr \<Rightarrow> addr \<Rightarrow> int) \<Rightarrow> addr list \<Rightarrow> bool" where
  "preorder_on_list cmp xs \<longleftrightarrow>
     (\<forall>a \<in> set xs. \<forall>b \<in> set xs. cmp a b \<le> 0 \<or> cmp b a \<le> 0) \<and>
     (\<forall>a \<in> set xs. \<forall>b \<in> set xs. \<forall>c \<in> set xs. cmp a b \<le> 0 \<longrightarrow> cmp b c \<le> 0 \<longrightarrow> cmp a c \<le> 0)"

definition qsort_ok :: "sorter \<Rightarrow> bool" where
  "qsort_ok qsort \<longleftrightarrow> (\<forall>cmp xs. preorder_on_list cmp xs \<longrightarrow>
     mset (qsort cmp xs) = mset xs \<and> sorted_wrt (\<lambda>a b. cmp a b \<le> 0) (qsort cmp xs))"

text \<open>
  The loop over a server's clients with a tag, which fills an array of \<open>num_clients\<close> entries. Tags are C strings, compared with \<open>strcmp\<close>.
\<close>

definition tag_matches :: "byte list option \<Rightarrow> client \<Rightarrow> bool" where
  "tag_matches tag c \<longleftrightarrow> (case tag of None \<Rightarrow> True | Some t \<Rightarrow>
     (case cl_tag c of None \<Rightarrow> False | Some t' \<Rightarrow> c_string t = c_string t'))"

partial_function (option) collect_clients ::
    "'m process \<Rightarrow> byte list option \<Rightarrow> addr option \<Rightarrow> addr list \<Rightarrow> addr list res option" where
  "collect_clients w tag p acc =
     (case p of
        None \<Rightarrow> Some (Ok acc)
      | Some a \<Rightarrow>
          if a \<notin> alive w then Some (Crash OutOfBounds)
          else if tag_matches tag (clients w a) then
            if length acc < unat (num_clients (server w)) then collect_clients w tag (cl_next (clients w a)) (acc @ [a])
            else Some (Crash OutOfBounds)
          else collect_clients w tag (cl_next (clients w a)) acc)"

text \<open>A descriptor in an \<open>fd_set\<close>, which has room for 1024.\<close>

definition FD_SETSIZE :: int where "FD_SETSIZE = 1024"

definition fd_fits :: "cint \<Rightarrow> bool" where
  "fd_fits fd \<longleftrightarrow> 0 \<le> sint fd \<and> sint fd < FD_SETSIZE"

text \<open>
  The loop of \<open>cliser_server_clients\<close> that accepts clients until there are \<open>wait\<close> of them: in each round it waits for a
  connection, accepts one if there is one, and looks at the time.
\<close>

definition accept_round :: "kernel \<Rightarrow> (nat \<Rightarrow> byte) \<Rightarrow> 'm process \<Rightarrow> ('m, unit) proc_result" where
  "accept_round K junk w =
     (let sock = sv_sock (server w); (ret, out, s) = sys K (SysSelect [sock]) (net w) in
      if ret > 0 \<and> sint sock \<in> set out then
        let (ret, _, s) = sys K (SysAccept sock) s in
        if ret \<le> 0 then Raise (lua_handle_error (errno s)) (w\<lparr>net := s\<rparr>)
        else let s = configure_socket K (of_int ret) s; (a, w) = add_client (new_client junk (of_int ret) 0) (w\<lparr>net := s\<rparr>) in Ret () (insert_client a w)
      else Ret () (w\<lparr>net := s\<rparr>))"

partial_function (option) accept_loop ::
    "kernel \<Rightarrow> (nat \<Rightarrow> byte) \<Rightarrow> uint32 \<Rightarrow> uint32 \<Rightarrow> 'm process \<Rightarrow> ('m, unit) proc_result option" where
  "accept_loop K junk wait t w =
     (if wait > num_clients (server w) then
        if \<not> fd_fits (sv_sock (server w)) then Some (Abort OutOfBounds)
        else (case accept_round K junk w of
            Ret _ w \<Rightarrow>
              let (tv, s) = seconds K (net w); w = w\<lparr>net := s\<rparr> in
              if tv > uint t then Some (Raise (LuaErrStr ''server timed out waiting for clients to connect'') w)
              else accept_loop K junk wait t w
          | r \<Rightarrow> Some r)
      else Some (Ret () w))"

text \<open>
  The callback is the Lua function given to \<open>clients\<close>, an argument here: it is called with the handle of a client and
  may call any handler with it. After the call the handle is null.
\<close>

type_synonym 'm callback = "addr option \<Rightarrow> 'm process \<Rightarrow> ('m, unit) proc_result option"

fun call_clients :: "'m callback \<Rightarrow> addr list \<Rightarrow> 'm process \<Rightarrow> ('m, unit) proc_result option" where
  "call_clients f [] w = Some (Ret () w)"
| "call_clients f (a # as) w =
     (case f (Some a) w of
        Some (Ret _ w) \<Rightarrow> call_clients f as w
      | r \<Rightarrow> r)"

definition cliser_server_clients ::
    "kernel \<Rightarrow> (nat \<Rightarrow> byte) \<Rightarrow> sorter \<Rightarrow> uint32 \<Rightarrow> byte list option \<Rightarrow> bool \<Rightarrow> 'm callback \<Rightarrow> 'm process \<Rightarrow>
      ('m, nat) proc_result option" where
  "cliser_server_clients K junk qsort wait tag invert_order f w =
     (let (tv, s) = seconds K (net w); t = of_int (tv + DEFAULT_TIMEOUT_SECONDS) in
      case accept_loop K junk wait t (w\<lparr>net := s\<rparr>) of
        None \<Rightarrow> None
      | Some (Raise e w) \<Rightarrow> Some (Raise e w)
      | Some (Abort g) \<Rightarrow> Some (Abort g)
      | Some (Ret _ w) \<Rightarrow>
          (case collect_clients w tag (sv_clients (server w)) [] of
             None \<Rightarrow> None
           | Some (Crash g) \<Rightarrow> Some (Abort g)
           | Some (Ok xs) \<Rightarrow>
               let ys = qsort (if invert_order then compare_clients_inverted w else compare_clients w) xs in
               (case call_clients f ys w of
                  None \<Rightarrow> None
                | Some (Ret _ w) \<Rightarrow> Some (Ret (length xs) w)
                | Some (Raise e w) \<Rightarrow> Some (Raise e w)
                | Some (Abort g) \<Rightarrow> Some (Abort g))))"

text \<open>
  The arguments of \<open>clients\<close>, those from index 2 on: either a number of clients to wait for and a function, or a function, a tag and whether the order is inverted, where the tag may be left
  out. \<open>num\<close> stands for \<open>luaL_checkinteger\<close>, which has no result for a value that is no number, and \<open>optinteger\<close> and \<open>optstring\<close> for the functions of these names. The result
  is what to wait for, the function, the tag and the order.
\<close>

definition arg :: "lua_value list \<Rightarrow> nat \<Rightarrow> lua_value" where
  "arg args i = (if i - 2 < length args then args ! (i - 2) else LNil)"

definition optinteger :: "(lua_value \<Rightarrow> int option) \<Rightarrow> lua_value \<Rightarrow> int option" where
  "optinteger num v = (if v = LNil then Some 0 else num v)"

definition clients_args ::
    "(lua_value \<Rightarrow> int option) \<Rightarrow> lua_value list \<Rightarrow> string + uint32 \<times> lua_value \<times> byte list option \<times> bool" where
  "clients_args num args =
     (if is_function (arg args 2) then
        (let (tag, i) = (case arg args 3 of LString t \<Rightarrow> (Some (c_string t), 4) | _ \<Rightarrow> (None, 3)) in
         case optinteger num (arg args i) of
           None \<Rightarrow> Inl ''bad argument'' | Some n \<Rightarrow> Inr (0, arg args 2, tag, (of_int n :: cint) \<noteq> 0))
      else (case num (arg args 2) of
          None \<Rightarrow> Inl ''bad argument''
        | Some n \<Rightarrow>
            if is_function (arg args 3) then Inr (of_int n, arg args 3, None, False)
            else Inl ''expected a callback function as argument #3''))"

definition server_clients :: "(lua_value \<Rightarrow> int option) \<Rightarrow> kernel \<Rightarrow> (nat \<Rightarrow> byte) \<Rightarrow> sorter \<Rightarrow> (lua_value \<Rightarrow> 'm callback) \<Rightarrow> lua_value list \<Rightarrow>
    'm process \<Rightarrow> ('m, nat) proc_result option" where
  "server_clients num K junk qsort call args w = (case clients_args num args of
      Inl e \<Rightarrow> Some (Raise (LuaErrStr e) w)
    | Inr (wait, f, tag, invert_order) \<Rightarrow> cliser_server_clients K junk qsort wait tag invert_order (call f) w)"

text \<open>The handlers of a server client: \<open>h\<close> is the pointer in the handle.\<close>

definition with_handle :: "addr option \<Rightarrow> 'm process \<Rightarrow> (addr \<Rightarrow> ('m, 'a) proc_result option) \<Rightarrow> ('m, 'a) proc_result option" where
  "with_handle h w k = (case h of
      None \<Rightarrow> Some (Raise (LuaErrStr ''server client is invalid, either closed or used outside of server function scope'') w)
    | Some a \<Rightarrow> if a \<in> alive w then k a else Some (Abort OutOfBounds))"

definition cliser_server_tag :: "byte list option \<Rightarrow> addr option \<Rightarrow> 'm process \<Rightarrow> ('m, byte list list) proc_result option" where
  "cliser_server_tag tag h w = with_handle h w (\<lambda>a. case tag of
      None \<Rightarrow> (case cl_tag (clients w a) of Some t \<Rightarrow> Some (Ret [c_string t] w) | None \<Rightarrow> Some (Ret [] w))
    | Some t \<Rightarrow> Some (Ret [] (set_client a (\<lambda>c. c\<lparr>cl_tag := Some (c_string t)\<rparr>) w)))"

definition cliser_server_id :: "int option \<Rightarrow> addr option \<Rightarrow> 'm process \<Rightarrow> ('m, int list) proc_result option" where
  "cliser_server_id i h w = with_handle h w (\<lambda>a. case i of
      Some n \<Rightarrow> Some (Ret [] (set_client a (\<lambda>c. c\<lparr>cl_id := of_int n\<rparr>) w))
    | None \<Rightarrow> Some (Ret [sint (cl_id (clients w a))] w))"

definition cliser_server_client_close ::
    "kernel \<Rightarrow> addr option \<Rightarrow> 'm process \<Rightarrow> (addr option \<times> 'm process, unit) lres" where
  "cliser_server_client_close K h w = (case h of
      None \<Rightarrow> Raise (LuaErrStr ''server client is invalid, either closed or used outside of server function scope'') (h, w)
    | Some a \<Rightarrow>
        if a \<notin> alive w then Abort OutOfBounds
        else (case destroy_client K a (remove_client a w) of
            Ret _ w \<Rightarrow> Ret () (None, w) | Raise e w \<Rightarrow> Raise e (h, w) | Abort f \<Rightarrow> Abort f))"

text \<open>
  The address of the peer, \<open>inet_ntoa\<close> of what \<open>getpeername\<close> stores; when it fails, of what is on the stack. This handler does not look whether the handle is valid.
\<close>

fun decimal :: "nat \<Rightarrow> byte list" where
  "decimal n = (if n < 10 then [of_nat (48 + n)] else decimal (n div 10) @ [of_nat (48 + n mod 10)])"

definition inet_ntoa :: "uint32 \<Rightarrow> byte list" where
  "inet_ntoa a =
     (let d = (\<lambda>i. decimal (unat (take_bit 8 (drop_bit (8 * i) a)))) in d 0 @ [46] @ d 1 @ [46] @ d 2 @ [46] @ d 3)"

definition sock_address :: "kernel \<Rightarrow> uint32 \<Rightarrow> cint \<Rightarrow> os \<Rightarrow> byte list \<times> os" where
  "sock_address K junk sock s =
     (case sys K (SysGetpeername sock) s of (ret, out, s) \<Rightarrow> (inet_ntoa (if ret < 0 then junk else out_cint out 0), s))"

definition cliser_server_client_address :: "kernel \<Rightarrow> uint32 \<Rightarrow> addr option \<Rightarrow> 'm process \<Rightarrow> ('m, byte list) proc_result" where
  "cliser_server_client_address K junk h w = (case h of
      None \<Rightarrow> Abort OutOfBounds
    | Some a \<Rightarrow>
        if a \<notin> alive w then Abort OutOfBounds
        else (case sock_address K junk (cl_sock (clients w a)) (net w) of (ip, s) \<Rightarrow> Ret ip (w\<lparr>net := s\<rparr>)))"

text \<open>
  Userdata send themselves: \<open>m_write M v\<close> is the \<open>_cliser_write\<close> method in the metatable of the userdata \<open>v\<close>, if there is one,
  a function of the further userdata argument, the socket, and the copy context, the system and the memory.
\<close>

type_synonym 'm transfer_state = "copy_context \<times> os \<times> 'm"
type_synonym 'm transfer = "lua_value option \<Rightarrow> cint \<Rightarrow> 'm transfer_state \<Rightarrow> ('m transfer_state, unit) net_result"

record 'm methods =
  m_write :: "lua_value \<Rightarrow> 'm transfer option"
  m_read :: "lua_value \<Rightarrow> 'm transfer option"

definition is_userdata :: "lua_value \<Rightarrow> bool" where
  "is_userdata v \<longleftrightarrow> (case v of LUserdata _ _ \<Rightarrow> True | _ \<Rightarrow> False)"

definition extra_arg :: "lua_value option \<Rightarrow> lua_value option" where
  "extra_arg x = (case x of Some v \<Rightarrow> if is_userdata v then Some v else None | None \<Rightarrow> None)"

definition sock_send_userdata ::
    "'m methods \<Rightarrow> lua_value \<Rightarrow> lua_value option \<Rightarrow> cint \<Rightarrow> 'm transfer_state \<Rightarrow> ('m transfer_state, unit) net_result" where
  "sock_send_userdata M v x sock st = (case m_write M v of
      None \<Rightarrow> Some (Raise (LuaErrStr ''could not find _cliser_write function in metatable'') st)
    | Some f \<Rightarrow> f (extra_arg x) sock st)"

definition sock_recv_userdata ::
    "'m methods \<Rightarrow> lua_value \<Rightarrow> lua_value option \<Rightarrow> cint \<Rightarrow> 'm transfer_state \<Rightarrow> ('m transfer_state, unit) net_result" where
  "sock_recv_userdata M v x sock st = (case m_read M v of
      None \<Rightarrow> Some (Raise (LuaErrStr ''could not find _cliser_read function in metatable'') st)
    | Some f \<Rightarrow> f (extra_arg x) sock st)"

text \<open>
  Putting the results of a transfer back into the process: \<open>cc\<close> is the place of the copy context, the server's or the
  client's own.
\<close>

definition put_context :: "addr option \<Rightarrow> copy_context \<Rightarrow> 'm process \<Rightarrow> 'm process" where
  "put_context own cc w = (case own of
      None \<Rightarrow> set_server (\<lambda>s. s\<lparr>sv_context := cc\<rparr>) w
    | Some a \<Rightarrow> set_client a (\<lambda>c. c\<lparr>cl_context := cc\<rparr>) w)"

definition get_context :: "addr option \<Rightarrow> 'm process \<Rightarrow> copy_context" where
  "get_context own w = (case own of None \<Rightarrow> sv_context (server w) | Some a \<Rightarrow> cl_context (clients w a))"

definition put_sent :: "addr option \<Rightarrow> addr \<Rightarrow> 'm process \<Rightarrow> sock_state \<Rightarrow> 'm process" where
  "put_sent own a w = (\<lambda>(rb, cc, s). put_context own cc ((set_client a (\<lambda>c. c\<lparr>send_rb := rb\<rparr>) w)\<lparr>net := s\<rparr>))"

definition put_received :: "addr option \<Rightarrow> addr \<Rightarrow> 'm process \<Rightarrow> sock_state \<Rightarrow> 'm process" where
  "put_received own a w = (\<lambda>(rb, cc, s). put_context own cc ((set_client a (\<lambda>c. c\<lparr>recv_rb := rb\<rparr>) w)\<lparr>net := s\<rparr>))"

definition put_transfer :: "addr option \<Rightarrow> 'm process \<Rightarrow> 'm transfer_state \<Rightarrow> 'm process" where
  "put_transfer own w = (\<lambda>(cc, s, m). put_context own cc (w\<lparr>net := s, store := m\<rparr>))"

definition count_tx :: "addr option \<Rightarrow> 'm process \<Rightarrow> 'm process" where
  "count_tx own w = (let cc = get_context own w in
     put_context own (cc\<lparr>tx := (tx cc)\<lparr>num_calls := num_calls (tx cc) + 1\<rparr>\<rparr>) w)"

definition count_rx :: "addr option \<Rightarrow> 'm process \<Rightarrow> 'm process" where
  "count_rx own w = (let cc = get_context own w in
     put_context own (cc\<lparr>rx := (rx cc)\<lparr>num_calls := num_calls (rx cc) + 1\<rparr>\<rparr>) w)"

text \<open>
  Sending the value \<open>v\<close>, at index 2 of the stack, or a userdata, over the socket of the client \<open>a\<close>. The height of the stack is
  that of the value and the further argument, if there is one.
\<close>

definition send_value ::
    "lua_api \<Rightarrow> kernel \<Rightarrow> 'm methods \<Rightarrow> lua_value \<Rightarrow> lua_value option \<Rightarrow> addr option \<Rightarrow> addr \<Rightarrow> 'm process \<Rightarrow>
      ('m, lua_value list) proc_result option" where
  "send_value A K M v x own a w =
     (if is_userdata v then
        map_option (map_lres (put_transfer own w) (\<lambda>_. []))
          (sock_send_userdata M v x (cl_sock (clients w a)) (get_context own w, net w, store w))
      else
        map_option (map_lres (put_sent own a w) (\<lambda>r. r))
          (sock_send_msg A K (case x of None \<Rightarrow> 2 | Some _ \<Rightarrow> 3) 2 v (cl_sock (clients w a)) (send_rb (clients w a), get_context own w, net w)))"

text \<open>Receiving into the userdata at index 2, which is then returned, or a value.\<close>

definition recv_value ::
    "lua_api \<Rightarrow> kernel \<Rightarrow> 'm methods \<Rightarrow> nat \<Rightarrow> (nat \<Rightarrow> byte) \<Rightarrow> lua_value option \<Rightarrow> lua_value option \<Rightarrow> addr option \<Rightarrow> addr \<Rightarrow> 'm process \<Rightarrow>
      ('m, lua_value list) proc_result option" where
  "recv_value A K M d junk v x own a w =
     (case extra_arg v of
        Some v \<Rightarrow>
          map_option (map_lres (put_transfer own w) (\<lambda>_. [v]))
            (sock_recv_userdata M v x (cl_sock (clients w a)) (get_context own w, net w, store w))
      | None \<Rightarrow>
          map_option (map_lres (put_received own a w) (\<lambda>r. r))
            (sock_recv_msg A K d junk (cl_sock (clients w a)) (recv_rb (clients w a), get_context own w, net w)))"

fun after_return :: "('s \<Rightarrow> 's) \<Rightarrow> ('s, 'a) lres \<Rightarrow> ('s, 'a) lres" where
  "after_return f (Ret x s) = Ret x (f s)"
| "after_return f r = r"

definition share_fastpath :: "lua_value option \<Rightarrow> addr \<Rightarrow> 'm process \<Rightarrow> 'm process" where
  "share_fastpath v a w = (if extra_arg v = None then w
     else set_server (\<lambda>s. s\<lparr>sv_context := (sv_context s)\<lparr>use_fastpath := use_fastpath (cl_context (clients w a))\<rparr>\<rparr>) w)"

definition cliser_server_send ::
    "lua_api \<Rightarrow> kernel \<Rightarrow> 'm methods \<Rightarrow> lua_value \<Rightarrow> lua_value option \<Rightarrow> addr option \<Rightarrow> 'm process \<Rightarrow> ('m, lua_value list) proc_result option" where
  "cliser_server_send A K M v x h w = with_handle h w (\<lambda>a.
     map_option (after_return (count_tx None)) (send_value A K M v x None a (share_fastpath (Some v) a w)))"

definition cliser_server_recv ::
    "lua_api \<Rightarrow> kernel \<Rightarrow> 'm methods \<Rightarrow> nat \<Rightarrow> (nat \<Rightarrow> byte) \<Rightarrow> lua_value option \<Rightarrow> lua_value option \<Rightarrow> addr option \<Rightarrow> 'm process \<Rightarrow>
      ('m, lua_value list) proc_result option" where
  "cliser_server_recv A K M d junk v x h w = with_handle h w (\<lambda>a.
     map_option (after_return (count_rx None)) (recv_value A K M d junk v x None a (share_fastpath v a w)))"

fun send_to_each ::
    "lua_api \<Rightarrow> kernel \<Rightarrow> 'm methods \<Rightarrow> lua_value \<Rightarrow> lua_value option \<Rightarrow> addr list \<Rightarrow> 'm process \<Rightarrow> ('m, lua_value list) proc_result option" where
  "send_to_each A K M v x [] w = Some (Ret [] w)"
| "send_to_each A K M v x (a # as) w =
     (case send_value A K M v x None a w of
        Some (Ret _ w) \<Rightarrow> send_to_each A K M v x as w
      | r \<Rightarrow> r)"

text \<open>The tag is argument 3, after the value: a userdata there is no tag.\<close>

definition cliser_server_broadcast ::
    "lua_api \<Rightarrow> kernel \<Rightarrow> 'm methods \<Rightarrow> sorter \<Rightarrow> lua_value \<Rightarrow> byte list option \<Rightarrow> 'm process \<Rightarrow> ('m, lua_value list) proc_result option" where
  "cliser_server_broadcast A K M qsort v tag w =
     (case collect_clients w tag (sv_clients (server w)) [] of
        None \<Rightarrow> None
      | Some (Crash g) \<Rightarrow> Some (Abort g)
      | Some (Ok xs) \<Rightarrow>
          map_option (after_return (count_tx None))
            (send_to_each A K M v (map_option LString tag) (qsort (compare_clients w) xs) w))"

text \<open>The descriptors of the clients with a tag, and the first of these clients whose descriptor is ready.\<close>

partial_function (option) collect_fds ::
    "'m process \<Rightarrow> byte list option \<Rightarrow> addr option \<Rightarrow> cint list \<Rightarrow> cint list res option" where
  "collect_fds w tag p acc =
     (case p of
        None \<Rightarrow> Some (Ok acc)
      | Some a \<Rightarrow>
          if a \<notin> alive w then Some (Crash OutOfBounds)
          else if tag_matches tag (clients w a) then
            if fd_fits (cl_sock (clients w a)) then collect_fds w tag (cl_next (clients w a)) (acc @ [cl_sock (clients w a)])
            else Some (Crash OutOfBounds)
          else collect_fds w tag (cl_next (clients w a)) acc)"

partial_function (option) find_ready :: "'m process \<Rightarrow> byte list option \<Rightarrow> int list \<Rightarrow> addr option \<Rightarrow> addr option option" where
  "find_ready w tag fds p =
     (case p of
        None \<Rightarrow> Some None
      | Some a \<Rightarrow>
          if tag_matches tag (clients w a) \<and> sint (cl_sock (clients w a)) \<in> set fds then Some (Some a)
          else find_ready w tag fds (cl_next (clients w a)))"

text \<open>
  \<open>cliser_server_recv_any\<close>: the values received and the handle of the client they came from. Where no client is found
  ready the result of \<open>select\<close> is returned as the number of values, of which there are none.
\<close>

definition cliser_server_recv_any ::
    "lua_api \<Rightarrow> kernel \<Rightarrow> nat \<Rightarrow> (nat \<Rightarrow> byte) \<Rightarrow> byte list option \<Rightarrow> 'm process \<Rightarrow> ('m, lua_value list \<times> addr option) proc_result option" where
  "cliser_server_recv_any A K d junk tag w =
     (case collect_fds w tag (sv_clients (server w)) [] of
        None \<Rightarrow> None
      | Some (Crash g) \<Rightarrow> Some (Abort g)
      | Some (Ok fds) \<Rightarrow>
          let (ret, out, s) = sys K (SysSelect fds) (net w); w = w\<lparr>net := s\<rparr> in
          if ret < 0 then Some (Raise (lua_handle_error (errno s)) w)
          else (case find_ready w tag out (sv_clients (server w)) of
              None \<Rightarrow> None
            | Some None \<Rightarrow> Some (Ret ([], None) (count_rx None w))
            | Some (Some a) \<Rightarrow>
                map_option (\<lambda>r. after_return (count_rx None)
                    (map_lres (put_received None a w) (\<lambda>vs. (vs, if length vs = 1 then Some a else None)) r))
                  (sock_recv_msg A K d junk (cl_sock (clients w a)) (recv_rb (clients w a), sv_context (server w), net w))))"

text \<open>The handlers of a client: \<open>ud\<close> is the pointer in its userdata.\<close>

definition with_client :: "addr option \<Rightarrow> 'm process \<Rightarrow> (addr \<Rightarrow> ('m, 'a) proc_result option) \<Rightarrow> ('m, 'a) proc_result option" where
  "with_client ud w k = (case ud of
      None \<Rightarrow> Some (Abort OutOfBounds)
    | Some a \<Rightarrow> if a \<in> alive w then k a else Some (Abort OutOfBounds))"

definition cliser_client_send ::
    "lua_api \<Rightarrow> kernel \<Rightarrow> 'm methods \<Rightarrow> lua_value \<Rightarrow> lua_value option \<Rightarrow> addr option \<Rightarrow> 'm process \<Rightarrow> ('m, lua_value list) proc_result option" where
  "cliser_client_send A K M v x ud w = with_client ud w (\<lambda>a.
     map_option (after_return (count_tx (Some a))) (send_value A K M v x (Some a) a w))"

definition cliser_client_recv ::
    "lua_api \<Rightarrow> kernel \<Rightarrow> 'm methods \<Rightarrow> nat \<Rightarrow> (nat \<Rightarrow> byte) \<Rightarrow> lua_value option \<Rightarrow> lua_value option \<Rightarrow> addr option \<Rightarrow> 'm process \<Rightarrow>
      ('m, lua_value list) proc_result option" where
  "cliser_client_recv A K M d junk v x ud w = with_client ud w (\<lambda>a.
     map_option (after_return (count_rx (Some a))) (recv_value A K M d junk v x (Some a) a w))"

definition cliser_client_recv_async ::
    "lua_api \<Rightarrow> kernel \<Rightarrow> nat \<Rightarrow> (nat \<Rightarrow> byte) \<Rightarrow> addr option \<Rightarrow> 'm process \<Rightarrow> ('m, lua_value list) proc_result option" where
  "cliser_client_recv_async A K d junk ud w = with_client ud w (\<lambda>a.
     (case sock_recv_msg_peek K (cl_sock (clients w a)) (recv_rb (clients w a), net w) of
        Abort f \<Rightarrow> Some (Abort f)
      | Raise e (rb, s) \<Rightarrow> Some (Raise e (put_received (Some a) a w (rb, cl_context (clients w a), s)))
      | Ret ret (rb, s) \<Rightarrow>
          if ret > 0 then
            map_option (\<lambda>r. after_return (count_rx (Some a)) (map_lres (put_received (Some a) a w) (\<lambda>r. r) r))
              (sock_recv_msg A K d junk (cl_sock (clients w a)) (rb, cl_context (clients w a), s))
          else Some (Ret [] (count_rx (Some a) (put_received (Some a) a w (rb, cl_context (clients w a), s))))))"

declare destroy_clients.simps [code] connect_loop.simps [code] collect_clients.simps [code] accept_loop.simps [code]
  collect_fds.simps [code] find_ready.simps [code]

section \<open>The list of clients\<close>

lemma set_client_simps [simp]:
  "clients (set_client a f w) b = (if b = a then f (clients w a) else clients w b)"
  "alive (set_client a f w) = alive w" "next_addr (set_client a f w) = next_addr w"
  "server (set_client a f w) = server w" "net (set_client a f w) = net w" "store (set_client a f w) = store w"
  by (simp_all add: set_client_def)

lemma set_server_simps [simp]:
  "clients (set_server f w) = clients w" "alive (set_server f w) = alive w" "next_addr (set_server f w) = next_addr w"
  "server (set_server f w) = f (server w)" "net (set_server f w) = net w" "store (set_server f w) = store w"
  by (simp_all add: set_server_def)

interpretation cls: intrusive_list "\<lambda>w. sv_clients (server w)" "\<lambda>w a. cl_next (clients w a)" "\<lambda>w a. cl_prev (clients w a)"
  "\<lambda>_ _. True" insert_client remove_client
  by unfold_locales (auto simp: insert_client_def remove_client_def Let_def fun_eq_iff split: option.splits)

lemma put_context_simps [simp]:
  "cl_sock (clients (put_context own cc w) b) = cl_sock (clients w b)"
  "cl_next (clients (put_context own cc w) b) = cl_next (clients w b)"
  "cl_prev (clients (put_context own cc w) b) = cl_prev (clients w b)"
  "send_rb (clients (put_context own cc w) b) = send_rb (clients w b)"
  "recv_rb (clients (put_context own cc w) b) = recv_rb (clients w b)"
  "cl_tag (clients (put_context own cc w) b) = cl_tag (clients w b)"
  "cl_id (clients (put_context own cc w) b) = cl_id (clients w b)"
  "alive (put_context own cc w) = alive w" "next_addr (put_context own cc w) = next_addr w"
  "sv_clients (server (put_context own cc w)) = sv_clients (server w)"
  "num_clients (server (put_context own cc w)) = num_clients (server w)"
  "sv_sock (server (put_context own cc w)) = sv_sock (server w)"
  "net (put_context own cc w) = net w" "store (put_context own cc w) = store w"
  by (simp_all add: put_context_def split: option.splits)

text \<open>What stays the same of the clients of a process when values are sent and received.\<close>

definition same_clients :: "'m process \<Rightarrow> 'm process \<Rightarrow> bool" where
  "same_clients w w' \<longleftrightarrow> alive w' = alive w \<and> next_addr w' = next_addr w \<and>
     sv_clients (server w') = sv_clients (server w) \<and> num_clients (server w') = num_clients (server w) \<and>
     (\<forall>b. cl_sock (clients w' b) = cl_sock (clients w b) \<and> cl_next (clients w' b) = cl_next (clients w b) \<and>
        cl_prev (clients w' b) = cl_prev (clients w b) \<and> cl_tag (clients w' b) = cl_tag (clients w b) \<and>
        cl_id (clients w' b) = cl_id (clients w b))"

lemma same_clients_simps [simp]:
  "same_clients w w" "same_clients w (count_tx own w') = same_clients w w'" "same_clients w (count_rx own w') = same_clients w w'"
  "same_clients w (put_sent own a w st)" "same_clients w (put_received own a w st)" "same_clients w (put_transfer own w ts)"
  "same_clients w (w\<lparr>net := s\<rparr>)" "same_clients (w\<lparr>net := s\<rparr>) w' = same_clients w w'"
  by (auto simp: same_clients_def count_tx_def count_rx_def put_sent_def put_received_def put_transfer_def Let_def split: prod.splits)

lemma same_clients_trans: "same_clients w w1 \<Longrightarrow> same_clients w1 w2 \<Longrightarrow> same_clients w w2"
  by (simp add: same_clients_def)

definition server_inv :: "'m process \<Rightarrow> addr list \<Rightarrow> bool" where
  "server_inv w xs \<longleftrightarrow> cls.dlist w xs \<and> set xs \<subseteq> alive w \<and> (\<forall>a \<in> alive w. a < next_addr w) \<and>
     unat (num_clients (server w)) = length xs"

definition conn_ok :: "'m process \<Rightarrow> addr \<Rightarrow> bool" where
  "conn_ok w a \<longleftrightarrow> a \<in> alive w \<and> idle (send_rb (clients w a)) \<and> ready (recv_rb (clients w a))"

lemma server_inv_same: "server_inv w xs \<Longrightarrow> same_clients w w' \<Longrightarrow> server_inv w' xs"
  by (auto simp: server_inv_def same_clients_def intro: cls.dlist_cong)

lemma net_irrelevant [simp]:
  "server_inv (w\<lparr>net := s\<rparr>) xs = server_inv w xs" "conn_ok (w\<lparr>net := s\<rparr>) a = conn_ok w a"
proof -
  have "same_clients (w\<lparr>net := s\<rparr>) w" by simp
  then show "server_inv (w\<lparr>net := s\<rparr>) xs = server_inv w xs"
    using server_inv_same [of "w\<lparr>net := s\<rparr>" xs w] server_inv_same [of w xs "w\<lparr>net := s\<rparr>"] by auto
  show "conn_ok (w\<lparr>net := s\<rparr>) a = conn_ok w a" by (simp add: conn_ok_def)
qed

lemma dlist_start: "cls.dlist w xs \<Longrightarrow> sv_clients (server w) = (if xs = [] then None else Some (hd xs))"
  by (simp add: cls.dlist_def)

text \<open>Walking the list.\<close>

lemma collect_clients_chain:
  assumes "cls.chain w p ys None" and "set ys \<subseteq> alive w" and "length acc + length ys \<le> unat (num_clients (server w))"
  shows "collect_clients w tag (if ys = [] then None else Some (hd ys)) acc =
    Some (Ok (acc @ filter (\<lambda>a. tag_matches tag (clients w a)) ys))"
  using assms
proof (induction ys arbitrary: p acc)
  case Nil
  then show ?case by (simp add: collect_clients.simps)
next
  case (Cons y ys)
  from Cons.prems have nx: "cl_next (clients w y) = (if ys = [] then None else Some (hd ys))" "cls.chain w (Some y) ys None"
      "y \<in> alive w" "set ys \<subseteq> alive w" "length acc < unat (num_clients (server w))"
    by auto
  from Cons.IH [OF nx(2,4), of acc] Cons.IH [OF nx(2,4), of "acc @ [y]"] Cons.prems(3) nx
  show ?case by (subst collect_clients.simps) simp
qed

lemma collect_clients_all:
  assumes "server_inv w xs"
  shows "collect_clients w tag (sv_clients (server w)) [] = Some (Ok (filter (\<lambda>a. tag_matches tag (clients w a)) xs))"
  using collect_clients_chain [of w None xs "[]" tag] assms dlist_start [of w xs]
  by (simp add: server_inv_def cls.dlist_def)

lemma collect_fds_chain:
  assumes "cls.chain w p ys None" and "set ys \<subseteq> alive w"
    and "\<And>a. a \<in> set ys \<Longrightarrow> tag_matches tag (clients w a) \<Longrightarrow> fd_fits (cl_sock (clients w a))"
  shows "collect_fds w tag (if ys = [] then None else Some (hd ys)) acc =
    Some (Ok (acc @ map (\<lambda>a. cl_sock (clients w a)) (filter (\<lambda>a. tag_matches tag (clients w a)) ys)))"
  using assms
proof (induction ys arbitrary: p acc)
  case Nil
  then show ?case by (simp add: collect_fds.simps)
next
  case (Cons y ys)
  from Cons.prems have nx: "cl_next (clients w y) = (if ys = [] then None else Some (hd ys))" "cls.chain w (Some y) ys None"
      "y \<in> alive w" "set ys \<subseteq> alive w" "tag_matches tag (clients w y) \<Longrightarrow> fd_fits (cl_sock (clients w y))"
    by auto
  have IH: "collect_fds w tag (if ys = [] then None else Some (hd ys)) acc =
      Some (Ok (acc @ map (\<lambda>a. cl_sock (clients w a)) (filter (\<lambda>a. tag_matches tag (clients w a)) ys)))" for acc
    using Cons.IH [OF nx(2,4)] Cons.prems(3) by simp
  from IH nx show ?case by (subst collect_fds.simps) simp
qed

lemma find_ready_chain:
  assumes "cls.chain w p ys None"
  shows "find_ready w tag fds (if ys = [] then None else Some (hd ys)) =
    Some (find (\<lambda>a. tag_matches tag (clients w a) \<and> sint (cl_sock (clients w a)) \<in> set fds) ys)"
  using assms
proof (induction ys arbitrary: p)
  case Nil
  then show ?case by (simp add: find_ready.simps)
next
  case (Cons y ys)
  from Cons.prems have nx: "cl_next (clients w y) = (if ys = [] then None else Some (hd ys))" "cls.chain w (Some y) ys None"
    by auto
  from Cons.IH [OF nx(2)] nx(1) show ?case by (subst find_ready.simps) simp
qed

section \<open>Sending and receiving\<close>

lemma sendable_value: "sendable A v \<Longrightarrow> \<not> is_userdata v"
  by (cases v) (auto simp: sendable_def is_userdata_def)

lemma put_sent_simps [simp]:
  "net (put_sent own a w (rb, cc, s)) = s" "alive (put_sent own a w st) = alive w" "store (put_sent own a w st) = store w"
  "send_rb (clients (put_sent own a w (rb, cc, s)) b) = (if b = a then rb else send_rb (clients w b))"
  "recv_rb (clients (put_sent own a w st) b) = recv_rb (clients w b)"
  "cl_sock (clients (put_sent own a w st) b) = cl_sock (clients w b)"
  by (simp_all add: put_sent_def split: prod.splits)

lemma put_received_simps [simp]:
  "net (put_received own a w (rb, cc, s)) = s" "alive (put_received own a w st) = alive w" "store (put_received own a w st) = store w"
  "recv_rb (clients (put_received own a w (rb, cc, s)) b) = (if b = a then rb else recv_rb (clients w b))"
  "send_rb (clients (put_received own a w st) b) = send_rb (clients w b)"
  "cl_sock (clients (put_received own a w st) b) = cl_sock (clients w b)"
  by (simp_all add: put_received_def split: prod.splits)

lemma count_simps [simp]:
  "net (count_tx own w) = net w" "alive (count_tx own w) = alive w" "net (count_rx own w) = net w" "alive (count_rx own w) = alive w"
  "send_rb (clients (count_tx own w) b) = send_rb (clients w b)" "recv_rb (clients (count_tx own w) b) = recv_rb (clients w b)"
  "send_rb (clients (count_rx own w) b) = send_rb (clients w b)" "recv_rb (clients (count_rx own w) b) = recv_rb (clients w b)"
  "cl_sock (clients (count_tx own w) b) = cl_sock (clients w b)" "cl_sock (clients (count_rx own w) b) = cl_sock (clients w b)"
  "conn_ok (count_tx own w) b = conn_ok w b" "conn_ok (count_rx own w) b = conn_ok w b"
  by (simp_all add: count_tx_def count_rx_def Let_def conn_ok_def)

lemma send_value_ok:
  assumes "streams_ok K" and "sendable A v" and "conn_ok w a"
  obtains w' where "send_value A K M v x own a w = Some (Ret [] w')" and "same_clients w w'"
    and "wrote (cl_sock (clients w a)) (frame A v) (net w) (net w')" and "\<And>b. conn_ok w b \<Longrightarrow> conn_ok w' b"
proof -
  let ?h = "case x of None \<Rightarrow> 2 | Some _ \<Rightarrow> 3"
  obtain rb cc s where "sock_send_msg A K ?h 2 v (cl_sock (clients w a)) (send_rb (clients w a), get_context own w, net w) =
      Some (Ret [] (rb, cc, s))" "idle rb" "wrote (cl_sock (clients w a)) (frame A v) (net w) s"
    by (rule sock_send_msg_ok [OF assms(1,2), where rb = "send_rb (clients w a)" and index = 2 and height = ?h and
        cc = "get_context own w" and s = "net w" and sock = "cl_sock (clients w a)"])
      (use assms(3) in \<open>auto simp: conn_ok_def split: option.splits\<close>)
  with sendable_value [OF assms(2)] show thesis
    by (intro that [of "put_sent own a w (rb, cc, s)"]) (auto simp: send_value_def conn_ok_def)
qed

lemma recv_value_ok:
  assumes "streams_ok K" and "conn_ok w a" and "incoming (net w) (cl_sock (clients w a)) = frame A v @ rest" and "sendable A v"
    and "reload A 0 v = Some v'" and "stack_ok A d (slots 0 v)"
  obtains w' where "recv_value A K M d junk None x own a w = Some (Ret [v'] w')" and "same_clients w w'"
    and "took (cl_sock (clients w a)) (frame A v) (net w) (net w')" and "incoming (net w') (cl_sock (clients w a)) = rest"
    and "\<And>b. conn_ok w b \<Longrightarrow> conn_ok w' b"
proof -
  obtain rb cc s where "sock_recv_msg A K d junk (cl_sock (clients w a)) (recv_rb (clients w a), get_context own w, net w) =
      Some (Ret [v'] (rb, cc, s))" "ready rb" "took (cl_sock (clients w a)) (frame A v) (net w) s"
      "incoming s (cl_sock (clients w a)) = rest"
    by (rule sock_recv_msg_ok [OF assms(1) _ assms(3) _ assms(5,6), where rb = "recv_rb (clients w a)" and
        cc = "get_context own w" and junk = junk])
      (use assms(2,4) in \<open>auto simp: conn_ok_def sendable_def\<close>)
  then show thesis
    by (intro that [of "put_received own a w (rb, cc, s)"]) (auto simp: recv_value_def conn_ok_def extra_arg_def)
qed

end
