(* ===== verification/Connections.thy ===== *)
theory Connections
  imports Cliser
begin

text \<open>
  What clients and servers promise each other: values sent at one end of a connection are received at the other, in order;
  a broadcast reaches every client with the tag; a closed client is taken off the list and told so. Then the cases in
  which the code does not keep to it.
\<close>

section \<open>The contract of a connection\<close>

primrec put_all :: "('v \<Rightarrow> 's \<Rightarrow> 's option) \<Rightarrow> 'v list \<Rightarrow> 's \<Rightarrow> 's option" where
  "put_all put [] s = Some s"
| "put_all put (v # vs) s = (case put v s of None \<Rightarrow> None | Some s \<Rightarrow> put_all put vs s)"

primrec get_all :: "('s \<Rightarrow> ('v \<times> 's) option) \<Rightarrow> nat \<Rightarrow> 's \<Rightarrow> ('v list \<times> 's) option" where
  "get_all get 0 s = Some ([], s)"
| "get_all get (Suc n) s = (case get s of None \<Rightarrow> None
     | Some (v, s) \<Rightarrow> (case get_all get n s of None \<Rightarrow> None | Some (vs, s) \<Rightarrow> Some (v # vs, s)))"

text \<open>
  A value that is \<open>fine\<close> is put on the wire as the bytes \<open>wire v\<close>, and these bytes at the other end give its \<open>view\<close>.
\<close>

locale connection =
  fixes out_ok :: "'a \<Rightarrow> bool" and in_ok :: "'b \<Rightarrow> bool" and sent :: "'a \<Rightarrow> byte list" and pending :: "'b \<Rightarrow> byte list"
    and fine :: "'v \<Rightarrow> bool" and wire :: "'v \<Rightarrow> byte list" and view :: "'v \<Rightarrow> 'w"
    and put :: "'v \<Rightarrow> 'a \<Rightarrow> 'a option" and get :: "'b \<Rightarrow> ('w \<times> 'b) option"
  assumes put_law: "out_ok a \<Longrightarrow> fine v \<Longrightarrow> \<exists>a'. put v a = Some a' \<and> out_ok a' \<and> sent a' = sent a @ wire v"
    and get_law: "in_ok b \<Longrightarrow> fine v \<Longrightarrow> pending b = wire v @ rest \<Longrightarrow>
      \<exists>b'. get b = Some (view v, b') \<and> in_ok b' \<and> pending b' = rest"
begin

lemma put_all_sent:
  assumes "out_ok a" and "list_all fine vs"
  shows "\<exists>a'. put_all put vs a = Some a' \<and> out_ok a' \<and> sent a' = sent a @ concat (map wire vs)"
  using assms
proof (induction vs arbitrary: a)
  case (Cons v vs)
  then obtain a1 where "put v a = Some a1" "out_ok a1" "sent a1 = sent a @ wire v" using put_law [of a v] by auto
  with Cons.IH [of a1] Cons.prems show ?case by auto
qed simp

lemma get_all_views:
  assumes "in_ok b" and "list_all fine vs" and "pending b = concat (map wire vs) @ rest"
  shows "\<exists>b'. get_all get (length vs) b = Some (map view vs, b') \<and> in_ok b' \<and> pending b' = rest"
  using assms
proof (induction vs arbitrary: b)
  case (Cons v vs)
  then obtain b1 where "get b = Some (view v, b1)" "in_ok b1" "pending b1 = concat (map wire vs) @ rest"
    using get_law [of b v "concat (map wire vs) @ rest"] by auto
  with Cons.IH [of b1] Cons.prems show ?case by auto
qed simp

text \<open>Whatever the chunks in which the bytes travel, they arrive as the values that were sent.\<close>

lemma arrives:
  assumes "out_ok a" and "in_ok b" and "list_all fine vs" and "pending b = concat (map wire vs) @ rest"
  shows "(\<exists>a'. put_all put vs a = Some a' \<and> out_ok a' \<and> sent a' = sent a @ concat (map wire vs)) \<and>
    (\<exists>b'. get_all get (length vs) b = Some (map view vs, b') \<and> in_ok b' \<and> pending b' = rest)"
  using put_all_sent [OF assms(1,3)] get_all_views [OF assms(2-4)] by blast

end

section \<open>Both directions of a connection\<close>

definition returned :: "('m, 'a) proc_result option \<Rightarrow> ('a \<times> 'm process) option" where
  "returned r = (case r of Some (Ret x w) \<Rightarrow> Some (x, w) | _ \<Rightarrow> None)"

definition client_put :: "lua_api \<Rightarrow> kernel \<Rightarrow> 'm methods \<Rightarrow> addr \<Rightarrow> lua_value \<Rightarrow> 'm process \<Rightarrow> 'm process option" where
  "client_put A K M a v w = map_option snd (returned (cliser_client_send A K M v None (Some a) w))"

definition server_put :: "lua_api \<Rightarrow> kernel \<Rightarrow> 'm methods \<Rightarrow> addr \<Rightarrow> lua_value \<Rightarrow> 'm process \<Rightarrow> 'm process option" where
  "server_put A K M a v w = map_option snd (returned (cliser_server_send A K M v None (Some a) w))"

definition client_get ::
    "lua_api \<Rightarrow> kernel \<Rightarrow> 'm methods \<Rightarrow> nat \<Rightarrow> (nat \<Rightarrow> byte) \<Rightarrow> addr \<Rightarrow> 'm process \<Rightarrow> (lua_value list \<times> 'm process) option" where
  "client_get A K M d junk a w = returned (cliser_client_recv A K M d junk None None (Some a) w)"

definition server_get ::
    "lua_api \<Rightarrow> kernel \<Rightarrow> 'm methods \<Rightarrow> nat \<Rightarrow> (nat \<Rightarrow> byte) \<Rightarrow> addr \<Rightarrow> 'm process \<Rightarrow> (lua_value list \<times> 'm process) option" where
  "server_get A K M d junk a w = returned (cliser_server_recv A K M d junk None None (Some a) w)"

definition travels :: "lua_api \<Rightarrow> nat \<Rightarrow> lua_value \<Rightarrow> bool" where
  "travels A d v \<longleftrightarrow> sendable A v \<and> reload A 0 v \<noteq> None \<and> stack_ok A d (slots 0 v)"

definition arrived :: "lua_api \<Rightarrow> lua_value \<Rightarrow> lua_value list" where
  "arrived A v = (case reload A 0 v of None \<Rightarrow> [] | Some v' \<Rightarrow> [v'])"

abbreviation sock_of :: "'m process \<Rightarrow> addr \<Rightarrow> cint" where
  "sock_of w a \<equiv> cl_sock (clients w a)"

lemma share_fastpath_none [simp]: "share_fastpath None a w = w"
  by (simp add: share_fastpath_def extra_arg_def)

lemma share_fastpath_value: "sendable A v \<Longrightarrow> share_fastpath (Some v) a w = w"
  using sendable_value [of A v] by (simp add: share_fastpath_def extra_arg_def)

lemma conn_ok_alive: "conn_ok w a \<Longrightarrow> a \<in> alive w"
  by (simp add: conn_ok_def)

lemma sock_same: "same_clients w w' \<Longrightarrow> sock_of w' a = sock_of w a"
  by (simp add: same_clients_def)

lemma client_put_ok:
  assumes "streams_ok K" and "conn_ok w a" and "sendable A v"
  shows "\<exists>w'. client_put A K M a v w = Some w' \<and> conn_ok w' a \<and> same_clients w w' \<and>
    wrote (sock_of w a) (frame A v) (net w) (net w')"
  by (rule send_value_ok [OF assms(1,3,2), where M = M and x = None and own = "Some a"])
    (use assms(2) in \<open>auto simp: client_put_def returned_def cliser_client_send_def with_client_def conn_ok_alive\<close>)

lemma server_put_ok:
  assumes "streams_ok K" and "conn_ok w a" and "sendable A v"
  shows "\<exists>w'. server_put A K M a v w = Some w' \<and> conn_ok w' a \<and> same_clients w w' \<and>
    wrote (sock_of w a) (frame A v) (net w) (net w')"
  by (rule send_value_ok [OF assms(1,3,2), where M = M and x = None and own = None])
    (use assms(2,3) in \<open>auto simp: server_put_def returned_def cliser_server_send_def with_handle_def conn_ok_alive share_fastpath_value\<close>)

lemma client_get_ok:
  assumes "streams_ok K" and "conn_ok w a" and "travels A d v" and "incoming (net w) (sock_of w a) = frame A v @ rest"
  shows "\<exists>w'. client_get A K M d junk a w = Some (arrived A v, w') \<and> conn_ok w' a \<and> same_clients w w' \<and>
    incoming (net w') (sock_of w a) = rest"
proof -
  obtain v' where v': "reload A 0 v = Some v'" using assms(3) by (auto simp: travels_def)
  show ?thesis
    by (rule recv_value_ok [OF assms(1,2,4) _ v', where M = M and x = None and own = "Some a" and junk = junk and d = d])
      (use assms(2,3) v' in \<open>auto simp: client_get_def returned_def cliser_client_recv_def with_client_def conn_ok_alive travels_def arrived_def\<close>)
qed

lemma server_get_ok:
  assumes "streams_ok K" and "conn_ok w a" and "travels A d v" and "incoming (net w) (sock_of w a) = frame A v @ rest"
  shows "\<exists>w'. server_get A K M d junk a w = Some (arrived A v, w') \<and> conn_ok w' a \<and> same_clients w w' \<and>
    incoming (net w') (sock_of w a) = rest"
proof -
  obtain v' where v': "reload A 0 v = Some v'" using assms(3) by (auto simp: travels_def)
  show ?thesis
    by (rule recv_value_ok [OF assms(1,2,4) _ v', where M = M and x = None and own = None and junk = junk and d = d])
      (use assms(2,3) v' in \<open>auto simp: server_get_def returned_def cliser_server_recv_def with_handle_def conn_ok_alive travels_def arrived_def\<close>)
qed

interpretation c2s: connection "\<lambda>w. streams_ok K \<and> conn_ok w a" "\<lambda>w. streams_ok K' \<and> conn_ok w b"
  "\<lambda>w. outgoing (net w) (sock_of w a)" "\<lambda>w. incoming (net w) (sock_of w b)" "travels A d" "frame A" "arrived A"
  "client_put A K M a" "server_get A K' M' d junk b" for A K K' M M' d junk a b
proof unfold_locales
  show "\<exists>w'. client_put A K M a v w = Some w' \<and> (streams_ok K \<and> conn_ok w' a) \<and>
      outgoing (net w') (sock_of w' a) = outgoing (net w) (sock_of w a) @ frame A v"
    if "streams_ok K \<and> conn_ok w a" "travels A d v" for w v
    using client_put_ok [of K w a A v M] that by (auto simp: travels_def wrote_def sock_same)
  show "\<exists>w'. server_get A K' M' d junk b w = Some (arrived A v, w') \<and> (streams_ok K' \<and> conn_ok w' b) \<and>
      incoming (net w') (sock_of w' b) = rest"
    if "streams_ok K' \<and> conn_ok w b" "travels A d v" "incoming (net w) (sock_of w b) = frame A v @ rest" for w v rest
    using server_get_ok [of K' w b A d v rest M' junk] that by (auto simp: sock_same)
qed

interpretation s2c: connection "\<lambda>w. streams_ok K \<and> conn_ok w a" "\<lambda>w. streams_ok K' \<and> conn_ok w b"
  "\<lambda>w. outgoing (net w) (sock_of w a)" "\<lambda>w. incoming (net w) (sock_of w b)" "travels A d" "frame A" "arrived A"
  "server_put A K M a" "client_get A K' M' d junk b" for A K K' M M' d junk a b
proof unfold_locales
  show "\<exists>w'. server_put A K M a v w = Some w' \<and> (streams_ok K \<and> conn_ok w' a) \<and>
      outgoing (net w') (sock_of w' a) = outgoing (net w) (sock_of w a) @ frame A v"
    if "streams_ok K \<and> conn_ok w a" "travels A d v" for w v
    using server_put_ok [of K w a A v M] that by (auto simp: travels_def wrote_def sock_same)
  show "\<exists>w'. client_get A K' M' d junk b w = Some (arrived A v, w') \<and> (streams_ok K' \<and> conn_ok w' b) \<and>
      incoming (net w') (sock_of w' b) = rest"
    if "streams_ok K' \<and> conn_ok w b" "travels A d v" "incoming (net w) (sock_of w b) = frame A v @ rest" for w v rest
    using client_get_ok [of K' w b A d v rest M' junk] that by (auto simp: sock_same)
qed

section \<open>Broadcasting, and the order of the clients\<close>

lemma send_to_each_ok:
  assumes "streams_ok K" and "sendable A v" and "\<And>a. a \<in> set ys \<Longrightarrow> conn_ok w a" and "distinct (map (sock_of w) ys)"
  shows "\<exists>w'. send_to_each A K M v x ys w = Some (Ret [] w') \<and> same_clients w w' \<and> (\<forall>b. conn_ok w b \<longrightarrow> conn_ok w' b) \<and>
    (\<forall>fd. outgoing (net w') fd = outgoing (net w) fd @ (if fd \<in> sock_of w ` set ys then frame A v else []))"
  using assms(3,4)
proof (induction ys arbitrary: w)
  case (Cons a ys)
  obtain w1 where w1: "send_value A K M v x None a w = Some (Ret [] w1)" "same_clients w w1"
      "wrote (sock_of w a) (frame A v) (net w) (net w1)" "\<And>b. conn_ok w b \<Longrightarrow> conn_ok w1 b"
    by (rule send_value_ok [OF assms(1,2), of w a M x None]) (use Cons.prems(1) in auto)
  have sock: "sock_of w1 b = sock_of w b" for b using w1(2) by (simp add: same_clients_def)
  obtain w2 where w2: "send_to_each A K M v x ys w1 = Some (Ret [] w2)" "same_clients w1 w2" "\<forall>b. conn_ok w1 b \<longrightarrow> conn_ok w2 b"
      "\<forall>fd. outgoing (net w2) fd = outgoing (net w1) fd @ (if fd \<in> sock_of w ` set ys then frame A v else [])"
    using Cons.IH [of w1] Cons.prems w1(4) by (auto simp: sock)
  have "sock_of w a \<notin> sock_of w ` set ys" using Cons.prems(2) by auto
  with w1(3) w2(4) have "\<forall>fd. outgoing (net w2) fd = outgoing (net w) fd @ (if fd \<in> sock_of w ` set (a # ys) then frame A v else [])"
    by (auto simp: wrote_def)
  with w1 w2(1-3) same_clients_trans [OF w1(2) w2(2)] show ?case by auto
qed simp

definition small_ids :: "'m process \<Rightarrow> addr list \<Rightarrow> bool" where
  "small_ids w xs \<longleftrightarrow> (\<forall>a \<in> set xs. - (2 ^ 30) \<le> sint (cl_id (clients w a)) \<and> sint (cl_id (clients w a)) < 2 ^ 30)"

lemma sint_diff_small:
  fixes x y :: cint
  assumes "- (2 ^ 30) \<le> sint x" "sint x < 2 ^ 30" "- (2 ^ 30) \<le> sint y" "sint y < 2 ^ 30"
  shows "sint (x - y) = sint x - sint y"
  using assms by (simp add: sint_word_ariths signed_take_bit_int_eq_self)

lemma compare_small:
  assumes "small_ids w xs" and "a \<in> set xs" and "b \<in> set xs"
  shows "compare_clients w a b = sint (cl_id (clients w a)) - sint (cl_id (clients w b))"
    and "compare_clients_inverted w a b = sint (cl_id (clients w b)) - sint (cl_id (clients w a))"
  using assms by (simp_all add: compare_clients_def compare_clients_inverted_def small_ids_def sint_diff_small)

lemma compare_preorder:
  assumes "small_ids w xs"
  shows "preorder_on_list (compare_clients w) xs" and "preorder_on_list (compare_clients_inverted w) xs"
  using compare_small [OF assms] by (auto simp: preorder_on_list_def)

lemma preorder_total: "preorder_on_list cmp xs \<Longrightarrow> a \<in> set xs \<Longrightarrow> b \<in> set xs \<Longrightarrow> cmp a b \<le> 0 \<or> cmp b a \<le> 0"
  unfolding preorder_on_list_def by blast

lemma preorder_trans:
  "preorder_on_list cmp xs \<Longrightarrow> a \<in> set xs \<Longrightarrow> b \<in> set xs \<Longrightarrow> c \<in> set xs \<Longrightarrow> cmp a b \<le> 0 \<Longrightarrow> cmp b c \<le> 0 \<Longrightarrow> cmp a c \<le> 0"
  unfolding preorder_on_list_def by blast

lemma preorder_mono: "preorder_on_list cmp xs \<Longrightarrow> set ys \<subseteq> set xs \<Longrightarrow> preorder_on_list cmp ys"
  unfolding preorder_on_list_def by (intro conjI ballI impI) (blast dest: subsetD)+

lemma small_ids_filter: "small_ids w xs \<Longrightarrow> small_ids w (filter P xs)"
  by (simp add: small_ids_def)

lemma qsort_set: "qsort_ok qsort \<Longrightarrow> preorder_on_list cmp xs \<Longrightarrow> set (qsort cmp xs) = set xs \<and> (distinct (map f xs) \<longrightarrow> distinct (map f (qsort cmp xs)))"
  by (metis qsort_ok_def mset_eq_setD mset_eq_imp_distinct_iff mset_map)

text \<open>An instance of \<open>qsort\<close>, by insertion.\<close>

fun sort_into :: "(addr \<Rightarrow> addr \<Rightarrow> int) \<Rightarrow> addr \<Rightarrow> addr list \<Rightarrow> addr list" where
  "sort_into cmp x [] = [x]"
| "sort_into cmp x (y # ys) = (if cmp x y \<le> 0 then x # y # ys else y # sort_into cmp x ys)"

fun insertion_sort :: sorter where
  "insertion_sort cmp [] = []"
| "insertion_sort cmp (x # xs) = sort_into cmp x (insertion_sort cmp xs)"

lemma mset_sort_into [simp]: "mset (sort_into cmp x ys) = add_mset x (mset ys)"
  by (induction ys) auto

lemma mset_insertion_sort [simp]: "mset (insertion_sort cmp xs) = mset xs"
  by (induction xs) auto

lemma set_insertion_sort [simp]: "set (insertion_sort cmp xs) = set xs"
  by (metis mset_insertion_sort set_mset_mset)

lemma sorted_sort_into:
  "preorder_on_list cmp (x # ys) \<Longrightarrow> sorted_wrt (\<lambda>a b. cmp a b \<le> 0) ys \<Longrightarrow> sorted_wrt (\<lambda>a b. cmp a b \<le> 0) (sort_into cmp x ys)"
proof (induction ys)
  case (Cons y ys)
  have set_into: "set (sort_into cmp x ys) = insert x (set ys)" by (metis mset_sort_into set_mset_add_mset_insert set_mset_mset)
  have "preorder_on_list cmp (x # ys)" using Cons.prems(1) by (rule preorder_mono) auto
  with Cons.IH Cons.prems(2) have IH: "sorted_wrt (\<lambda>a b. cmp a b \<le> 0) (sort_into cmp x ys)" by simp
  have pre: "cmp x y \<le> 0 \<or> cmp y x \<le> 0"
    using Cons.prems(1) by (rule preorder_total) simp_all
  have "cmp x z \<le> 0" if "z \<in> set ys" "cmp x y \<le> 0" "cmp y z \<le> 0" for z
    using Cons.prems(1) _ _ _ that(2,3) by (rule preorder_trans) (use that in simp_all)
  with pre IH Cons.prems(2) set_into show ?case by auto
qed simp

lemma insertion_sort_ok [simp]: "qsort_ok insertion_sort"
proof -
  have "sorted_wrt (\<lambda>a b. cmp a b \<le> 0) (insertion_sort cmp xs)" if "preorder_on_list cmp xs" for cmp xs
    using that
  proof (induction xs)
    case (Cons x xs)
    then have "preorder_on_list cmp xs" "preorder_on_list cmp (x # insertion_sort cmp xs)"
      by (auto elim: preorder_mono)
    with Cons.IH show ?case by (simp add: sorted_sort_into)
  qed simp
  then show ?thesis by (simp add: qsort_ok_def)
qed

section \<open>Accepting clients\<close>

lemma unat_add_one_uint32: "unat n + 1 < 2 ^ 32 \<Longrightarrow> unat (n + 1 :: uint32) = unat n + 1"
  by (simp add: unat_word_ariths)

lemma insert_new_client:
  assumes "server_inv w xs" and "length xs + 1 < 2 ^ 32" and "add_client (new_client junk sock n) w = (a, w1)"
  shows "server_inv (insert_client a w1) (a # xs)" and "conn_ok (insert_client a w1) a"
    and "conn_ok w b \<Longrightarrow> conn_ok (insert_client a w1) b"
    and "sv_sock (server (insert_client a w1)) = sv_sock (server w)" and "net (insert_client a w1) = net w"
proof -
  have a: "a = next_addr w" "w1 = w\<lparr>clients := (clients w)(a := new_client junk sock n), alive := insert a (alive w), next_addr := a + 1\<rparr>"
    using assms(3) by (auto simp: add_client_def Let_def)
  have inv: "cls.dlist w xs" "set xs \<subseteq> alive w" "\<forall>a \<in> alive w. a < next_addr w" "unat (num_clients (server w)) = length xs"
    using assms(1) by (auto simp: server_inv_def)
  have new: "a \<notin> alive w" "a \<notin> set xs" using inv(2,3) a(1) by auto
  have head: "sv_clients (server w) = Some h \<Longrightarrow> h \<in> set xs" for h
    using dlist_start [OF inv(1)] by (auto split: if_splits)
  have d1: "cls.dlist w1 xs" using inv(1) new(2) by (auto simp: cls.dlist_def a(2) intro: cls.chain_cong)
  have "cls.dlist (insert_client a w1) (a # xs)"
    by (rule cls.ins_dlist [OF d1]) (use new(2) in \<open>simp_all add: a(2) new_client_def\<close>)
  moreover have "alive (insert_client a w1) = insert a (alive w)" "next_addr (insert_client a w1) = a + 1"
      "num_clients (server (insert_client a w1)) = num_clients (server w) + 1"
    by (simp_all add: insert_client_def a(2) Let_def split: option.splits)
  ultimately show "server_inv (insert_client a w1) (a # xs)"
    using inv(2-4) assms(2) a(1) unat_add_one_uint32 [of "num_clients (server w)"] by (auto simp: server_inv_def)
  show "conn_ok (insert_client a w1) a"
    using head new idle_ready [OF idle_create [of junk]]
    by (auto simp: conn_ok_def insert_client_def a(2) Let_def new_client_def split: option.splits)
  show "conn_ok (insert_client a w1) b" if "conn_ok w b"
    using that new by (auto simp: conn_ok_def insert_client_def a(2) Let_def split: option.splits)
  show "sv_sock (server (insert_client a w1)) = sv_sock (server w)" and "net (insert_client a w1) = net w"
    by (simp_all add: insert_client_def a(2) Let_def split: option.splits)
qed

text \<open>The clock runs: it passes any time, and then stays past it.\<close>

definition clock_passes :: "kernel \<Rightarrow> int \<Rightarrow> nat \<Rightarrow> bool" where
  "clock_passes K t c0 \<longleftrightarrow> (\<forall>c \<ge> c0. \<exists>x. k_out K c SysGettimeofday = [x] \<and> t < x)"

definition clock_runs :: "kernel \<Rightarrow> bool" where
  "clock_runs K \<longleftrightarrow> (\<forall>t. \<exists>c0. clock_passes K t c0)"

definition grown :: "'m process \<Rightarrow> addr list \<Rightarrow> 'm process \<Rightarrow> bool" where
  "grown w xs w' \<longleftrightarrow> (\<exists>new. server_inv w' (new @ xs) \<and> (\<forall>a \<in> set new. conn_ok w' a) \<and> (\<forall>b. conn_ok w b \<longrightarrow> conn_ok w' b))"

definition accepted_ok :: "uint32 \<Rightarrow> 'm process \<Rightarrow> addr list \<Rightarrow> ('m, unit) proc_result \<Rightarrow> bool" where
  "accepted_ok wait w xs r \<longleftrightarrow> (case r of
      Ret _ w' \<Rightarrow> wait \<le> num_clients (server w') \<and> grown w xs w'
    | Raise _ w' \<Rightarrow> grown w xs w'
    | Abort _ \<Rightarrow> False)"

lemma grown_refl: "server_inv w xs \<Longrightarrow> grown w xs w"
  by (auto simp: grown_def intro: exI [of _ "[]"])

lemma grown_net: "grown w xs w' \<Longrightarrow> grown w xs (w'\<lparr>net := s\<rparr>)" "grown (w\<lparr>net := s\<rparr>) xs w' = grown w xs w'"
  by (simp_all add: grown_def)

lemma grown_trans:
  assumes "grown w xs w1" and "\<And>ys. server_inv w1 ys \<Longrightarrow> grown w1 ys w2"
  shows "grown w xs w2"
proof -
  obtain n1 where 1: "server_inv w1 (n1 @ xs)" "\<forall>a \<in> set n1. conn_ok w1 a" "\<forall>b. conn_ok w b \<longrightarrow> conn_ok w1 b"
    using assms(1) by (auto simp: grown_def)
  from assms(2) [OF 1(1)] obtain n2 where 2: "server_inv w2 (n2 @ n1 @ xs)" "\<forall>a \<in> set n2. conn_ok w2 a" "\<forall>b. conn_ok w1 b \<longrightarrow> conn_ok w2 b"
    by (auto simp: grown_def)
  from 1 2 show ?thesis unfolding grown_def by (intro exI [of _ "n2 @ n1"]) auto
qed

lemma accepted_ok_trans:
  assumes "grown w xs w1" and "\<And>ys. server_inv w1 ys \<Longrightarrow> accepted_ok wait w1 ys r"
  shows "accepted_ok wait w xs r"
proof -
  obtain n where "server_inv w1 (n @ xs)" using assms(1) by (auto simp: grown_def)
  with assms show ?thesis by (auto simp: accepted_ok_def split: lres.splits intro: grown_trans)
qed

lemma sys_trace: "sys K x s = (r, out, s') \<Longrightarrow> trace s' = trace s @ [x]"
  by (auto simp: sys_def Let_def split: if_splits)

lemma configure_socket_trace: "length (trace s) \<le> length (trace (configure_socket K sock s))"
  by (simp add: configure_socket_def sys_def Let_def)

lemma accept_round_ok:
  assumes "server_inv w xs" and "length xs + 1 < 2 ^ 32"
  shows "case accept_round K junk w of
      Ret _ w' \<Rightarrow> grown w xs w' \<and> sv_sock (server w') = sv_sock (server w) \<and> length (trace (net w)) < length (trace (net w'))
    | Raise _ w' \<Rightarrow> grown w xs w'
    | Abort _ \<Rightarrow> False"
proof -
  obtain r1 o1 s1 where s1: "sys K (SysSelect [sv_sock (server w)]) (net w) = (r1, o1, s1)" by (cases "sys K (SysSelect [sv_sock (server w)]) (net w)")
  obtain r2 o2 s2 where s2: "sys K (SysAccept (sv_sock (server w))) s1 = (r2, o2, s2)" by (cases "sys K (SysAccept (sv_sock (server w))) s1")
  define s3 where "s3 = configure_socket K (of_int r2) s2"
  obtain a w1 where w1: "add_client (new_client junk (of_int r2) 0) (w\<lparr>net := s3\<rparr>) = (a, w1)" by force
  have inv: "server_inv (w\<lparr>net := s\<rparr>) xs" for s using assms(1) by simp
  note new = insert_new_client [OF inv assms(2) w1]
  from new have "grown w xs (insert_client a w1)" unfolding grown_def by (intro exI [of _ "[a]"]) auto
  moreover have "grown w xs (w\<lparr>net := s\<rparr>)" for s using grown_refl [OF assms(1)] by (rule grown_net)
  moreover have "length (trace s1) = Suc (length (trace (net w)))" "length (trace s2) = Suc (length (trace s1))"
      "length (trace s2) \<le> length (trace s3)"
    using sys_trace [OF s1] sys_trace [OF s2] configure_socket_trace [of s2 K "of_int r2"] by (simp_all add: s3_def)
  ultimately show ?thesis using new(4,5) by (simp add: accept_round_def s1 s2 w1 Let_def flip: s3_def)
qed

text \<open>Another client always fits, and the clock decides whether there is another round.\<close>

lemma room_for_client: "server_inv w xs \<Longrightarrow> num_clients (server w) < wait \<Longrightarrow> length xs + 1 < 2 ^ 32"
  using unsigned_less [of wait, where ?'a = nat] by (simp add: word_less_nat_alt server_inv_def)

lemma seconds_past:
  assumes "clock_passes K t c0" and "seconds K s = (tv, s')"
  shows "trace s' = trace s @ [SysGettimeofday]" and "c0 \<le> length (trace s) \<Longrightarrow> t < tv"
  using assms by (auto simp: clock_passes_def seconds_def sys_plain_def Let_def)

lemma accept_loop_ok:
  assumes "clock_passes K (uint t) c0"
  shows "server_inv w xs \<Longrightarrow> fd_fits (sv_sock (server w)) \<Longrightarrow> \<exists>r. accept_loop K junk wait t w = Some r \<and> accepted_ok wait w xs r"
proof (induction "c0 - length (trace (net w))" arbitrary: w xs rule: less_induct)
  case less
  show ?case
  proof (cases "wait > num_clients (server w)")
    case False
    with less.prems show ?thesis by (subst accept_loop.simps) (auto simp: accepted_ok_def grown_refl not_less)
  next
    case True
    note round = accept_round_ok [OF less.prems(1) room_for_client [OF less.prems(1) True], of K junk]
    show ?thesis
    proof (cases "accept_round K junk w")
      case (Ret x w1)
      with round have w1: "grown w xs w1" "sv_sock (server w1) = sv_sock (server w)" "length (trace (net w)) < length (trace (net w1))"
        by simp_all
      let ?c = "length (trace (net w1))"
      obtain tv s2 where s2: "seconds K (net w1) = (tv, s2)" by (cases "seconds K (net w1)")
      note tv = s2 seconds_past [OF assms s2]
      let ?w = "w1\<lparr>net := s2\<rparr>"
      have gr: "grown w xs ?w" using w1(1) by (rule grown_net)
      show ?thesis
      proof (cases "uint t < tv")
        case late: True
        with True Ret tv less.prems(2) gr show ?thesis by (subst accept_loop.simps) (simp add: accepted_ok_def)
      next
        case early: False
        with tv(3) have "?c < c0" by (meson not_le)
        then have "c0 - length (trace (net ?w)) < c0 - length (trace (net w))" using w1(3) tv(2) by simp
        from less.hyps [OF this] w1(2) less.prems(2)
        have IH: "\<exists>r. accept_loop K junk wait t ?w = Some r \<and> accepted_ok wait ?w ys r" if "server_inv ?w ys" for ys
          using that by simp
        obtain n where n: "server_inv ?w (n @ xs)" using gr by (auto simp: grown_def)
        obtain r where r: "accept_loop K junk wait t ?w = Some r" using IH [OF n] by blast
        then have "accepted_ok wait w xs r" using IH by (intro accepted_ok_trans [OF gr]) fastforce
        with r True Ret tv early less.prems(2) show ?thesis by (subst accept_loop.simps) simp
      qed
    qed (use True round less.prems(2) in \<open>subst accept_loop.simps; simp add: accepted_ok_def\<close>)+
  qed
qed

section \<open>Closing\<close>

lemma remove_client_simps [simp]:
  "alive (remove_client a w) = alive w" "next_addr (remove_client a w) = next_addr w" "net (remove_client a w) = net w"
  "num_clients (server (remove_client a w)) = num_clients (server w) - 1"
  "cl_sock (clients (remove_client a w) b) = cl_sock (clients w b)"
  "send_rb (clients (remove_client a w) b) = send_rb (clients w b)" "recv_rb (clients (remove_client a w) b) = recv_rb (clients w b)"
  by (simp_all add: remove_client_def Let_def split: option.splits)

lemma unat_sub_one_uint32: "0 < unat n \<Longrightarrow> unat (n - 1 :: uint32) = unat n - 1"
  by (metis unat_gt_0 unat_minus_one)

lemma remove_client_inv:
  assumes "server_inv w (ys @ a # zs)"
  shows "server_inv ((remove_client a w)\<lparr>alive := alive w - {a}\<rparr>) (ys @ zs)"
proof -
  have inv: "cls.dlist w (ys @ a # zs)" "set (ys @ a # zs) \<subseteq> alive w" "\<forall>a \<in> alive w. a < next_addr w"
      "unat (num_clients (server w)) = length (ys @ a # zs)"
    using assms by (auto simp: server_inv_def)
  have d: "cls.dlist (remove_client a w) (ys @ zs)" using inv(1) by (rule cls.del_dlist) simp
  have "cls.dlist ((remove_client a w)\<lparr>alive := alive w - {a}\<rparr>) (ys @ zs)" using d by (rule cls.dlist_cong) simp_all
  moreover have "distinct (ys @ a # zs)" using inv(1) by (simp add: cls.dlist_def)
  ultimately show ?thesis using inv(2-4) by (auto simp: server_inv_def unat_sub_one_uint32)
qed

lemma destroy_client_ok:
  assumes "closes_ok K" and "a \<in> alive w" and "cl_sock (clients w a) \<noteq> 0"
    and "k_ret K (length (trace (net w))) (SysSend (cl_sock (clients w a)) 8) = 8"
  obtains w' where "destroy_client K a w = Ret () w'" and "alive w' = alive w - {a}"
    and "server w' = server w" and "next_addr w' = next_addr w" and "\<And>b. b \<noteq> a \<Longrightarrow> clients w' b = clients w b"
    and "wrote (cl_sock (clients w a)) (le_bytes 8 LEN_INVALID) (net w) (net w')"
    and "trace (net w') = trace (net w) @ [SysSend (cl_sock (clients w a)) 8, SysClose (cl_sock (clients w a))]"
proof -
  let ?sock = "cl_sock (clients w a)"
  let ?s = "(net w)\<lparr>outgoing := (outgoing (net w))(?sock := outgoing (net w) ?sock @ le_bytes 8 LEN_INVALID),
    trace := trace (net w) @ [SysSend ?sock 8, SysClose ?sock]\<rparr>"
  have "destroy_client K a w = Ret () ((set_client a (\<lambda>c. c\<lparr>cl_sock := 0\<rparr>) (w\<lparr>net := ?s\<rparr>))\<lparr>alive := alive w - {a}\<rparr>)"
    using assms by (simp add: destroy_client_def stream_write_def sys_def Let_def closes_ok_def)
  then show thesis by (rule that) (simp_all add: wrote_def)
qed

text \<open>The list with its pointers depends only on the clients in it.\<close>

lemma dlist_clients_cong:
  fixes w w' :: "'m process"
  shows "cls.dlist w xs \<Longrightarrow> sv_clients (server w') = sv_clients (server w) \<Longrightarrow> (\<And>a. a \<in> set xs \<Longrightarrow> clients w' a = clients w a) \<Longrightarrow> cls.dlist w' xs"
  using cls.chain_cong [of w None xs None w'] by (simp add: cls.dlist_def)

section \<open>Properties\<close>

definition small_process :: "byte list \<Rightarrow> unit process" where
  "small_process bs =
     \<lparr>clients = (\<lambda>_. new_client (\<lambda>_. 0) 4 1), alive = {5}, next_addr = 6,
      server = \<lparr>sv_sock = 3, sv_clients = None, num_clients = 0, sv_context = empty_context, ip_address = 0\<rparr>,
      net = small_os\<lparr>incoming := (\<lambda>_. bs)\<rparr>, store = ()\<rparr>"

definition no_methods :: "unit methods" where
  "no_methods = \<lparr>m_write = (\<lambda>_. None), m_read = (\<lambda>_. None)\<rparr>"

lemma small_process_ok [simp]: "conn_ok (small_process bs) 5" "incoming (net (small_process bs)) fd = bs" "sock_of (small_process bs) a = 4"
  by (simp_all add: conn_ok_def small_process_def new_client_def idle_ready)

text \<open>
  C10: Values that a client sends arrive at the server as the values they are reloaded as, one by one and in order, in whatever
  portions the two systems transfer the bytes: sending puts the length-prefixed encodings on the wire, and
  receiving takes exactly these bytes off it and leaves what follows.
\<close>

theorem values_arrive:
  assumes "streams_ok K" and "streams_ok K'" and "conn_ok w a" and "conn_ok w' b" and "list_all (travels A d) vs"
    and "incoming (net w') (sock_of w' b) = concat (map (frame A) vs) @ rest"
  shows "(\<exists>w1. put_all (client_put A K M a) vs w = Some w1 \<and>
      outgoing (net w1) (sock_of w1 a) = outgoing (net w) (sock_of w a) @ concat (map (frame A) vs)) \<and>
    (\<exists>w2. get_all (server_get A K' M' d junk b) (length vs) w' = Some (map (arrived A) vs, w2) \<and>
      incoming (net w2) (sock_of w2 b) = rest)"
  using c2s.arrives [of K w a K' w' b A d vs rest M M' junk] assms by blast

definition sample_values :: "lua_value list" where
  "sample_values = [LString [1, 2], LBoolean True]"

theorem values_arrive_witness:
  "(\<exists>w1 :: unit process. put_all (client_put small_lua small_kernel no_methods 5) sample_values (small_process []) = Some w1 \<and>
      outgoing (net w1) (sock_of w1 5) = outgoing (net (small_process [])) (sock_of (small_process []) 5) @ concat (map (frame small_lua) sample_values)) \<and>
    (\<exists>w2 :: unit process. get_all (server_get small_lua small_kernel no_methods 0 (\<lambda>_. 0) 5) (length sample_values)
        (small_process (concat (map (frame small_lua) sample_values) @ [7])) = Some (map (arrived small_lua) sample_values, w2) \<and>
      incoming (net w2) (sock_of w2 5) = [7])"
  by (rule values_arrive) (simp_all add: sample_values_def travels_def sendable_def stack_ok_def str_bytes_def max_object_def)

text \<open>
  C14: A broadcast sends the value to every client of the server that has the tag, to all of them when no tag is given, and to
  no other; the connections stay in order. (Ids are assumed to lie between \<open>-2^30\<close> and \<open>2^30\<close>, see the comparison of ids.)
\<close>

theorem server_broadcast_delivers:
  assumes "server_inv w xs" and "\<forall>a \<in> set xs. conn_ok w a" and "distinct (map (sock_of w) xs)" and "small_ids w xs"
    and "streams_ok K" and "qsort_ok qsort" and "sendable A v"
  shows "\<exists>w'. cliser_server_broadcast A K M qsort v tag w = Some (Ret [] w') \<and> server_inv w' xs \<and> (\<forall>a \<in> set xs. conn_ok w' a) \<and>
    (\<forall>fd. outgoing (net w') fd = outgoing (net w) fd @
       (if \<exists>a \<in> set xs. fd = sock_of w a \<and> tag_matches tag (clients w a) then frame A v else []))"
proof -
  let ?xs = "filter (\<lambda>a. tag_matches tag (clients w a)) xs"
  let ?ys = "qsort (compare_clients w) ?xs"
  have ys: "set ?ys = set ?xs" "distinct (map (sock_of w) ?ys)"
    using qsort_set [OF assms(6) compare_preorder(1) [OF small_ids_filter [OF assms(4)]]] assms(3) distinct_map_filter by blast+
  obtain w1 where w1: "send_to_each A K M v (map_option LString tag) ?ys w = Some (Ret [] w1)" "same_clients w w1"
      "\<forall>b. conn_ok w b \<longrightarrow> conn_ok w1 b"
      "\<forall>fd. outgoing (net w1) fd = outgoing (net w) fd @ (if fd \<in> sock_of w ` set ?ys then frame A v else [])"
    using send_to_each_ok [OF assms(5,7), of ?ys w M "map_option LString tag"] ys assms(2) by auto
  have "server_inv (count_tx None w1) xs" using assms(1) by (rule server_inv_same) (use w1(2) in simp)
  moreover have "fd \<in> sock_of w ` set ?ys \<longleftrightarrow> (\<exists>a \<in> set xs. fd = sock_of w a \<and> tag_matches tag (clients w a))" for fd
    using ys(1) by auto
  ultimately show ?thesis
    using w1 assms(2) by (intro exI [of _ "count_tx None w1"]) (simp add: cliser_server_broadcast_def collect_clients_all [OF assms(1)])
qed

definition small_server :: "unit process" where
  "small_server = snd (let (a, w) = add_client ((new_client (\<lambda>_. 0) 4 0)\<lparr>cl_tag := Some [65], cl_id := 2\<rparr>) (small_process []);
     (b, w) = add_client ((new_client (\<lambda>_. 0) 7 0)\<lparr>cl_id := 1\<rparr>) (insert_client a w) in (b, insert_client b w))"

lemma small_server_ok [simp]:
  "server_inv small_server [7, 6]" "\<forall>a \<in> set [7, 6]. conn_ok small_server a" "distinct (map (sock_of small_server) [7, 6])"
  "small_ids small_server [7, 6]" "fd_fits (sv_sock (server small_server))" "sock_of small_server 6 = 4" "trace (net small_server) = []"
  by (simp_all add: small_server_def small_process_def add_client_def insert_client_def set_client_def set_server_def new_client_def
      server_inv_def cls.dlist_def conn_ok_def small_ids_def fd_fits_def FD_SETSIZE_def idle_ready small_os_def)

theorem server_broadcast_delivers_witness:
  "\<exists>w'. cliser_server_broadcast small_lua small_kernel no_methods insertion_sort (LBoolean True) (Some [65]) small_server = Some (Ret [] w') \<and>
    server_inv w' [7, 6] \<and> (\<forall>a \<in> set [7, 6]. conn_ok w' a) \<and>
    (\<forall>fd. outgoing (net w') fd = outgoing (net small_server) fd @
       (if \<exists>a \<in> set [7, 6]. fd = sock_of small_server a \<and> tag_matches (Some [65]) (clients small_server a) then frame small_lua (LBoolean True) else []))"
  by (rule server_broadcast_delivers [OF small_server_ok(1-4) small_kernel_streams_ok insertion_sort_ok]) (simp add: sendable_def)

text \<open>
  C16: The loop that waits for clients always ends, with enough clients or with an error, when the clock runs. The list is then
  the old one with the new clients in front of it, the number of clients is its length, and the new connections are ready.
\<close>

theorem server_accepts:
  assumes "clock_runs K" and "server_inv w xs" and "fd_fits (sv_sock (server w))"
  shows "\<exists>r. accept_loop K junk wait t w = Some r \<and> (case r of
      Ret _ w' \<Rightarrow> wait \<le> num_clients (server w') \<and> (\<exists>new. server_inv w' (new @ xs) \<and> (\<forall>a \<in> set new. conn_ok w' a))
    | Raise _ w' \<Rightarrow> \<exists>new. server_inv w' (new @ xs)
    | Abort _ \<Rightarrow> False)"
proof -
  obtain c0 where "clock_passes K (uint t) c0" using assms(1) by (auto simp: clock_runs_def)
  from accept_loop_ok [OF this assms(2,3), of junk wait] show ?thesis
    by (fastforce simp: accepted_ok_def grown_def split: lres.splits)
qed

text \<open>A system whose clock counts its calls, and one that transfers everything at once.\<close>

definition ticking_kernel :: kernel where
  "ticking_kernel = small_kernel\<lparr>k_out := (\<lambda>c x. [int c])\<rparr>"

definition whole_kernel :: kernel where
  "whole_kernel = small_kernel\<lparr>k_ret := (\<lambda>c x. case x of SysPeek fd n \<Rightarrow> int n
     | _ \<Rightarrow> (case transfer_size x of None \<Rightarrow> 0 | Some n \<Rightarrow> int n))\<rparr>"

text \<open>A system on which a client is always waiting to be accepted.\<close>

definition accepting_kernel :: kernel where
  "accepting_kernel = small_kernel\<lparr>k_ret := (\<lambda>c x. case x of SysSelect _ \<Rightarrow> 1 | SysAccept _ \<Rightarrow> 9 | _ \<Rightarrow> 0),
     k_out := (\<lambda>c x. case x of SysSelect _ \<Rightarrow> [3] | _ \<Rightarrow> [int c])\<rparr>"

lemma counting_clock: "(\<And>c. k_out K c SysGettimeofday = [int c]) \<Longrightarrow> clock_runs K"
proof -
  assume "\<And>c. k_out K c SysGettimeofday = [int c]"
  moreover have "t < int c" if "nat t + 1 \<le> c" for c t using that by linarith
  ultimately have "clock_passes K t (nat t + 1)" for t by (simp add: clock_passes_def)
  then show ?thesis by (auto simp: clock_runs_def)
qed

lemma ticking_kernel_runs [simp]: "clock_runs ticking_kernel" "clock_runs accepting_kernel"
  by (simp_all add: counting_clock ticking_kernel_def accepting_kernel_def)

lemma whole_kernel_ok [simp]: "streams_ok whole_kernel" "closes_ok whole_kernel"
  "k_ret whole_kernel c (SysSend fd n) = int n" "k_ret whole_kernel c (SysPeek fd n) = int n"
  by (simp_all add: streams_ok_def closes_ok_def whole_kernel_def split: syscall.splits)

lemma accepting_round:
  "(case accept_loop accepting_kernel (\<lambda>_. 0) 3 100 small_server of Some (Ret _ w') \<Rightarrow> num_clients (server w') = 3 | _ \<Rightarrow> False)"
proof -
  have s: "num_clients (server small_server) = 2" "sv_sock (server small_server) = 3"
    by (simp_all add: small_server_def small_process_def add_client_def insert_client_def set_client_def set_server_def Let_def split: option.splits)
  obtain w1 where w1: "accept_round accepting_kernel (\<lambda>_. 0) small_server = Ret () w1" "num_clients (server w1) = 3" "length (trace (net w1)) < 100"
    by (simp add: accept_round_def s sys_def accepting_kernel_def small_kernel_def configure_socket_def sys_plain_def add_client_def insert_client_def
        set_client_def set_server_def Let_def split: option.splits)
  have clock: "k_out accepting_kernel c SysGettimeofday = [int c]" for c by (simp add: accepting_kernel_def)
  have fits: "fd_fits 3" by (simp add: fd_fits_def FD_SETSIZE_def)
  show ?thesis
    using w1(3) by (subst accept_loop.simps, simp add: s w1(1,2) clock fits seconds_def sys_plain_def Let_def)
      (subst accept_loop.simps, simp add: w1(2))
qed

theorem server_accepts_witness:
  "(\<exists>r. accept_loop ticking_kernel (\<lambda>_. 0) 5 2 small_server = Some r \<and> (case r of
      Ret _ w' \<Rightarrow> 5 \<le> num_clients (server w') \<and> (\<exists>new. server_inv w' (new @ [7, 6]) \<and> (\<forall>a \<in> set new. conn_ok w' a))
    | Raise _ w' \<Rightarrow> \<exists>new. server_inv w' (new @ [7, 6])
    | Abort _ \<Rightarrow> False)) \<and>
   (case accept_loop accepting_kernel (\<lambda>_. 0) 3 100 small_server of
      Some (Ret _ w') \<Rightarrow> num_clients (server w') = 3 \<and> (\<exists>new. server_inv w' (new @ [7, 6]) \<and> (\<forall>a \<in> set new. conn_ok w' a))
    | _ \<Rightarrow> False)"
proof
  let ?r = "accept_loop accepting_kernel (\<lambda>_. 0) 3 100 small_server"
  have "case ?r of Some (Ret _ w') \<Rightarrow> num_clients (server w') = 3 | _ \<Rightarrow> False" 
    by (rule accepting_round)
  then show "case ?r of
      Some (Ret _ w') \<Rightarrow> num_clients (server w') = 3 \<and> (\<exists>new. server_inv w' (new @ [7, 6]) \<and> (\<forall>a \<in> set new. conn_ok w' a))
    | _ \<Rightarrow> False"
    using server_accepts [OF ticking_kernel_runs(2) small_server_ok(1,5), of "\<lambda>_. 0" 3 100] by (auto split: option.splits lres.splits)
qed (rule server_accepts [OF ticking_kernel_runs(1) small_server_ok(1,5)])

text \<open>
  C15: Closing a client takes it off the server's list, leaves the other clients with working connections and nothing more on their wires, frees it,
  puts the length no message has on its own wire, after which the peer's receive reports the disconnection, and then closes its socket.
\<close>

theorem server_client_close_unlinks:
  assumes "server_inv w (ys @ a # zs)" and "closes_ok K" and "cl_sock (clients w a) \<noteq> 0"
    and "k_ret K (length (trace (net w))) (SysSend (cl_sock (clients w a)) 8) = 8"
  shows "\<exists>w'. cliser_server_client_close K (Some a) w = Ret () (None, w') \<and> server_inv w' (ys @ zs) \<and> a \<notin> alive w' \<and>
    (\<forall>b. b \<noteq> a \<longrightarrow> conn_ok w b \<longrightarrow> conn_ok w' b) \<and>
    outgoing (net w') = (outgoing (net w))(sock_of w a := outgoing (net w) (sock_of w a) @ le_bytes 8 LEN_INVALID) \<and>
    trace (net w') = trace (net w) @ [SysSend (sock_of w a) 8, SysClose (sock_of w a)]"
proof -
  have a: "a \<in> alive w" "a \<notin> set (ys @ zs)" using assms(1) by (auto simp: server_inv_def cls.dlist_def)
  note inv = remove_client_inv [OF assms(1)]
  obtain w' where w': "destroy_client K a (remove_client a w) = Ret () w'" "alive w' = alive w - {a}"
      "server w' = server (remove_client a w)" "next_addr w' = next_addr w" "\<And>b. b \<noteq> a \<Longrightarrow> clients w' b = clients (remove_client a w) b"
      "wrote (sock_of w a) (le_bytes 8 LEN_INVALID) (net w) (net w')"
      "trace (net w') = trace (net w) @ [SysSend (sock_of w a) 8, SysClose (sock_of w a)]"
    by (rule destroy_client_ok [OF assms(2), of a "remove_client a w"]) (use a assms(3,4) in simp_all)
  have "cls.dlist w' (ys @ zs)"
    by (rule dlist_clients_cong [of "(remove_client a w)\<lparr>alive := alive w - {a}\<rparr>"])
      (use inv w'(3,5) a(2) in \<open>auto simp: server_inv_def\<close>)
  then have "server_inv w' (ys @ zs)" using inv w'(2-4) by (simp add: server_inv_def)
  moreover have "conn_ok w' b" if "b \<noteq> a" "conn_ok w b" for b
    using that w'(2,5) by (simp add: conn_ok_def)
  ultimately show ?thesis using w' a(1) by (auto simp: cliser_server_client_close_def wrote_def)
qed

theorem server_client_close_unlinks_witness:
  "\<exists>w'. cliser_server_client_close whole_kernel (Some 6) small_server = Ret () (None, w') \<and> server_inv w' ([7] @ []) \<and> 6 \<notin> alive w' \<and>
    (\<forall>b. b \<noteq> 6 \<longrightarrow> conn_ok small_server b \<longrightarrow> conn_ok w' b) \<and>
    outgoing (net w') = (outgoing (net small_server))(sock_of small_server 6 := outgoing (net small_server) (sock_of small_server 6) @ le_bytes 8 LEN_INVALID) \<and>
    trace (net w') = trace (net small_server) @ [SysSend (sock_of small_server 6) 8, SysClose (sock_of small_server 6)]"
  by (rule server_client_close_unlinks) simp_all

text \<open>
  After its peer has closed the connection a receive raises the error that says so.
\<close>

theorem recv_after_close_raises:
  assumes "streams_ok K" and "a \<in> alive w" and "incoming (net w) (sock_of w a) = le_bytes 8 LEN_INVALID @ rest"
  shows "\<exists>w'. cliser_client_recv A K M d junk None None (Some a) w =
    Some (Raise (LuaErrStr (''remote peer disconnected'' @ [CHR 0x0A])) w')"
  by (rule sock_recv_ok [OF assms(1,3), of 8 "cl_context (clients w a)"])
    (auto simp: cliser_client_recv_def with_client_def assms(2) recv_value_def extra_arg_def get_context_def sock_recv_msg_def Let_def)

theorem recv_after_close_raises_witness:
  "\<exists>w'. cliser_client_recv small_lua small_kernel no_methods 0 (\<lambda>_. 0) None None (Some 5) (small_process (le_bytes 8 LEN_INVALID @ [])) =
    Some (Raise (LuaErrStr (''remote peer disconnected'' @ [CHR 0x0A])) w')"
  by (rule recv_after_close_raises [where rest = "[]"]) (simp_all, simp add: small_process_def)

text \<open>
  C35: A peer that is gone without having closed its client (it was killed, say) is not noticed: the receive loop calls \<open>recv\<close>, which
  returns 0, for ever.
\<close>

theorem recv_hangs_at_end:
  assumes "streams_ok K" and "a \<in> alive w" and "hangup (net w) (sock_of w a)" and "length (incoming (net w) (sock_of w a)) < 8"
  shows "cliser_client_recv A K M d junk None None (Some a) w = None"
  using sock_recv_short [OF assms(1), of "net w" "sock_of w a" 8 "cl_context (clients w a)"] assms(2,4)
  by (simp add: cliser_client_recv_def with_client_def recv_value_def extra_arg_def get_context_def sock_recv_msg_def)

theorem recv_hangs_at_end_witness:
  "cliser_client_recv small_lua small_kernel no_methods 0 (\<lambda>_. 0) None None (Some 5)
     ((small_process [])\<lparr>net := small_os\<lparr>hangup := (\<lambda>_. True)\<rparr>\<rparr>) = None"
  by (rule recv_hangs_at_end) (simp_all add: small_process_def small_os_def)

text \<open>
  \<open>recvAsync\<close> can block. It looks for as many bytes as the length of the message says, but looks for them at
  the beginning of the stream, where the length itself is: with the last eight bytes of the message still to come it
  takes the message to be complete, and then waits for them.
\<close>

theorem recv_async_blocks:
  assumes "streams_ok K" and "\<forall>c fd n. k_ret K c (SysPeek fd n) = int n" and "conn_ok w a"
    and "incoming (net w) (sock_of w a) = le_bytes 8 len @ part" and "len \<le> SEND_RECV_SIZE"
    and "length part < unat len" and "unat len \<le> length part + 8"
  shows "cliser_client_recv_async A K d junk (Some a) w = None"
proof -
  let ?sock = "sock_of w a" and ?rb = "recv_rb (clients w a)" and ?cc = "cl_context (clients w a)"
  let ?s1 = "(net w)\<lparr>trace := trace (net w) @ [SysPeek ?sock 8]\<rparr>"
  let ?s2 = "(net w)\<lparr>trace := trace (net w) @ [SysPeek ?sock 8, SysPeek ?sock (unat len)]\<rparr>"
  let ?bs = "take (unat len) (le_bytes 8 len @ part)"
  have len: "unat len \<le> 16384" using assms(5) by (simp add: word_le_nat_alt)
  have p1: "stream_peek K ?sock 8 (net w) = (8, le_bytes 8 len, ?s1)"
    using assms(2,4) by (simp add: stream_peek_def sys_def Let_def)
  have p2: "stream_peek K ?sock (unat len) ?s1 = (int (unat len), ?bs, ?s2)"
    using assms(2,4,7) by (simp add: stream_peek_def sys_def Let_def)
  obtain m where m: "mem_write (ringbuffer_buf_ptr ?rb) 0 ?bs 0 (length ?bs) = Ok m"
    using assms(3,7) len by (auto simp: mem_write_Ok ringbuffer_buf_ptr_def conn_ok_def ready_def rb_bounds_def)
  have peek: "sock_recv_msg_peek K ?sock (?rb, net w) = Ret (int (unat len)) (?rb\<lparr>buf := m\<rparr>, ?s2)"
    using p1 p2 m assms(5) by (simp add: sock_recv_msg_peek_def Let_def not_less)
  have in2: "incoming ?s2 ?sock = le_bytes 8 len @ part" using assms(4) by simp
  obtain c1 s3 where r1: "sock_recv K ?sock 8 (?cc, ?s2) = Some (8, le_bytes 8 len, c1, s3)" "incoming s3 ?sock = part"
    by (rule sock_recv_ok [OF assms(1) in2, of 8 ?cc]) simp_all
  have r2: "sock_recv K ?sock len (c1, s3) = None" by (rule sock_recv_short [OF assms(1)]) (use r1(2) assms(6) in simp)
  have "len \<noteq> LEN_INVALID" using len by (auto simp: LEN_INVALID_def)
  then have "sock_recv_msg A K d junk ?sock (?rb\<lparr>buf := m\<rparr>, ?cc, ?s2) = None"
    using r1(1) r2 assms(5) by (simp add: sock_recv_msg_def checked_ok Let_def not_less)
  moreover have "0 < int (unat len)" using assms(6) by (subst of_nat_0_less_iff) linarith
  ultimately show ?thesis
    using peek conn_ok_alive [OF assms(3)] by (simp add: cliser_client_recv_async_def with_client_def)
qed

theorem recv_async_blocks_witness:
  "cliser_client_recv_async small_lua whole_kernel 0 (\<lambda>_. 0) (Some 5) (small_process (le_bytes 8 (11 :: size_t) @ [4, 2, 0])) = None"
  by (rule recv_async_blocks [where len = 11 and part = "[4, 2, 0]"]) (simp_all add: SEND_RECV_SIZE_def)

text \<open>
  A send that fails because the value cannot be saved leaves the bytes written so far in the buffer, and the next message
  begins with them: here a table with a light userdata, which is refused, and then the value false.
\<close>

theorem send_after_failure_corrupts:
  "(case sock_send_msg small_lua small_kernel 2 2 (LTable [(LBoolean True, LLightUserdata 1)] NoMeta) 4
        (ringbuffer_create (\<lambda>_. 0) 64, empty_context, small_os) of
      Some (Raise (LuaErrno e) st) \<Rightarrow> e = EPERM \<and>
        (case sock_send_msg small_lua small_kernel 2 2 (LBoolean False) 4 st of
           Some (Ret _ (rb, cc, s)) \<Rightarrow> outgoing s 4 = le_bytes 8 (5 :: size_t) @ [5, 1, 1, 1, 0] \<and>
             frame small_lua (LBoolean False) = le_bytes 8 (2 :: size_t) @ [1, 0]
         | _ \<Rightarrow> False)
    | _ \<Rightarrow> False)"
  by code_simp

definition refusing_kernel :: kernel where
  "refusing_kernel = small_kernel\<lparr>
     k_ret := (\<lambda>c x. case x of SysSocket \<Rightarrow> 5 | SysConnect _ \<Rightarrow> - 111 | SysClose _ \<Rightarrow> if c = 9 then 0 else - 9 | _ \<Rightarrow> 0),
     k_out := (\<lambda>c x. case x of SysGettimeofday \<Rightarrow> [if c = 1 then 0 else 1000] | _ \<Rightarrow> [])\<rparr>"

text \<open>
  When the time to connect is over, the socket, which the loop has closed, is closed again, and the error raised is that of the
  second \<open>close\<close> and not that of \<open>connect\<close>: here \<open>EBADF\<close> in place of \<open>ECONNREFUSED\<close>.
\<close>

theorem client_timeout_closes_twice:
  "(case cliser_client refusing_kernel (\<lambda>_. 0) None (Some [56]) (small_process []) of
      Some (Raise (LuaErrno e) w) \<Rightarrow> e = 9 \<and> filter (\<lambda>x. x = SysClose 5) (trace (net w)) = [SysClose 5, SysClose 5]
    | _ \<Rightarrow> False)"
  by code_simp

text \<open>
  The handlers of a closed server client raise an error; asking for its address instead follows a null pointer.
\<close>

theorem client_address_of_closed:
  "cliser_server_client_address K junk None w = Abort OutOfBounds \<and> (\<exists>e. cliser_server_id i None w = Some (Raise e w))"
  by (simp add: cliser_server_client_address_def cliser_server_id_def with_handle_def)

end
