(* ===== verification/Workqueue.thy ===== *)
theory Workqueue
  imports Growth DList
begin

text \<open>
  Workqueues, \<^verbatim>\<open>src/workqueue.c\<close>: the two queues between an owner thread and its workers, and the
  process-wide registry of named workqueues with its reference counts. The workqueues are objects at
  addresses; an access to a freed one is a fault.
\<close>

section \<open>Model\<close>

record queue =
  q_rb :: ringbuffer
  q_mutex :: pmutex
  q_cond :: "cond_call list"
  q_num_items :: uint32

record workqueue =
  wq_next :: "addr option"
  wq_prev :: "addr option"
  wq_refcount :: cint
  wq_size_increment :: size_t
  wq_name :: "byte list option"
  questions :: queue
  answers :: queue
  owner_thread :: tid

text \<open>The registry: the objects, which of them are allocated, \<open>workqueue_head\<close> and \<open>workqueue_mutex\<close>.\<close>

record registry =
  objs :: "addr \<Rightarrow> workqueue"
  live :: "addr set"
  wq_head :: "addr option"
  wq_mutex :: pmutex

definition set_obj :: "addr \<Rightarrow> (workqueue \<Rightarrow> workqueue) \<Rightarrow> registry \<Rightarrow> registry" where
  "set_obj a f s = s\<lparr>objs := (objs s)(a := f (objs s a))\<rparr>"

definition workqueue_one_time_init :: "(addr \<Rightarrow> workqueue) \<Rightarrow> registry" where
  "workqueue_one_time_init os = \<lparr>objs = os, live = {}, wq_head = None, wq_mutex = pthread_mutex_init\<rparr>"

definition workqueue_insert :: "addr \<Rightarrow> registry \<Rightarrow> registry" where
  "workqueue_insert a s =
     (if wq_name (objs s a) = None then s
      else let s = (case wq_head s of
              None \<Rightarrow> s
            | Some h \<Rightarrow> set_obj a (\<lambda>w. w\<lparr>wq_next := Some h\<rparr>) (set_obj h (\<lambda>w. w\<lparr>wq_prev := Some a\<rparr>) s))
        in s\<lparr>wq_head := Some a\<rparr>)"

definition workqueue_remove :: "addr \<Rightarrow> registry \<Rightarrow> registry" where
  "workqueue_remove a s =
     (if wq_name (objs s a) = None then s
      else
        let s = (if wq_head s = Some a then s\<lparr>wq_head := wq_next (objs s a)\<rparr> else s);
            s = (case wq_next (objs s a) of None \<Rightarrow> s
                 | Some n \<Rightarrow> set_obj n (\<lambda>w. w\<lparr>wq_prev := wq_prev (objs s a)\<rparr>) s)
        in case wq_prev (objs s a) of None \<Rightarrow> s
           | Some p \<Rightarrow> set_obj p (\<lambda>w. w\<lparr>wq_next := wq_next (objs s a)\<rparr>) s)"

text \<open>The search through the list; \<open>None\<close> is the search that never ends. Names are C strings, compared with \<open>strcmp\<close> and stored by \<open>strdup\<close> up to the first zero byte.\<close>

partial_function (option) find_loop :: "registry \<Rightarrow> byte list \<Rightarrow> addr option \<Rightarrow> addr option option" where
  "find_loop s name p =
     (case p of
        None \<Rightarrow> Some None
      | Some a \<Rightarrow> if map_option c_string (wq_name (objs s a)) = Some (c_string name) then Some (Some a) else find_loop s name (wq_next (objs s a)))"

definition workqueue_find :: "th_api \<Rightarrow> byte list option \<Rightarrow> registry \<Rightarrow> (addr option \<times> registry) option" where
  "workqueue_find T name s =
     (case name of
        None \<Rightarrow> Some (None, s)
      | Some n \<Rightarrow>
          (case find_loop s n (wq_head s) of
             None \<Rightarrow> None
           | Some None \<Rightarrow> Some (None, s)
           | Some (Some a) \<Rightarrow> Some (Some a, set_obj a (\<lambda>w. w\<lparr>wq_refcount := th_inc T (wq_refcount w)\<rparr>) s)))"

definition workqueue_init_queue :: "(nat \<Rightarrow> byte) \<Rightarrow> size_t \<Rightarrow> queue" where
  "workqueue_init_queue junk sz =
     \<lparr>q_rb = ringbuffer_create junk sz, q_mutex = pthread_mutex_init, q_cond = [], q_num_items = 0\<rparr>"

definition workqueue_destroy_queue :: "queue \<Rightarrow> unit res" where
  "workqueue_destroy_queue q = res_bind (ringbuffer_destroy (Some (q_rb q))) (\<lambda>_. Ok ())"

type_synonym 'a wq_outcome = "(registry, 'a) outcome"

text \<open>
  \<open>workqueue_open\<close> by thread \<open>t\<close>, with \<open>new\<close> the address \<open>calloc\<close> returns: the address put into the new userdata
  and whether it was created.
\<close>

definition workqueue_open ::
    "th_api \<Rightarrow> (nat \<Rightarrow> byte) \<Rightarrow> tid \<Rightarrow> addr \<Rightarrow> byte list option \<Rightarrow> size_t \<Rightarrow> size_t \<Rightarrow> registry \<Rightarrow>
      (addr \<times> int) wq_outcome option" where
  "workqueue_open T junk t new name sz size_increment s =
     (case pthread_mutex_lock t (wq_mutex s) of None \<Rightarrow> Some LockWait | Some m \<Rightarrow>
       (case workqueue_find T name (s\<lparr>wq_mutex := m\<rparr>) of
          None \<Rightarrow> None
        | Some (found, s) \<Rightarrow>
            let (a, creator, s) = (case found of
                Some a \<Rightarrow> (a, 0, s)
              | None \<Rightarrow> (new, 1, workqueue_insert new
                  (s\<lparr>live := insert new (live s),
                     objs := (objs s)(new :=
                       \<lparr>wq_next = None, wq_prev = None, wq_refcount = 1, wq_size_increment = size_increment,
                        wq_name = map_option c_string name, questions = workqueue_init_queue junk sz,
                        answers = workqueue_init_queue junk sz, owner_thread = t\<rparr>)\<rparr>)))
            in Some (Done (Ret (a, creator) (s\<lparr>wq_mutex := pthread_mutex_unlock t (wq_mutex s)\<rparr>)))))"

definition queue_unlock :: "tid \<Rightarrow> queue \<Rightarrow> queue" where
  "queue_unlock t q = q\<lparr>q_mutex := pthread_mutex_unlock t (q_mutex q)\<rparr>"

definition workqueue_queue_read :: "lua_api \<Rightarrow> nat \<Rightarrow> tid \<Rightarrow> bool \<Rightarrow> queue \<Rightarrow> (queue, pushed list) outcome" where
  "workqueue_queue_read A d t doNotBlock q =
     (case pthread_mutex_lock t (q_mutex q) of None \<Rightarrow> LockWait | Some m \<Rightarrow>
       let q = q\<lparr>q_mutex := m\<rparr> in
       if q_num_items q \<noteq> 0 then
         (case rb_load A d (q_rb q) of
            Ret ret rb \<Rightarrow>
              let q = queue_unlock t (q\<lparr>q_rb := rb, q_num_items := q_num_items q - 1\<rparr>)
              in (case ret of
                    LoadErr e \<Rightarrow> Done (Raise (lua_handle_error e) q)
                  | LoadEnd \<Rightarrow> Done (Ret [] q)
                  | LoadVal v \<Rightarrow> Done (Ret [PVal v] q))
          | Raise e rb \<Rightarrow> Done (Raise e (q\<lparr>q_rb := rb\<rparr>))
          | Abort f \<Rightarrow> Done (Abort f))
       else if doNotBlock then Done (Ret [] (queue_unlock t q))
       else CondWait (queue_unlock t q))"

definition workqueue_queue_write ::
    "lua_api \<Rightarrow> (nat \<Rightarrow> byte) \<Rightarrow> tid \<Rightarrow> size_t \<Rightarrow> cint \<Rightarrow> lua_value list \<Rightarrow> queue \<Rightarrow> (queue, pushed list) outcome option" where
  "workqueue_queue_write A junk t size_increment upval vs q =
     (case pthread_mutex_lock t (q_mutex q) of None \<Rightarrow> Some LockWait | Some m \<Rightarrow>
       let q = q\<lparr>q_mutex := m\<rparr> in
       case write_items A junk size_increment upval 2 vs
              \<lparr>srb = q_rb q, ltop = 1 + length vs, retained = []\<rparr> (q_num_items q) of
         None \<Rightarrow> None
       | Some (Ret ret (s, n)) \<Rightarrow>
           let q = q\<lparr>q_rb := srb s, q_num_items := n\<rparr> in
           if ret \<noteq> 0 then Some (Done (Raise (lua_handle_error (- ret)) (queue_unlock t q)))
           else Some (Done (Ret [] (queue_unlock t (q\<lparr>q_cond := q_cond q @ [Signal]\<rparr>))))
       | Some (Raise e (s, n)) \<Rightarrow> Some (Done (Raise e (q\<lparr>q_rb := srb s, q_num_items := n\<rparr>)))
       | Some (Abort f) \<Rightarrow> Some (Done (Abort f)))"

text \<open>The handlers take the pointer in the userdata, \<open>None\<close> once it was closed.\<close>

definition not_open :: "registry \<Rightarrow> 'a wq_outcome" where
  "not_open s = Done (Raise (LuaErrStr ''workqueue is not open'') s)"

fun lift_outcome :: "('q \<Rightarrow> 's) \<Rightarrow> ('q, 'a) outcome \<Rightarrow> ('s, 'a) outcome" where
  "lift_outcome f (Done (Ret x q)) = Done (Ret x (f q))"
| "lift_outcome f (Done (Raise e q)) = Done (Raise e (f q))"
| "lift_outcome f (Done (Abort e)) = Done (Abort e)"
| "lift_outcome f LockWait = LockWait"
| "lift_outcome f (CondWait q) = CondWait (f q)"

definition set_questions :: "addr \<Rightarrow> registry \<Rightarrow> queue \<Rightarrow> registry" where
  "set_questions a s q = set_obj a (\<lambda>w. w\<lparr>questions := q\<rparr>) s"

definition set_answers :: "addr \<Rightarrow> registry \<Rightarrow> queue \<Rightarrow> registry" where
  "set_answers a s q = set_obj a (\<lambda>w. w\<lparr>answers := q\<rparr>) s"

definition workqueue_read :: "lua_api \<Rightarrow> nat \<Rightarrow> tid \<Rightarrow> bool \<Rightarrow> addr option \<Rightarrow> registry \<Rightarrow> (pushed list) wq_outcome" where
  "workqueue_read A d t doNotBlock ud s = (case ud of None \<Rightarrow> not_open s
    | Some a \<Rightarrow>
      if a \<notin> live s then Done (Abort OutOfBounds)
      else if owner_thread (objs s a) = t
      then lift_outcome (set_answers a s) (workqueue_queue_read A d t doNotBlock (answers (objs s a)))
      else lift_outcome (set_questions a s) (workqueue_queue_read A d t doNotBlock (questions (objs s a))))"

definition workqueue_write_upval ::
    "cint \<Rightarrow> lua_api \<Rightarrow> (nat \<Rightarrow> byte) \<Rightarrow> tid \<Rightarrow> lua_value list \<Rightarrow> addr option \<Rightarrow> registry \<Rightarrow> (pushed list) wq_outcome option" where
  "workqueue_write_upval upval A junk t vs ud s = (case ud of None \<Rightarrow> Some (not_open s)
    | Some a \<Rightarrow>
      let w = objs s a in
      if a \<notin> live s then Some (Done (Abort OutOfBounds))
      else if owner_thread w = t
      then map_option (lift_outcome (set_questions a s))
        (workqueue_queue_write A junk t (wq_size_increment w) upval vs (questions w))
      else map_option (lift_outcome (set_answers a s))
        (workqueue_queue_write A junk t (wq_size_increment w) upval vs (answers w)))"

definition workqueue_write ::
    "lua_api \<Rightarrow> (nat \<Rightarrow> byte) \<Rightarrow> tid \<Rightarrow> lua_value list \<Rightarrow> addr option \<Rightarrow> registry \<Rightarrow> (pushed list) wq_outcome option" where
  "workqueue_write = workqueue_write_upval 0"

definition workqueue_writeup ::
    "lua_api \<Rightarrow> (nat \<Rightarrow> byte) \<Rightarrow> tid \<Rightarrow> lua_value list \<Rightarrow> addr option \<Rightarrow> registry \<Rightarrow> (pushed list) wq_outcome option" where
  "workqueue_writeup = workqueue_write_upval 1"

text \<open>
  \<open>workqueue_drain\<close>: the mark is taken with both mutexes held; then each round checks the answers, with
  the mutex of the answers held, and waits on their condition. The thread that waits goes on
  with \<open>drain_round\<close> and its mark when it is woken.
\<close>

definition drain_round :: "tid \<Rightarrow> uint32 \<Rightarrow> addr \<Rightarrow> registry \<Rightarrow> (pushed list) wq_outcome" where
  "drain_round t mark a s =
     (let q = answers (objs s a) in
      if q_num_items q < mark then CondWait (set_answers a s (queue_unlock t q))
      else Done (Ret [] (set_answers a s (queue_unlock t q))))"

definition workqueue_drain :: "tid \<Rightarrow> addr option \<Rightarrow> registry \<Rightarrow> uint32 \<times> (pushed list) wq_outcome" where
  "workqueue_drain t ud s = (case ud of None \<Rightarrow> (0, not_open s)
    | Some a \<Rightarrow>
      if a \<notin> live s then (0, Done (Abort OutOfBounds))
      else if owner_thread (objs s a) \<noteq> t
      then (0, Done (Raise (LuaErrStr ''workqueue drain is only available on the owner thread'') s))
      else
        (case pthread_mutex_lock t (q_mutex (questions (objs s a))) of None \<Rightarrow> (0, LockWait) | Some mq \<Rightarrow>
          (case pthread_mutex_lock t (q_mutex (answers (objs s a))) of None \<Rightarrow> (0, LockWait) | Some ma \<Rightarrow>
            let qq = (questions (objs s a))\<lparr>q_mutex := mq\<rparr>; qa = (answers (objs s a))\<lparr>q_mutex := ma\<rparr>;
                mark = q_num_items qa + q_num_items qq;
                s = set_questions a (set_answers a s qa) (queue_unlock t qq)
            in (mark, drain_round t mark a s))))"

text \<open>\<open>workqueue_close\<close> returns the pointer left in the userdata beside the registry.\<close>

definition workqueue_close ::
    "th_api \<Rightarrow> tid \<Rightarrow> addr option \<Rightarrow> registry \<Rightarrow> (addr option \<times> registry, pushed list) outcome" where
  "workqueue_close T t ud s = (case ud of
      None \<Rightarrow> Done (Raise (LuaErrStr ''workqueue is already closed'') (ud, s))
    | Some a \<Rightarrow>
      (case pthread_mutex_lock t (wq_mutex s) of None \<Rightarrow> LockWait | Some m \<Rightarrow>
        let s = s\<lparr>wq_mutex := m\<rparr> in
        if a \<notin> live s then Done (Abort OutOfBounds)
        else
          let (n, last) = th_dec T (wq_refcount (objs s a));
              s = set_obj a (\<lambda>w. w\<lparr>wq_refcount := n\<rparr>) s;
              r = (if last then
                  let s = workqueue_remove a s in
                  res_bind (workqueue_destroy_queue (questions (objs s a))) (\<lambda>_.
                    res_bind (workqueue_destroy_queue (answers (objs s a))) (\<lambda>_.
                      Ok (s\<lparr>live := live s - {a}\<rparr>)))
                else Ok s)
          in (case r of
                Crash f \<Rightarrow> Done (Abort f)
              | Ok s \<Rightarrow> Done (Ret [] (None, s\<lparr>wq_mutex := pthread_mutex_unlock t (wq_mutex s)\<rparr>)))))"

definition workqueue_gc ::
    "th_api \<Rightarrow> tid \<Rightarrow> addr option \<Rightarrow> registry \<Rightarrow> (addr option \<times> registry, pushed list) outcome" where
  "workqueue_gc T t ud s =
     (case pthread_mutex_lock t (wq_mutex s) of None \<Rightarrow> LockWait | Some m \<Rightarrow>
       let s = s\<lparr>wq_mutex := m\<rparr>; unlock = (\<lambda>s. s\<lparr>wq_mutex := pthread_mutex_unlock t (wq_mutex s)\<rparr>) in
       if ud = None then Done (Ret [] (ud, unlock s))
       else (case workqueue_close T t ud s of
               Done (Ret x (ud, s)) \<Rightarrow> Done (Ret [] (ud, unlock s))
             | r \<Rightarrow> r))"

definition workqueue_retain :: "th_api \<Rightarrow> tid \<Rightarrow> addr option \<Rightarrow> registry \<Rightarrow> (pushed list) wq_outcome" where
  "workqueue_retain T t ud s = (case ud of None \<Rightarrow> not_open s
    | Some a \<Rightarrow>
      if a \<notin> live s then Done (Abort OutOfBounds)
      else if wq_name (objs s a) = None then
        (case pthread_mutex_lock t (wq_mutex s) of None \<Rightarrow> LockWait | Some m \<Rightarrow>
          let s = set_obj a (\<lambda>w. w\<lparr>wq_refcount := th_inc T (wq_refcount w)\<rparr>) (s\<lparr>wq_mutex := m\<rparr>)
          in Done (Ret [] (s\<lparr>wq_mutex := pthread_mutex_unlock t (wq_mutex s)\<rparr>)))
      else Done (Ret [] s))"

definition workqueue_metatablename :: "pushed list" where
  "workqueue_metatablename = [PStr ''ipc.workqueue'']"

section \<open>The registry is a list of the named workqueues\<close>

lemma set_obj_simps [simp]:
  "objs (set_obj a f s) x = (if x = a then f (objs s a) else objs s x)"
  "live (set_obj a f s) = live s" "wq_head (set_obj a f s) = wq_head s" "wq_mutex (set_obj a f s) = wq_mutex s"
  by (simp_all add: set_obj_def)

interpretation reg: intrusive_list wq_head "\<lambda>s a. wq_next (objs s a)" "\<lambda>s a. wq_prev (objs s a)"
  "\<lambda>s a. wq_name (objs s a) \<noteq> None" workqueue_insert workqueue_remove
  by unfold_locales
    (auto simp: workqueue_insert_def workqueue_remove_def Let_def fun_eq_iff split: option.splits)

text \<open>The name of a workqueue as \<open>strcmp\<close> sees it.\<close>

definition c_name :: "workqueue \<Rightarrow> byte list option" where
  "c_name w = map_option c_string (wq_name w)"

definition reg_inv :: "registry \<Rightarrow> addr list \<Rightarrow> bool" where
  "reg_inv s xs \<longleftrightarrow> reg.dlist s xs \<and> set xs = {a \<in> live s. wq_name (objs s a) \<noteq> None} \<and>
     distinct (map (\<lambda>a. c_name (objs s a)) xs) \<and> owner (wq_mutex s) = None \<and> mutex_wf (wq_mutex s)"

definition find_name :: "registry \<Rightarrow> byte list option \<Rightarrow> addr list \<Rightarrow> addr option" where
  "find_name s name xs = (if name = None then None else List.find (\<lambda>a. c_name (objs s a) = map_option c_string name) xs)"

lemma find_loop_chain:
  "reg.chain s p xs None \<Longrightarrow>
     find_loop s n (if xs = [] then None else Some (hd xs)) = Some (List.find (\<lambda>a. c_name (objs s a) = Some (c_string n)) xs)"
proof (induction xs arbitrary: p)
  case (Cons x xs)
  then show ?case by (auto simp: find_loop.simps [of s n "Some x"] c_name_def)
qed (simp add: find_loop.simps)

lemma workqueue_find_inv:
  assumes "reg.dlist s xs" and "th_ok T"
  shows "workqueue_find T name s = Some (case find_name s name xs of
      None \<Rightarrow> (None, s) | Some a \<Rightarrow> (Some a, set_obj a (\<lambda>w. w\<lparr>wq_refcount := wq_refcount w + 1\<rparr>) s))"
  using find_loop_chain [of s None xs] assms
  by (auto simp: workqueue_find_def find_name_def reg.dlist_def th_ok_def split: option.splits)

lemma names_unchanged [simp]:
  "c_name (objs (workqueue_insert a s) x) = c_name (objs s x)"
  "c_name (objs (workqueue_remove a s) x) = c_name (objs s x)"
  "wq_name (objs (workqueue_insert a s) x) = wq_name (objs s x)"
  "wq_name (objs (workqueue_remove a s) x) = wq_name (objs s x)"
  "live (workqueue_insert a s) = live s" "live (workqueue_remove a s) = live s"
  "wq_mutex (workqueue_insert a s) = wq_mutex s" "wq_mutex (workqueue_remove a s) = wq_mutex s"
  by (auto simp: c_name_def workqueue_insert_def workqueue_remove_def Let_def split: option.splits)

lemma counts_unchanged [simp]:
  "wq_refcount (objs (workqueue_insert a s) x) = wq_refcount (objs s x)"
  "wq_refcount (objs (workqueue_remove a s) x) = wq_refcount (objs s x)"
  "owner_thread (objs (workqueue_insert a s) x) = owner_thread (objs s x)"
  by (auto simp: workqueue_insert_def workqueue_remove_def Let_def split: option.splits)

lemma not_named [simp]: "wq_name (objs s a) = None \<Longrightarrow> workqueue_insert a s = s"
  "wq_name (objs s a) = None \<Longrightarrow> workqueue_remove a s = s"
  by (simp_all add: workqueue_insert_def workqueue_remove_def)

text \<open>Changes of a registry that leave the list alone.\<close>

lemma dlist_refcount:
  "reg.dlist s xs \<Longrightarrow> reg.dlist (set_obj a (\<lambda>w. w\<lparr>wq_refcount := n w\<rparr>) s) xs"
  "reg.dlist s xs \<Longrightarrow> reg.dlist (s\<lparr>wq_mutex := m\<rparr>) xs"
  "reg.dlist s xs \<Longrightarrow> reg.dlist (s\<lparr>live := l\<rparr>) xs"
  by (erule reg.dlist_cong; auto simp: fun_eq_iff)+

lemma reg_locked:
  assumes "owner m = None" and "mutex_wf m"
  obtains m' where "pthread_mutex_lock t m = Some m'" and "pthread_mutex_unlock t m' = m"
  using assms lock_free [of m t] by (metis unlock_lock)

lemma find_name_set:
  assumes "reg_inv s xs"
  shows "find_name s name xs = Some a \<Longrightarrow> a \<in> live s \<and> c_name (objs s a) = map_option c_string name \<and> name \<noteq> None"
    and "find_name s name xs = None \<Longrightarrow> name \<noteq> None \<Longrightarrow> map_option c_string name \<notin> (\<lambda>a. c_name (objs s a)) ` set xs"
  using assms by (auto simp: find_name_def reg_inv_def find_Some_iff find_None_iff split: if_splits dest: nth_mem)

lemma new_inv:
  assumes inv: "reg_inv s xs" and new: "new \<notin> live s" and name: "find_name s name xs = None"
    and w: "wq_name w = map_option c_string name" "wq_next w = None" "wq_prev w = None"
  shows "reg_inv (workqueue_insert new (s\<lparr>live := insert new (live s), objs := (objs s)(new := w)\<rparr>))
    (if name = None then xs else new # xs)"
proof -
  let ?s = "s\<lparr>live := insert new (live s), objs := (objs s)(new := w)\<rparr>"
  have fresh: "new \<notin> set xs" and d: "reg.dlist s xs" using inv new by (auto simp: reg_inv_def)
  have head: "wq_head s \<noteq> Some new" using d fresh by (cases xs) (auto simp: reg.dlist_def)
  have "reg.chain ?s None xs None"
    by (rule reg.chain_cong [of s]) (use d fresh in \<open>auto simp: reg.dlist_def\<close>)
  then have d': "reg.dlist ?s xs" using d by (simp add: reg.dlist_def)
  have set: "set (if name = None then xs else new # xs) = {a \<in> insert new (live s). wq_name (objs ?s a) \<noteq> None}"
    using inv new w by (auto simp: reg_inv_def)
  have "map (\<lambda>a. c_name (objs ?s a)) xs = map (\<lambda>a. c_name (objs s a)) xs" using fresh by auto
  moreover have "distinct (map (\<lambda>a. c_name (objs s a)) xs)" using inv by (simp add: reg_inv_def)
  moreover have "c_name w = map_option c_string name" using w by (cases name) (simp_all add: c_name_def)
  ultimately have "distinct (map (\<lambda>a. c_name (objs ?s a)) (if name = None then xs else new # xs))"
    using find_name_set(2) [OF inv name] by (simp del: map_eq_conv)
  moreover have "reg.dlist (workqueue_insert new ?s) (if name = None then xs else new # xs)"
    using reg.ins_dlist [OF d', of new] d' w fresh by auto
  ultimately show ?thesis using inv set by (simp add: reg_inv_def)
qed

lemma release_inv:
  assumes inv: "reg_inv s xs" and a: "a \<in> live s"
  shows "reg_inv ((workqueue_remove a s)\<lparr>live := live s - {a}\<rparr>) (remove1 a xs)"
proof (cases "wq_name (objs s a) = None")
  case True
  then have "a \<notin> set xs" using inv by (simp add: reg_inv_def)
  with True inv show ?thesis by (auto simp: reg_inv_def remove1_idem intro: dlist_refcount)
next
  case False
  then have "a \<in> set xs" using inv a by (simp add: reg_inv_def)
  then obtain ys zs where xs: "xs = ys @ a # zs" "a \<notin> set ys" by (meson split_list_first)
  have "reg.dlist (workqueue_remove a s) (ys @ zs)"
    using reg.del_dlist [of s ys a zs] inv False xs by (simp add: reg_inv_def)
  then show ?thesis
    using inv xs by (auto simp: reg_inv_def remove1_append reg.dlist_def intro: dlist_refcount reg.chain_cong)
qed

lemma names_refcount:
  "wq_name (objs (set_obj a (\<lambda>w. w\<lparr>wq_refcount := n w\<rparr>) s) x) = wq_name (objs s x)"
  "c_name (objs (set_obj a (\<lambda>w. w\<lparr>wq_refcount := n w\<rparr>) s) x) = c_name (objs s x)"
  by (simp_all add: c_name_def)

lemma refcount_inv:
  "reg_inv s xs \<Longrightarrow> reg_inv (set_obj a (\<lambda>w. w\<lparr>wq_refcount := n w\<rparr>) s) xs"
  unfolding reg_inv_def names_refcount by (auto intro: dlist_refcount)

lemma find_name_mutex [simp]: "find_name (s\<lparr>wq_mutex := m\<rparr>) name xs = find_name s name xs"
  by (simp add: find_name_def)

lemma open_found:
  assumes inv: "reg_inv s xs" and T: "th_ok T" and found: "find_name s name xs = Some a"
  shows "workqueue_open T junk t new name sz inc s =
    Some (Done (Ret (a, 0) (set_obj a (\<lambda>w. w\<lparr>wq_refcount := wq_refcount w + 1\<rparr>) s)))"
proof -
  have "owner (wq_mutex s) = None" "mutex_wf (wq_mutex s)" using inv by (simp_all add: reg_inv_def)
  then obtain m where m: "pthread_mutex_lock t (wq_mutex s) = Some m" "pthread_mutex_unlock t m = wq_mutex s"
    by (rule reg_locked)
  have "reg.dlist (s\<lparr>wq_mutex := m\<rparr>) xs" using inv by (auto simp: reg_inv_def intro: dlist_refcount)
  moreover have "find_name (s\<lparr>wq_mutex := m\<rparr>) name xs = Some a" using found by simp
  ultimately show ?thesis
    using m by (simp add: workqueue_open_def workqueue_find_inv [OF _ T] Let_def) (simp add: set_obj_def)
qed

lemma open_new:
  assumes inv: "reg_inv s xs" and T: "th_ok T" and new: "new \<notin> live s" and name: "find_name s name xs = None"
  shows "\<exists>s'. workqueue_open T junk t new name sz inc s = Some (Done (Ret (new, 1) s')) \<and>
    reg_inv s' (if name = None then xs else new # xs) \<and> live s' = insert new (live s) \<and>
    wq_name (objs s' new) = map_option c_string name \<and> wq_refcount (objs s' new) = 1 \<and> owner_thread (objs s' new) = t"
proof -
  have "owner (wq_mutex s) = None" "mutex_wf (wq_mutex s)" using inv by (simp_all add: reg_inv_def)
  then obtain m where m: "pthread_mutex_lock t (wq_mutex s) = Some m" "pthread_mutex_unlock t m = wq_mutex s"
    by (rule reg_locked)
  define w where "w = \<lparr>wq_next = None, wq_prev = None, wq_refcount = 1, wq_size_increment = inc,
      wq_name = map_option c_string name, questions = workqueue_init_queue junk sz, answers = workqueue_init_queue junk sz, owner_thread = t\<rparr>"
  define s1 where "s1 = s\<lparr>live := insert new (live s), objs := (objs s)(new := w)\<rparr>"
  have "reg.dlist (s\<lparr>wq_mutex := m\<rparr>) xs" using inv by (auto simp: reg_inv_def intro: dlist_refcount)
  moreover have "find_name (s\<lparr>wq_mutex := m\<rparr>) name xs = None" using name by simp
  moreover have "workqueue_insert new (s\<lparr>wq_mutex := m, live := insert new (live s), objs := (objs s)(new := w)\<rparr>)
      \<lparr>wq_mutex := wq_mutex s\<rparr> = workqueue_insert new s1"
    by (simp add: workqueue_insert_def s1_def set_obj_def Let_def split: option.splits)
  ultimately have "workqueue_open T junk t new name sz inc s = Some (Done (Ret (new, 1) (workqueue_insert new s1)))"
    using m by (simp add: workqueue_open_def workqueue_find_inv [OF _ T] Let_def w_def s1_def)
  then show ?thesis
    using new_inv [OF inv new name, of w] by (simp add: s1_def w_def)
qed

lemma wq_close_inv:
  assumes inv: "reg_inv s xs" and T: "th_ok T" and a: "a \<in> live s"
  shows "\<exists>s'. workqueue_close T t (Some a) s = Done (Ret [] (None, s')) \<and>
    (if wq_refcount (objs s a) = 1 then reg_inv s' (remove1 a xs) \<and> live s' = live s - {a}
     else reg_inv s' xs \<and> live s' = live s \<and> wq_refcount (objs s' a) = wq_refcount (objs s a) - 1)"
proof -
  have "owner (wq_mutex s) = None" "mutex_wf (wq_mutex s)" using inv by (simp_all add: reg_inv_def)
  then obtain m where m: "pthread_mutex_lock t (wq_mutex s) = Some m" "pthread_mutex_unlock t m = wq_mutex s"
    by (rule reg_locked)
  define s1 where "s1 = set_obj a (\<lambda>w. w\<lparr>wq_refcount := wq_refcount (objs s a) - 1\<rparr>) s"
  have inv1: "reg_inv s1 xs" unfolding s1_def using refcount_inv [OF inv] by simp
  have swap: "workqueue_remove a (s1\<lparr>wq_mutex := m\<rparr>)\<lparr>live := live s - {a}, wq_mutex := wq_mutex s\<rparr> =
      workqueue_remove a s1\<lparr>live := live s - {a}\<rparr>"
    by (simp add: workqueue_remove_def s1_def set_obj_def Let_def split: option.splits)
  have s1m: "set_obj a (\<lambda>w. w\<lparr>wq_refcount := wq_refcount (objs s a) - 1\<rparr>) (s\<lparr>wq_mutex := m\<rparr>) = s1\<lparr>wq_mutex := m\<rparr>"
    by (simp add: s1_def set_obj_def)
  have live1: "live s1 = live s" "wq_mutex s1 = wq_mutex s" by (simp_all add: s1_def)
  show ?thesis
  proof (cases "wq_refcount (objs s a) = 1")
    case True
    then have "workqueue_close T t (Some a) s = Done (Ret [] (None, workqueue_remove a s1\<lparr>live := live s - {a}\<rparr>))"
      using m a T swap s1m live1
      by (simp add: workqueue_close_def th_ok_def Let_def workqueue_destroy_queue_def ringbuffer_destroy_def)
    with True release_inv [OF inv1, of a] a live1 show ?thesis by simp
  next
    case False
    then have "workqueue_close T t (Some a) s = Done (Ret [] (None, s1))"
      using m a T s1m live1 by (simp add: workqueue_close_def th_ok_def Let_def)
    with False inv1 live1 show ?thesis by (simp add: s1_def)
  qed
qed

section \<open>The two queues\<close>

text \<open>A queue no thread is using, as the list of its items, each with the upvalue flag it was written with.\<close>

definition flagged :: "(cint \<times> lua_value) list \<Rightarrow> item list" where
  "flagged xs = map (\<lambda>(upval, v). (0, upval, v)) xs"

definition queue_rel :: "lua_api \<Rightarrow> queue \<Rightarrow> (cint \<times> lua_value) list \<Rightarrow> bool" where
  "queue_rel A q xs \<longleftrightarrow> owner (q_mutex q) = None \<and> mutex_wf (q_mutex q) \<and> rb_holds A (q_rb q) (flagged xs) \<and>
     q_num_items q = of_nat (length xs) \<and> length xs < 2 ^ 32"

definition carried :: "lua_api \<Rightarrow> nat \<Rightarrow> cint \<times> lua_value \<Rightarrow> bool" where
  "carried A d x \<longleftrightarrow> (case x of (upval, v) \<Rightarrow>
     savable A False upval v \<and> reload A upval v \<noteq> None \<and> stack_ok A d (slots upval v))"

lemma flagged_simps [simp]: "flagged [] = []" "flagged ((u, v) # xs) = (0, u, v) # flagged xs"
    "flagged (xs @ ys) = flagged xs @ flagged ys"
  by (simp_all add: flagged_def)

lemma items_bytes_flagged: "items_bytes A (arg_items i upval vs) = items_bytes A (flagged (map (Pair upval) vs))"
  by (induction vs arbitrary: i) simp_all

lemma queue_locked:
  assumes "queue_rel A q xs"
  obtains m where "pthread_mutex_lock t (q_mutex q) = Some m" and "pthread_mutex_unlock t m = q_mutex q"
proof -
  have "owner (q_mutex q) = None" "mutex_wf (q_mutex q)" using assms by (simp_all add: queue_rel_def)
  then show thesis by (rule reg_locked [of "q_mutex q" t]) (rule that)
qed

lemma queue_num_items: "length xs < 2 ^ 32 \<Longrightarrow> (of_nat (length xs) :: uint32) = 0 \<longleftrightarrow> xs = []"
  by (metis length_0_conv unat_eq_zero unat_of_nat_uint32)

lemma queue_write_rel:
  assumes rel: "queue_rel A q xs" and vs: "list_all (savable A False upval) vs" and inc: "0 < inc"
    and cost: "unat (cb (q_rb q)) + args_cost A inc upval vs < max_object" and len: "length xs + length vs < 2 ^ 32"
  shows "\<exists>q'. workqueue_queue_write A junk t inc upval vs q = Some (Done (Ret [] q')) \<and>
    queue_rel A q' (xs @ map (Pair upval) vs) \<and>
    unat (cb (q_rb q')) \<le> unat (cb (q_rb q)) + args_cost A inc upval vs \<and> q_cond q' = q_cond q @ [Signal]"
proof -
  let ?s = "\<lparr>srb = q_rb q, ltop = 1 + length vs, retained = []\<rparr>"
  obtain m where m: "pthread_mutex_lock t (q_mutex q) = Some m" "pthread_mutex_unlock t m = q_mutex q"
    by (rule queue_locked [OF rel])
  obtain s' where s': "write_items A junk inc upval 2 vs ?s (q_num_items q) = Some (Ret 0 (s', q_num_items q + of_nat (length vs)))"
      "rb_holds A (srb s') (flagged xs @ arg_items 2 upval vs)"
      "unat (cb (srb s')) \<le> unat (cb (q_rb q)) + args_cost A inc upval vs"
    using write_items_spec [of A ?s "flagged xs" upval vs inc 2 junk "q_num_items q"] rel vs cost inc
    by (auto simp: queue_rel_def)
  have "rb_holds A (srb s') (flagged (xs @ map (Pair upval) vs))"
    using s'(2) by (simp add: rb_holds_def items_bytes_flagged)
  then show ?thesis
    using rel m s' len by (auto simp: workqueue_queue_write_def queue_rel_def queue_unlock_def Let_def)
qed

lemma queue_read_rel:
  assumes rel: "queue_rel A q ((u, v) # xs)" and v: "carried A d (u, v)"
  shows "\<exists>q'. workqueue_queue_read A d t nb q = Done (Ret [PVal (the (reload A u v))] q') \<and> queue_rel A q' xs \<and>
    unat (cb (q_rb q')) = unat (cb (q_rb q))"
proof -
  obtain m where m: "pthread_mutex_lock t (q_mutex q) = Some m" "pthread_mutex_unlock t m = q_mutex q"
    by (rule queue_locked [OF rel])
  obtain v' where v': "reload A u v = Some v'" "stack_ok A d (slots u v)" using v by (auto simp: carried_def)
  obtain rb' where rb': "rb_load A d (q_rb q) = Ret (LoadVal v') rb'" "rb_holds A rb' (flagged xs)"
      "unat (cb rb') = unat (cb (q_rb q))"
    using rbq.get_front [of A "(\<lparr>srb = q_rb q, ltop = 0, retained = []\<rparr>, 1)" "(0, u, v)" "flagged xs" d v'] v' rel
    by (auto simp: item_view_def item_get_def queue_rel_def split: lres.splits load_ret.splits)
  have "q_num_items q \<noteq> 0" "q_num_items q - 1 = of_nat (length xs)"
    using rel queue_num_items [of "(u, v) # xs"] by (simp_all add: queue_rel_def)
  then show ?thesis
    using rel m rb' v'(1) by (auto simp: workqueue_queue_read_def queue_rel_def queue_unlock_def Let_def)
qed

lemma queue_read_empty:
  assumes "queue_rel A q []"
  shows "workqueue_queue_read A d t nb q = (if nb then Done (Ret [] q) else CondWait q)"
  by (rule queue_locked [OF assms, of t])
    (use assms in \<open>auto simp: workqueue_queue_read_def queue_rel_def queue_unlock_def Let_def\<close>)

text \<open>The operations of a workqueue by owner and workers, and on two lists of items.\<close>

datatype wq_op = WWrite "lua_value list" | WWriteup "lua_value list" | WRead

fun wq_handler :: "lua_api \<Rightarrow> (nat \<Rightarrow> byte) \<Rightarrow> nat \<Rightarrow> addr \<Rightarrow> tid \<Rightarrow> wq_op \<Rightarrow> registry \<Rightarrow> (pushed list) wq_outcome option" where
  "wq_handler A junk d a t (WWrite vs) s = workqueue_write A junk t vs (Some a) s"
| "wq_handler A junk d a t (WWriteup vs) s = workqueue_writeup A junk t vs (Some a) s"
| "wq_handler A junk d a t WRead s = Some (workqueue_read A d t True (Some a) s)"

fun wq_run :: "lua_api \<Rightarrow> (nat \<Rightarrow> byte) \<Rightarrow> nat \<Rightarrow> addr \<Rightarrow> (tid \<times> wq_op) list \<Rightarrow> registry \<Rightarrow> (pushed list list \<times> registry) option" where
  "wq_run A junk d a [] s = Some ([], s)"
| "wq_run A junk d a ((t, op) # ops) s =
     (case wq_handler A junk d a t op s of
        Some (Done (Ret out s)) \<Rightarrow> map_option (\<lambda>(outs, s). (out # outs, s)) (wq_run A junk d a ops s)
      | _ \<Rightarrow> None)"

fun op_written :: "wq_op \<Rightarrow> (cint \<times> lua_value) list" where
  "op_written (WWrite vs) = map (Pair 0) vs"
| "op_written (WWriteup vs) = map (Pair 1) vs"
| "op_written WRead = []"

definition items_cost :: "lua_api \<Rightarrow> size_t \<Rightarrow> (cint \<times> lua_value) list \<Rightarrow> nat" where
  "items_cost A inc xs = sum_list (map (\<lambda>(u, v). length (encode A u v) + unat inc) xs)"

type_synonym two_lists = "(cint \<times> lua_value) list \<times> (cint \<times> lua_value) list"

fun take_first :: "lua_api \<Rightarrow> (cint \<times> lua_value) list \<Rightarrow> pushed list \<times> (cint \<times> lua_value) list" where
  "take_first A [] = ([], [])"
| "take_first A ((u, v) # xs) = ([PVal (the (reload A u v))], xs)"

text \<open>The owner writes questions and reads answers, every other thread the other way round.\<close>

definition two_lists_step :: "lua_api \<Rightarrow> bool \<Rightarrow> wq_op \<Rightarrow> two_lists \<Rightarrow> pushed list \<times> two_lists" where
  "two_lists_step A is_owner op l = (case l of (qs, as) \<Rightarrow>
     (case op of
        WRead \<Rightarrow> if is_owner then (let (out, as) = take_first A as in (out, qs, as))
                 else (let (out, qs) = take_first A qs in (out, qs, as))
      | _ \<Rightarrow> if is_owner then ([], qs @ op_written op, as) else ([], qs, as @ op_written op)))"

fun two_lists_run :: "lua_api \<Rightarrow> tid \<Rightarrow> (tid \<times> wq_op) list \<Rightarrow> two_lists \<Rightarrow> pushed list list \<times> two_lists" where
  "two_lists_run A o' [] l = ([], l)"
| "two_lists_run A o' ((t, op) # ops) l =
     (let (out, l) = two_lists_step A (t = o') op l; (outs, l) = two_lists_run A o' ops l in (out # outs, l))"

text \<open>
  \<open>wq_rel A d a c s l\<close>: the workqueue at \<open>a\<close> holds the two lists of items that readers can load, and neither buffer is
  larger than \<open>c\<close>.
\<close>

definition wq_rel :: "lua_api \<Rightarrow> nat \<Rightarrow> addr \<Rightarrow> nat \<Rightarrow> registry \<Rightarrow> two_lists \<Rightarrow> bool" where
  "wq_rel A d a c s l \<longleftrightarrow> (case l of (qs, as) \<Rightarrow> let w = objs s a in
     a \<in> live s \<and> queue_rel A (questions w) qs \<and> queue_rel A (answers w) as \<and> 0 < wq_size_increment w \<and>
     list_all (carried A d) (qs @ as) \<and>
     unat (cb (q_rb (questions w))) \<le> c \<and> unat (cb (q_rb (answers w))) \<le> c)"

lemma args_cost_items_cost: "args_cost A inc u vs = items_cost A inc (map (Pair u) vs)"
  by (simp add: args_cost_def items_cost_def o_def)

lemma write_step_rel:
  assumes rel: "wq_rel A d a c s (qs, as)" and vs: "list_all (carried A d) (map (Pair u) vs)"
    and cost: "c + items_cost A (wq_size_increment (objs s a)) (map (Pair u) vs) < max_object"
    and len: "length (qs @ as) + length vs < 2 ^ 32"
  shows "\<exists>s'. workqueue_write_upval u A junk t vs (Some a) s = Some (Done (Ret [] s')) \<and>
    wq_rel A d a (c + items_cost A (wq_size_increment (objs s a)) (map (Pair u) vs)) s'
      (if t = owner_thread (objs s a) then (qs @ map (Pair u) vs, as) else (qs, as @ map (Pair u) vs)) \<and>
    owner_thread (objs s' a) = owner_thread (objs s a) \<and> wq_size_increment (objs s' a) = wq_size_increment (objs s a)"
proof -
  let ?w = "objs s a"
  have sv: "list_all (savable A False u) vs" using vs by (auto simp: list_all_iff carried_def)
  have r: "a \<in> live s" "queue_rel A (questions ?w) qs" "queue_rel A (answers ?w) as" "0 < wq_size_increment ?w"
      "unat (cb (q_rb (questions ?w))) \<le> c" "unat (cb (q_rb (answers ?w))) \<le> c"
    using rel by (simp_all add: wq_rel_def Let_def)
  show ?thesis
  proof (cases "t = owner_thread ?w")
    case True
    obtain q' where "workqueue_queue_write A junk t (wq_size_increment ?w) u vs (questions ?w) = Some (Done (Ret [] q'))"
        "queue_rel A q' (qs @ map (Pair u) vs)"
        "unat (cb (q_rb q')) \<le> unat (cb (q_rb (questions ?w))) + items_cost A (wq_size_increment ?w) (map (Pair u) vs)"
      using queue_write_rel [OF r(2) sv r(4), of junk t] cost len r(5) by (auto simp: args_cost_items_cost)
    then show ?thesis
      using True rel vs r by (auto simp: workqueue_write_upval_def wq_rel_def set_questions_def Let_def)
  next
    case False
    obtain q' where "workqueue_queue_write A junk t (wq_size_increment ?w) u vs (answers ?w) = Some (Done (Ret [] q'))"
        "queue_rel A q' (as @ map (Pair u) vs)"
        "unat (cb (q_rb q')) \<le> unat (cb (q_rb (answers ?w))) + items_cost A (wq_size_increment ?w) (map (Pair u) vs)"
      using queue_write_rel [OF r(3) sv r(4), of junk t] cost len r(6) by (auto simp: args_cost_items_cost)
    then show ?thesis
      using False rel vs r by (auto simp: workqueue_write_upval_def wq_rel_def set_answers_def Let_def)
  qed
qed

lemma queue_take_first:
  assumes "queue_rel A q xs" and "list_all (carried A d) xs" and "take_first A xs = (out, ys)"
  shows "\<exists>q'. workqueue_queue_read A d t True q = Done (Ret out q') \<and> queue_rel A q' ys \<and>
    unat (cb (q_rb q')) = unat (cb (q_rb q)) \<and> list_all (carried A d) ys \<and> length ys \<le> length xs"
proof (cases xs)
  case Nil
  with assms queue_read_empty [of A q d t True] show ?thesis by auto
next
  case (Cons x us)
  obtain u v where x: "x = (u, v)" by (cases x)
  from assms queue_read_rel [of A q u v us d t True] show ?thesis by (auto simp: Cons x)
qed

lemma read_step_rel:
  assumes rel: "wq_rel A d a c s l" and step: "two_lists_step A (t = owner_thread (objs s a)) WRead l = (out, l')"
  shows "\<exists>s'. workqueue_read A d t True (Some a) s = Done (Ret out s') \<and> wq_rel A d a c s' l' \<and>
    owner_thread (objs s' a) = owner_thread (objs s a) \<and> wq_size_increment (objs s' a) = wq_size_increment (objs s a) \<and>
    length (fst l' @ snd l') \<le> length (fst l @ snd l)"
proof -
  obtain qs as where l: "l = (qs, as)" by (cases l)
  let ?w = "objs s a"
  have r: "queue_rel A (questions ?w) qs" "queue_rel A (answers ?w) as" "list_all (carried A d) qs" "list_all (carried A d) as"
    using rel by (simp_all add: wq_rel_def l Let_def)
  obtain o1 as' o2 qs' where tf: "take_first A as = (o1, as')" "take_first A qs = (o2, qs')" by fastforce
  show ?thesis
    using queue_take_first [OF r(2,4) tf(1), of t] queue_take_first [OF r(1,3) tf(2), of t] step rel tf
    by (cases "t = owner_thread ?w")
      (auto simp: two_lists_step_def l workqueue_read_def wq_rel_def set_answers_def set_questions_def Let_def)
qed

lemma wq_step_rel:
  assumes rel: "wq_rel A d a c s l" and items: "list_all (carried A d) (op_written op)"
    and cost: "c + items_cost A (wq_size_increment (objs s a)) (op_written op) < max_object"
    and len: "length (fst l @ snd l) + length (op_written op) < 2 ^ 32"
    and step: "two_lists_step A (t = owner_thread (objs s a)) op l = (out, l')"
  shows "\<exists>s'. wq_handler A junk d a t op s = Some (Done (Ret out s')) \<and>
    wq_rel A d a (c + items_cost A (wq_size_increment (objs s a)) (op_written op)) s' l' \<and>
    owner_thread (objs s' a) = owner_thread (objs s a) \<and> wq_size_increment (objs s' a) = wq_size_increment (objs s a) \<and>
    length (fst l' @ snd l') \<le> length (fst l @ snd l) + length (op_written op)"
proof -
  obtain qs as where l: "l = (qs, as)" by (cases l)
  show ?thesis
  proof (cases op)
    case (WWrite vs)
    then show ?thesis
      using write_step_rel [of A d a c s qs as 0 vs junk t] assms
      by (cases "t = owner_thread (objs s a)") (auto simp: l workqueue_write_def two_lists_step_def)
  next
    case (WWriteup vs)
    then show ?thesis
      using write_step_rel [of A d a c s qs as 1 vs junk t] assms
      by (cases "t = owner_thread (objs s a)") (auto simp: l workqueue_writeup_def two_lists_step_def)
  next
    case WRead
    then show ?thesis using read_step_rel [OF rel, of t out l'] step by (auto simp: items_cost_def)
  qed
qed

lemma queue_relock:
  assumes "pthread_mutex_unlock t m = q_mutex q"
  shows "queue_unlock t (q\<lparr>q_mutex := m\<rparr>) = q"
  using assms by (simp add: queue_unlock_def)

lemma drain_rel:
  assumes rel: "wq_rel A d a c s (qs, as)" and len: "length (qs @ as) < 2 ^ 32"
  shows "workqueue_drain (owner_thread (objs s a)) (Some a) s =
    (of_nat (length as + length qs), if qs = [] then Done (Ret [] s) else CondWait s)"
proof -
  let ?w = "objs s a" and ?t = "owner_thread (objs s a)"
  have r: "a \<in> live s" "queue_rel A (questions ?w) qs" "queue_rel A (answers ?w) as"
    using rel by (simp_all add: wq_rel_def Let_def)
  obtain mq where mq: "pthread_mutex_lock ?t (q_mutex (questions ?w)) = Some mq" "pthread_mutex_unlock ?t mq = q_mutex (questions ?w)"
    by (rule queue_locked [OF r(2)])
  obtain ma where ma: "pthread_mutex_lock ?t (q_mutex (answers ?w)) = Some ma" "pthread_mutex_unlock ?t ma = q_mutex (answers ?w)"
    by (rule queue_locked [OF r(3)])
  have n: "q_num_items (answers ?w) = of_nat (length as)" "q_num_items (questions ?w) = of_nat (length qs)"
    using r by (simp_all add: queue_rel_def)
  have "(of_nat (length as) :: uint32) < of_nat (length as) + of_nat (length qs) \<longleftrightarrow> qs \<noteq> []"
    using unat_of_nat_uint32 [of "length as"] unat_of_nat_uint32 [of "length as + length qs"] len
    by (simp add: word_less_nat_alt)
  then show ?thesis
    using r(1) mq ma n queue_relock [OF mq(2)] queue_relock [OF ma(2)]
    by (auto simp: workqueue_drain_def drain_round_def set_answers_def set_questions_def set_obj_def Let_def)
qed

section \<open>Properties\<close>

text \<open>
  C3: Refinement: every sequence of writes, writes with upvalues and non-blocking reads on a workqueue, by the
  owner and any workers, gives the results of two lists: workers read the owner's questions and the owner
  reads the workers' answers, each in the order of writing and each item once.
\<close>

theorem workqueue_refines:
  "wq_rel A d a c s l \<Longrightarrow> list_all (carried A d) (concat (map (op_written \<circ> snd) ops)) \<Longrightarrow>
     c + sum_list (map (items_cost A (wq_size_increment (objs s a)) \<circ> op_written \<circ> snd) ops) < max_object \<Longrightarrow>
     length (fst l @ snd l) + length (concat (map (op_written \<circ> snd) ops)) < 2 ^ 32 \<Longrightarrow>
     \<exists>outs s' l' c'. wq_run A junk d a ops s = Some (outs, s') \<and>
       two_lists_run A (owner_thread (objs s a)) ops l = (outs, l') \<and> wq_rel A d a c' s' l'"
proof (induction ops arbitrary: s l c)
  case (Cons top ops)
  obtain t op where top: "top = (t, op)" by (cases top)
  obtain out l1 where step: "two_lists_step A (t = owner_thread (objs s a)) op l = (out, l1)"
    by (rule prod.exhaust)
  obtain s1 where s1: "wq_handler A junk d a t op s = Some (Done (Ret out s1))"
      "wq_rel A d a (c + items_cost A (wq_size_increment (objs s a)) (op_written op)) s1 l1"
      "owner_thread (objs s1 a) = owner_thread (objs s a)" "wq_size_increment (objs s1 a) = wq_size_increment (objs s a)"
      "length (fst l1 @ snd l1) \<le> length (fst l @ snd l) + length (op_written op)"
    using wq_step_rel [OF Cons.prems(1) _ _ _ step, of junk] Cons.prems by (auto simp: top)
  have "\<exists>outs s' l' c'. wq_run A junk d a ops s1 = Some (outs, s') \<and>
      two_lists_run A (owner_thread (objs s1 a)) ops l1 = (outs, l') \<and> wq_rel A d a c' s' l'"
    by (rule Cons.IH [OF s1(2)]) (use s1 Cons.prems in \<open>auto simp: top\<close>)
  with s1 step show ?case by (auto simp: top)
qed auto

definition small_registry :: "registry" where
  "small_registry =
     \<lparr>objs = (\<lambda>_. \<lparr>wq_next = None, wq_prev = None, wq_refcount = 1, wq_size_increment = 16, wq_name = Some [65],
        questions = workqueue_init_queue (\<lambda>_. 0) 16, answers = workqueue_init_queue (\<lambda>_. 0) 16, owner_thread = 1\<rparr>),
      live = {5}, wq_head = Some 5, wq_mutex = pthread_mutex_init\<rparr>"

lemma small_registry_rel: "wq_rel small_lua 1 5 16 small_registry ([], [])"
  by (simp add: wq_rel_def small_registry_def queue_rel_def workqueue_init_queue_def rb_holds_def rb_inv_create
      max_object_def) (simp add: pthread_mutex_init_def ringbuffer_create_def)

lemma small_registry_inv: "reg_inv small_registry [5]"
  by (simp add: reg_inv_def reg.dlist_def) (auto simp: small_registry_def pthread_mutex_init_def mutex_wf_def)

theorem workqueue_refines_witness:
  "\<exists>outs s' l' c'. wq_run small_lua (\<lambda>_. 0) 1 5 [(1, WWrite [LBoolean True]), (2, WRead), (2, WWriteup [LNil]), (1, WRead)] small_registry = Some (outs, s') \<and>
     two_lists_run small_lua (owner_thread (objs small_registry 5))
       [(1, WWrite [LBoolean True]), (2, WRead), (2, WWriteup [LNil]), (1, WRead)] ([], []) = (outs, l') \<and>
     wq_rel small_lua 1 5 c' s' l'"
  by (rule workqueue_refines [OF small_registry_rel])
    (simp_all add: carried_def stack_ok_def list_all_iff items_cost_def max_object_def small_registry_def)

text \<open>
  C24: Opening: a name that is registered gives the workqueue registered under it, with one more reference
  and the list as it was; any other name, or none, gives a new workqueue owned by the calling
  thread, with one reference, registered under the name if it has one. The list links exactly
  the live named workqueues, and no two have the same name. Names are compared and kept up to their first zero byte.
\<close>

theorem workqueue_open_registers:
  assumes "reg_inv s xs" and "th_ok T" and "new \<notin> live s"
  shows "\<exists>s'. reg_inv s' (if name \<noteq> None \<and> find_name s name xs = None then new # xs else xs) \<and>
    (case find_name s name xs of
       Some a \<Rightarrow> workqueue_open T junk t new name sz inc s = Some (Done (Ret (a, 0) s')) \<and> 
         map_option c_string (wq_name (objs s a)) = map_option c_string name \<and>
         live s' = live s \<and> wq_refcount (objs s' a) = wq_refcount (objs s a) + 1
     | None \<Rightarrow> workqueue_open T junk t new name sz inc s = Some (Done (Ret (new, 1) s')) \<and>
         live s' = insert new (live s) \<and> wq_name (objs s' new) = map_option c_string name \<and> wq_refcount (objs s' new) = 1 \<and> owner_thread (objs s' new) = t)"
proof (cases "find_name s name xs")
  case None
  with open_new [OF assms None, of junk t sz inc] show ?thesis by (auto split: if_splits)
next
  case (Some a)
  with open_found [OF assms(1,2) Some, of junk t new sz inc] refcount_inv [OF assms(1), of a] find_name_set(1) [OF assms(1) Some]
  show ?thesis by (auto simp: c_name_def)
qed

theorem workqueue_open_registers_witness:
  "\<exists>s'. reg_inv s' (if Some [66 :: byte] \<noteq> None \<and> find_name small_registry (Some [66]) [5] = None then 6 # [5] else [5]) \<and>
    (case find_name small_registry (Some [66]) [5] of
       Some a \<Rightarrow> workqueue_open th_model (\<lambda>_. 0) 2 6 (Some [66]) 8 8 small_registry = Some (Done (Ret (a, 0) s')) \<and>
         map_option c_string (wq_name (objs small_registry a)) = map_option c_string (Some [66]) \<and>
         live s' = live small_registry \<and> wq_refcount (objs s' a) = wq_refcount (objs small_registry a) + 1
     | None \<Rightarrow> workqueue_open th_model (\<lambda>_. 0) 2 6 (Some [66]) 8 8 small_registry = Some (Done (Ret (6, 1) s')) \<and>
         live s' = insert 6 (live small_registry) \<and> wq_name (objs s' 6) = map_option c_string (Some [66]) \<and> wq_refcount (objs s' 6) = 1 \<and> owner_thread (objs s' 6) = 2)"
  by (rule workqueue_open_registers [OF small_registry_inv]) (simp_all add: small_registry_def)

text \<open>
  C26: Closing drops one reference; with the last one the workqueue is taken out of the list and freed, and the
  list still links exactly the live named workqueues. The userdata's pointer is cleared.
\<close>

theorem workqueue_close_unregisters:
  assumes "reg_inv s xs" and "th_ok T" and "a \<in> live s"
  shows "\<exists>s'. workqueue_close T t (Some a) s = Done (Ret [] (None, s')) \<and>
    (if wq_refcount (objs s a) = 1 then reg_inv s' (remove1 a xs) \<and> live s' = live s - {a}
     else reg_inv s' xs \<and> live s' = live s \<and> wq_refcount (objs s' a) = wq_refcount (objs s a) - 1)"
  using wq_close_inv [OF assms] .

theorem workqueue_close_unregisters_witness:
  "\<exists>s'. workqueue_close th_model 3 (Some 5) small_registry = Done (Ret [] (None, s')) \<and>
    (if wq_refcount (objs small_registry 5) = 1 then reg_inv s' (remove1 5 [5]) \<and> live s' = live small_registry - {5}
     else reg_inv s' [5] \<and> live s' = live small_registry \<and> wq_refcount (objs s' 5) = wq_refcount (objs small_registry 5) - 1)"
  by (rule workqueue_close_unregisters [OF small_registry_inv]) (simp_all add: small_registry_def)

text \<open>
  C39: A named workqueue that is sent through a channel or queue: \<open>retain\<close>, which the serializer calls for the copy,
  does not count it, so that closing the received copy frees the workqueue while the sender still
  has it open, and the sender's next read is a use after free.
\<close>

theorem workqueue_named_dangles:
  assumes "reg_inv s xs" and "th_ok T" and "a \<in> live s" and "wq_name (objs s a) \<noteq> None"
    and "wq_refcount (objs s a) = 1"
  shows "\<exists>s'. workqueue_retain T t (Some a) s = Done (Ret [] s) \<and>
    workqueue_close T t' (Some a) s = Done (Ret [] (None, s')) \<and>
    workqueue_read A d t nb (Some a) s' = Done (Abort OutOfBounds)"
proof -
  obtain s' where "workqueue_close T t' (Some a) s = Done (Ret [] (None, s'))" "live s' = live s - {a}"
    using wq_close_inv [OF assms(1-3), of t'] assms(5) by auto
  moreover from this(2) have "workqueue_read A d t nb (Some a) s' = Done (Abort OutOfBounds)"
    by (simp add: workqueue_read_def)
  moreover have "workqueue_retain T t (Some a) s = Done (Ret [] s)"
    using assms(3,4) by (auto simp: workqueue_retain_def)
  ultimately show ?thesis by blast
qed

theorem workqueue_named_dangles_witness:
  "\<exists>s'. workqueue_retain th_model 1 (Some 5) small_registry = Done (Ret [] small_registry) \<and>
    workqueue_close th_model 2 (Some 5) small_registry = Done (Ret [] (None, s')) \<and>
    workqueue_read small_lua 1 1 True (Some 5) s' = Done (Abort OutOfBounds)"
  by (rule workqueue_named_dangles [OF small_registry_inv]) (simp_all add: small_registry_def)

text \<open>
  Draining waits exactly while the queue of questions is not empty: the mark is the number of answers and
  questions queued. A question that a worker has read and not answered yet is in neither, so
  that the owner returns from \<open>drain\<close> and finds no answer.
\<close>

theorem workqueue_drain_misses:
  assumes "wq_rel A d a c s ([(u, v)], [])" and "t \<noteq> owner_thread (objs s a)"
  shows "workqueue_drain (owner_thread (objs s a)) (Some a) s = (1, CondWait s) \<and>
    (\<exists>s1. workqueue_read A d t True (Some a) s = Done (Ret [PVal (the (reload A u v))] s1) \<and>
      workqueue_drain (owner_thread (objs s a)) (Some a) s1 = (0, Done (Ret [] s1)) \<and>
      workqueue_read A d (owner_thread (objs s a)) True (Some a) s1 = Done (Ret [] s1))"
proof -
  have "two_lists_step A (t = owner_thread (objs s a)) WRead ([(u, v)], []) = ([PVal (the (reload A u v))], [], [])"
    using assms(2) by (simp add: two_lists_step_def)
  then obtain s1 where s1: "workqueue_read A d t True (Some a) s = Done (Ret [PVal (the (reload A u v))] s1)"
      "wq_rel A d a c s1 ([], [])" "owner_thread (objs s1 a) = owner_thread (objs s a)"
    using read_step_rel [OF assms(1), of t] by blast
  have "queue_rel A (answers (objs s1 a)) []" "a \<in> live s1" using s1(2) by (simp_all add: wq_rel_def Let_def)
  then have "workqueue_read A d (owner_thread (objs s1 a)) True (Some a) s1 = Done (Ret [] s1)"
    by (simp add: workqueue_read_def queue_read_empty set_answers_def set_obj_def)
  with s1 drain_rel [OF assms(1)] drain_rel [OF s1(2)] show ?thesis by auto
qed

definition asked_registry :: registry where
  "asked_registry = set_obj 5 (\<lambda>w. w\<lparr>questions := (questions w)\<lparr>q_num_items := 1,
     q_rb := (ringbuffer_create (\<lambda>_. 0) 16)\<lparr>rcb := 1, wp := 1\<rparr>\<rparr>\<rparr>) small_registry"

lemma asked_registry_rel: "wq_rel small_lua 1 5 16 asked_registry ([(0, LNil)], [])"
  by (simp add: wq_rel_def asked_registry_def small_registry_def queue_rel_def workqueue_init_queue_def rb_holds_def
      rb_inv_create max_object_def carried_def stack_ok_def)
    (simp add: pthread_mutex_init_def ringbuffer_create_def rb_inv_def rb_bounds_def malloc_def max_object_def content_def mutex_wf_def)

theorem workqueue_drain_misses_witness:
  "workqueue_drain (owner_thread (objs asked_registry 5)) (Some 5) asked_registry = (1, CondWait asked_registry) \<and>
    (\<exists>s1. workqueue_read small_lua 1 2 True (Some 5) asked_registry = Done (Ret [PVal (the (reload small_lua 0 LNil))] s1) \<and>
      workqueue_drain (owner_thread (objs asked_registry 5)) (Some 5) s1 = (0, Done (Ret [] s1)) \<and>
      workqueue_read small_lua 1 (owner_thread (objs asked_registry 5)) True (Some 5) s1 = Done (Ret [] s1))"
  by (rule workqueue_drain_misses [OF asked_registry_rel]) (simp add: asked_registry_def small_registry_def)

end
