(* ===== verification/Marshal.thy ===== *)
theory Marshal
  imports Growth
begin

text \<open>
  Marshals, \<^verbatim>\<open>src/marshal.c\<close>: a value serialized once and read any number of times, each time from a
  clone of the ring buffer's positions.
\<close>

section \<open>Model\<close>

text \<open>The member \<open>empty\<close> of the struct is never used.\<close>

record marshal =
  m_rb :: ringbuffer
  m_refcount :: cint
  m_size_increment :: size_t

type_synonym marshal_result = "(marshal option, pushed list) lres"

definition DEFAULT_MARSHAL_SIZE :: size_t where
  "DEFAULT_MARSHAL_SIZE = 1024 * 16"

text \<open>
  The userdata of the marshal has the address \<open>self\<close>. A save that meets it calls its \<open>retain\<close> method, as it does for every userdata; \<open>retain_self\<close> is what
  those calls do to the marshal.
\<close>

definition retain_self :: "th_api \<Rightarrow> pointer \<Rightarrow> pointer list \<Rightarrow> marshal \<Rightarrow> marshal" where
  "retain_self T self ps m = fold (\<lambda>p m. if p = self then m\<lparr>m_refcount := th_inc T (m_refcount m)\<rparr> else m) ps m"

text \<open>\<open>None\<close>: the loop never ends. The Lua stack has \<open>height\<close> values, the object at index \<open>index\<close>.\<close>

definition marshal_write ::
    "th_api \<Rightarrow> lua_api \<Rightarrow> (nat \<Rightarrow> byte) \<Rightarrow> pointer \<Rightarrow> nat \<Rightarrow> nat \<Rightarrow> lua_value \<Rightarrow> cint \<Rightarrow> marshal \<Rightarrow> marshal_result option" where
  "marshal_write T A junk self height index v upval m =
     (case rb_save_with_growth A junk (m_size_increment m) upval index v \<lparr>srb = m_rb m, ltop = height, retained = []\<rparr> of
        None \<Rightarrow> None
      | Some (Ret ret s) \<Rightarrow>
          let m = retain_self T self (retained s) m in
          if ret \<noteq> 0 then Some (Raise (lua_handle_error (- ret)) (Some (m\<lparr>m_rb := ringbuffer_pop_write_pos (srb s)\<rparr>)))
          else Some (Ret [] (Some (m\<lparr>m_rb := srb s\<rparr>)))
      | Some (Raise e s) \<Rightarrow> Some (Raise e (Some ((retain_self T self (retained s) m)\<lparr>m_rb := srb s\<rparr>)))
      | Some (Abort f) \<Rightarrow> Some (Abort f))"

definition marshal_class :: "byte list" where
  "marshal_class = [105, 112, 99, 46, 109, 97, 114, 115, 104, 97, 108]"

text \<open>
  \<open>marshal_open\<close> with the object \<open>arg\<close>, \<open>None\<close> when the call has no argument. The userdata of the marshal is pushed on the stack before the argument is looked at, above the
  \<open>nargs\<close> arguments; without an argument it is at index 1 itself, is not nil, and is what is saved.
\<close>

definition marshal_open ::
    "th_api \<Rightarrow> lua_api \<Rightarrow> (nat \<Rightarrow> byte) \<Rightarrow> pointer \<Rightarrow> nat \<Rightarrow> lua_value option \<Rightarrow> bool \<Rightarrow> size_t \<Rightarrow> size_t \<Rightarrow> marshal_result option" where
  "marshal_open T A junk self nargs arg upval sz size_increment =
     (let m = \<lparr>m_rb = ringbuffer_create junk sz, m_refcount = 1, m_size_increment = size_increment\<rparr> in
      case arg of
        None \<Rightarrow> marshal_write T A junk self 1 1 (LUserdata (NamedMeta marshal_class) self) (if upval then 1 else 0) m
      | Some v \<Rightarrow>
          if v = LNil then Some (Raise (LuaErrStr ''must provide object to serialize at arg 1'') (Some m))
          else marshal_write T A junk self (nargs + 1) 1 v (if upval then 1 else 0) m)"

text \<open>Were nothing pushed by \<open>rb_load\<close>, the handler would return what is on top of the stack, the marshal itself.\<close>

definition marshal_read :: "lua_api \<Rightarrow> nat \<Rightarrow> marshal option \<Rightarrow> marshal_result" where
  "marshal_read A d ud = (case ud of None \<Rightarrow> Raise (LuaErrStr ''marshal is not open'') None
    | Some m \<Rightarrow>
      let rb = ringbuffer_clone (m_rb m) in
      (case rb_load A d rb of
         Ret ret rb \<Rightarrow>
           (case ret of
              LoadErr e \<Rightarrow> Raise (lua_handle_error e) (Some m)
            | LoadEnd \<Rightarrow> Ret [PUserdata 0] (Some m)
            | LoadVal v \<Rightarrow> Ret [PVal v] (Some m))
       | Raise e rb \<Rightarrow> Raise e (Some m)
       | Abort f \<Rightarrow> Abort f))"

text \<open>
  The pointer in the userdata after a close, and what is left of the marshal for the other
  references: \<open>None\<close> when it was freed.
\<close>

definition marshal_close :: "th_api \<Rightarrow> marshal option \<Rightarrow> (marshal option \<times> marshal option, pushed list) lres" where
  "marshal_close T ud = (case ud of None \<Rightarrow> Raise (LuaErrStr ''marshal is already closed'') (None, None)
    | Some m \<Rightarrow>
      (case th_dec T (m_refcount m) of
         (n, True) \<Rightarrow>
           (case ringbuffer_destroy (Some (m_rb m)) of Ok _ \<Rightarrow> Ret [] (None, None) | Crash f \<Rightarrow> Abort f)
       | (n, False) \<Rightarrow> Ret [] (None, Some (m\<lparr>m_refcount := n\<rparr>))))"

definition marshal_gc :: "th_api \<Rightarrow> marshal option \<Rightarrow> (marshal option \<times> marshal option, pushed list) lres" where
  "marshal_gc T ud = (if ud \<noteq> None then marshal_close T ud else Ret [] (None, None))"

definition marshal_retain :: "th_api \<Rightarrow> marshal option \<Rightarrow> marshal_result" where
  "marshal_retain T ud = (case ud of None \<Rightarrow> Raise (LuaErrStr ''marshal is not open'') None
    | Some m \<Rightarrow> Ret [] (Some (m\<lparr>m_refcount := th_inc T (m_refcount m)\<rparr>)))"

definition marshal_metatablename :: "pushed list" where
  "marshal_metatablename = [PStr ''ipc.marshal'']"

section \<open>Reference counting\<close>

definition marshal_refs :: "marshal \<Rightarrow> nat" where
  "marshal_refs m = unat (m_refcount m)"

definition marshal_retained :: "th_api \<Rightarrow> marshal \<Rightarrow> marshal" where
  "marshal_retained T m = (case marshal_retain T (Some m) of Ret _ (Some m) \<Rightarrow> m | _ \<Rightarrow> m)"

definition marshal_released :: "th_api \<Rightarrow> marshal \<Rightarrow> marshal option" where
  "marshal_released T m = (case marshal_gc T (Some m) of Ret _ (_, left) \<Rightarrow> left | _ \<Rightarrow> Some m)"

interpretation marshal_rc: counted marshal_refs "\<lparr>m_rb = rb, m_refcount = 1, m_size_increment = sz\<rparr>"
  "marshal_retained th_model" "marshal_released th_model" for rb sz
proof unfold_locales
  fix x :: marshal
  show "marshal_refs x = 1 \<Longrightarrow> marshal_released th_model x = None"
    using refcount_arith(3) [of "m_refcount x"]
    by (simp add: marshal_refs_def marshal_released_def marshal_gc_def marshal_close_def th_model_def
        ringbuffer_destroy_def del: One_nat_def)
  show "1 < marshal_refs x \<Longrightarrow> marshal_refs x < 2 ^ 31 \<Longrightarrow>
      \<exists>x'. marshal_released th_model x = Some x' \<and> marshal_refs x' = marshal_refs x - 1"
    using refcount_arith(2) [of "m_refcount x"] refcount_arith(3) [of "m_refcount x"]
    by (auto simp: marshal_refs_def marshal_released_def marshal_gc_def marshal_close_def th_model_def)
qed (auto simp: marshal_refs_def marshal_retained_def marshal_retain_def th_model_def refcount_arith(1))

section \<open>Properties\<close>

lemma m_rb_retain_self [simp]: "m_rb (retain_self T self ps m) = m_rb m"
  unfolding retain_self_def by (induction ps arbitrary: m) simp_all

lemma marshal_open_spec:
  assumes "savable A False (if upval then 1 else 0) v" and "v \<noteq> LNil" and "0 < sz" and "0 < inc"
    and "unat sz + length (encode A (if upval then 1 else 0) v) + unat inc < max_object"
  shows "\<exists>m. marshal_open T A junk self nargs (Some v) upval sz inc = Some (Ret [] (Some m)) \<and> rb_inv (m_rb m) \<and>
    content (m_rb m) = encode A (if upval then 1 else 0) v"
proof -
  let ?u = "if upval then 1 else 0 :: cint" and ?s = "\<lparr>srb = ringbuffer_create junk sz, ltop = nargs + 1, retained = []\<rparr>"
  have "rb_inv (srb ?s)" using assms(3,5) by (simp add: rb_inv_create)
  then obtain s' where "rb_save_with_growth A junk inc ?u 1 v ?s = Some (Ret 0 s')" "rb_inv (srb s')"
      "content (srb s') = encode A ?u v"
    using rb_save_with_growth_spec [of A ?u v inc ?s 1 junk] assms by (auto simp: word_less_nat_alt)
  then show ?thesis using assms(2) by (simp add: marshal_open_def marshal_write_def Let_def)
qed

text \<open>
  C30: A marshal can be read any number of times: a value that was serialized into it, growing the buffer as
  needed, comes back at every read, and a read leaves the marshal as it is.
\<close>

theorem marshal_reads_again:
  assumes "savable A False (if upval then 1 else 0) v" and "v \<noteq> LNil" and "0 < sz" and "0 < inc"
    and "unat sz + length (encode A (if upval then 1 else 0) v) + unat inc < max_object"
    and "reload A (if upval then 1 else 0) v = Some v'" and "stack_ok A d (slots (if upval then 1 else 0) v)"
  shows "\<exists>m. marshal_open T A junk self nargs (Some v) upval sz inc = Some (Ret [] (Some m)) \<and>
    marshal_read A d (Some m) = Ret [PVal v'] (Some m)"
proof -
  obtain m where m: "marshal_open T A junk self nargs (Some v) upval sz inc = Some (Ret [] (Some m))" "rb_inv (m_rb m)"
      "content (m_rb m) = encode A (if upval then 1 else 0) v @ []"
    using marshal_open_spec [OF assms(1-5), of T junk self nargs] by auto
  have "stored.loaded (m_rb m) [] v' (rb_load A d (m_rb m))" by (rule stored.rb_load_front [OF assms(6) m(2,3) assms(7)])
  with m(1) show ?thesis by (auto simp: stored.loaded_def marshal_read_def ringbuffer_clone_def)
qed

theorem marshal_reads_again_witness:
  "\<exists>m. marshal_open th_model small_lua (\<lambda>_. 0) 64 1 (Some (LString [104, 105])) False 2 3 = Some (Ret [] (Some m)) \<and>
    marshal_read small_lua 1 (Some m) = Ret [PVal (LString [104, 105])] (Some m)"
  by (rule marshal_reads_again) (simp_all add: max_object_def str_bytes_def stack_ok_def)

text \<open>
  The check for an object does not notice that there is none: called without an argument, \<open>marshal_open\<close> serializes the new marshal into itself. That takes a second reference, which
  is only given back by a userdata that a read makes, so that the collection of the marshal does not free it.
\<close>

theorem marshal_open_without_object:
  "case marshal_open th_model small_lua (\<lambda>_. 0) 64 0 None False 128 128 of
     Some (Ret _ (Some m)) \<Rightarrow> marshal_refs m = 2 \<and> marshal_released th_model m \<noteq> None \<and>
       (case marshal_read small_lua 1 (Some m) of Ret [PVal (LUserdata (NamedMeta n) p)] _ \<Rightarrow> n = marshal_class \<and> p = 64 | _ \<Rightarrow> False)
   | _ \<Rightarrow> False"
  by code_simp

text \<open>
  A marshal lives as long as references to it: over any history of retains and collections in which the count
  stays positive it is not freed, and the collection of the last reference frees it.
\<close>

theorem marshal_freed_last:
  assumes "th_ok T" and "\<forall>n \<le> length bs. 0 < 1 + marshal_rc.balance (take n bs)" and "length bs + 1 < 2 ^ 31"
  shows "\<exists>m. counted.history (marshal_retained T) (marshal_released T) bs \<lparr>m_rb = rb, m_refcount = 1, m_size_increment = sz\<rparr> = Some m \<and>
    int (marshal_refs m) = 1 + marshal_rc.balance bs \<and> (marshal_refs m = 1 \<longrightarrow> marshal_released T m = None)"
  using marshal_rc.history_alive [of "\<lparr>m_rb = rb, m_refcount = 1, m_size_increment = sz\<rparr>" bs] assms
  by (auto simp: th_ok_model [OF assms(1)] marshal_rc.refs_fresh marshal_rc.release_last)

theorem marshal_freed_last_witness:
  "\<exists>m. counted.history (marshal_retained th_model) (marshal_released th_model) [True, False]
      \<lparr>m_rb = ringbuffer_create (\<lambda>_. 0) 4, m_refcount = 1, m_size_increment = 4\<rparr> = Some m \<and>
    int (marshal_refs m) = 1 + marshal_rc.balance [True, False] \<and> (marshal_refs m = 1 \<longrightarrow> marshal_released th_model m = None)"
proof (rule marshal_freed_last)
  show "\<forall>n\<le>length [True, False]. 0 < 1 + marshal_rc.balance (take n [True, False])"
    by (auto simp: take_Cons split: nat.splits)
qed simp_all

end
