(* ===== verification/Mutex.thy ===== *)
theory Mutex
  imports Pthread
begin

text \<open>
  Mutexes, \<^verbatim>\<open>src/mutex.c\<close>: locking, reference counting, and the barrier as a state machine of the threads
  that arrive at it, wait and return.
\<close>

section \<open>Model\<close>

record mutex =
  mx_ref_count :: cint
  mx_mutex :: pmutex
  mx_cond :: "cond_call list"
  mx_barrier :: "64 word"

type_synonym mutex_outcome = "(mutex, pushed list) outcome"

text \<open>\<open>mutex_create\<close> with the results of the two initialisations and \<open>errno\<close>.\<close>

definition mutex_create :: "int \<Rightarrow> int \<Rightarrow> int \<Rightarrow> (mutex option, pushed list) lres" where
  "mutex_create init_ret cond_ret errno =
     (if init_ret \<noteq> 0 then Raise (lua_handle_error errno) None
      else if cond_ret \<noteq> 0 then Raise (lua_handle_error errno) None
      else Ret [] (Some \<lparr>mx_ref_count = 1, mx_mutex = pthread_mutex_init, mx_cond = [], mx_barrier = 0\<rparr>))"


text \<open>Unlocking a recursive mutex that another thread holds, or none, is the error \<open>EPERM\<close>.\<close>

definition mutex_unlock :: "tid \<Rightarrow> mutex \<Rightarrow> mutex_outcome" where
  "mutex_unlock t mx =
     (if owner (mx_mutex mx) \<noteq> Some t then Done (Raise (lua_handle_error EPERM) mx)
      else Done (Ret [] (mx\<lparr>mx_mutex := pthread_mutex_unlock t (mx_mutex mx)\<rparr>)))"

text \<open>
  \<open>mutex_barrier\<close> up to its return or its wait, and what a thread does that was woken: it has the mutex
  again, unlocks it and returns, without looking at the barrier.
\<close>

definition mutex_barrier :: "tid \<Rightarrow> 64 word \<Rightarrow> mutex \<Rightarrow> mutex_outcome" where
  "mutex_barrier t count mx =
     (case pthread_mutex_lock t (mx_mutex mx) of None \<Rightarrow> LockWait | Some m \<Rightarrow>
       let mx = mx\<lparr>mx_mutex := m, mx_barrier := mx_barrier mx + 1\<rparr> in
       if mx_barrier mx = count then
         mutex_unlock t (mx\<lparr>mx_cond := mx_cond mx @ [Broadcast], mx_barrier := 0\<rparr>)
       else CondWait (mx\<lparr>mx_mutex := pthread_mutex_unlock t (mx_mutex mx)\<rparr>))"

definition mutex_barrier_woken :: "tid \<Rightarrow> mutex \<Rightarrow> mutex_outcome" where
  "mutex_barrier_woken t mx =
     (case pthread_mutex_lock t (mx_mutex mx) of None \<Rightarrow> LockWait | Some m \<Rightarrow> mutex_unlock t (mx\<lparr>mx_mutex := m\<rparr>))"

definition mutex_retain :: "th_api \<Rightarrow> mutex \<Rightarrow> mutex" where
  "mutex_retain T mx = mx\<lparr>mx_ref_count := th_inc T (mx_ref_count mx)\<rparr>"

definition mutex_metatablename :: "pushed list" where
  "mutex_metatablename = [PStr ''ipc.mutex'']"

definition mutex_gc :: "th_api \<Rightarrow> mutex \<Rightarrow> mutex option" where
  "mutex_gc T mx =
     (case th_dec T (mx_ref_count mx) of (n, True) \<Rightarrow> None | (n, False) \<Rightarrow> Some (mx\<lparr>mx_ref_count := n\<rparr>))"

section \<open>Threads at a barrier\<close>

text \<open>
  The threads that wait, those that were woken and have yet to return, and the numbers of calls that
  arrived and that returned.
\<close>

record barrier_world =
  b_mx :: mutex
  b_waiting :: "tid set"
  b_woken :: "tid set"
  b_arrived :: nat
  b_returned :: nat

text \<open>
  The calls a handler has added to the record of the condition variable; \<open>cond_wake\<close> says whom they wake. \<open>spurious\<close>:
  whether a wait may end without a call on the condition, as POSIX allows.
\<close>

definition barrier_calls :: "mutex \<Rightarrow> mutex \<Rightarrow> cond_call list" where
  "barrier_calls mx mx' = drop (length (mx_cond mx)) (mx_cond mx')"

inductive bar_step :: "64 word \<Rightarrow> bool \<Rightarrow> barrier_world \<Rightarrow> barrier_world \<Rightarrow> bool" for count spurious where
  arrive_wait: "t \<notin> b_waiting w \<union> b_woken w \<Longrightarrow> mutex_barrier t count (b_mx w) = CondWait mx \<Longrightarrow>
    cond_wake (barrier_calls (b_mx w) mx) (b_waiting w) (b_woken w) wt wk \<Longrightarrow>
    bar_step count spurious w (w\<lparr>b_mx := mx, b_waiting := insert t wt, b_woken := wk, b_arrived := b_arrived w + 1\<rparr>)"
| arrive_last: "t \<notin> b_waiting w \<union> b_woken w \<Longrightarrow> mutex_barrier t count (b_mx w) = Done (Ret out mx) \<Longrightarrow>
    cond_wake (barrier_calls (b_mx w) mx) (b_waiting w) (b_woken w) wt wk \<Longrightarrow>
    bar_step count spurious w (w\<lparr>b_mx := mx, b_waiting := wt, b_woken := wk,
      b_arrived := b_arrived w + 1, b_returned := b_returned w + 1\<rparr>)"
| woken_return: "t \<in> b_woken w \<Longrightarrow> mutex_barrier_woken t (b_mx w) = Done (Ret out mx) \<Longrightarrow>
    cond_wake (barrier_calls (b_mx w) mx) (b_waiting w) (b_woken w - {t}) wt wk \<Longrightarrow>
    bar_step count spurious w (w\<lparr>b_mx := mx, b_waiting := wt, b_woken := wk, b_returned := b_returned w + 1\<rparr>)"
| wake_spurious: "spurious \<Longrightarrow> t \<in> b_waiting w \<Longrightarrow>
    bar_step count spurious w (w\<lparr>b_waiting := b_waiting w - {t}, b_woken := insert t (b_woken w)\<rparr>)"

definition barrier_init :: "mutex \<Rightarrow> barrier_world" where
  "barrier_init mx = \<lparr>b_mx = mx, b_waiting = {}, b_woken = {}, b_arrived = 0, b_returned = 0\<rparr>"

definition new_mutex :: mutex where
  "new_mutex = \<lparr>mx_ref_count = 1, mx_mutex = pthread_mutex_init, mx_cond = [], mx_barrier = 0\<rparr>"

inductive bar_reachable :: "64 word \<Rightarrow> bool \<Rightarrow> barrier_world \<Rightarrow> bool" for count spurious where
  bar_init: "bar_reachable count spurious (barrier_init new_mutex)"
| bar_more: "bar_reachable count spurious w \<Longrightarrow> bar_step count spurious w w' \<Longrightarrow> bar_reachable count spurious w'"

section \<open>The invariant\<close>

definition bar_inv :: "nat \<Rightarrow> barrier_world \<Rightarrow> bool" where
  "bar_inv c w \<longleftrightarrow> mx_mutex (b_mx w) = pthread_mutex_init \<and> mx_barrier (b_mx w) = of_nat (card (b_waiting w)) \<and>
     finite (b_waiting w) \<and> finite (b_woken w) \<and> b_waiting w \<inter> b_woken w = {} \<and> card (b_waiting w) < c \<and>
     (\<exists>rounds. b_arrived w = rounds * c + card (b_waiting w) \<and> b_returned w + card (b_woken w) = rounds * c)"

lemma lock_init [simp]:
  "pthread_mutex_lock t pthread_mutex_init = Some \<lparr>owner = Some t, depth = 1\<rparr>"
  "pthread_mutex_unlock t \<lparr>owner = Some t, depth = 1\<rparr> = pthread_mutex_init"
  "pthread_mutex_unlock t \<lparr>owner = Some t, depth = Suc 0\<rparr> = pthread_mutex_init"
  by (simp_all add: pthread_mutex_lock_def pthread_mutex_unlock_def pthread_mutex_init_def)

lemma mutex_barrier_inv:
  assumes "mx_mutex mx = pthread_mutex_init" and "mx_barrier mx = of_nat n" and "n < unat count"
  shows "mutex_barrier t count mx =
    (if Suc n = unat count then Done (Ret [] (mx\<lparr>mx_cond := mx_cond mx @ [Broadcast], mx_barrier := 0\<rparr>))
     else CondWait (mx\<lparr>mx_barrier := of_nat (Suc n)\<rparr>))"
proof -
  have "unat count < 2 ^ 64" using unsigned_less [of count] by simp
  then have "unat (1 + of_nat n :: 64 word) = Suc n" using assms(3) unat_of_nat_size [of "Suc n"] by simp
  then have "(1 + of_nat n :: 64 word) = count \<longleftrightarrow> Suc n = unat count" by (metis word_unat_eq_iff)
  then show ?thesis using assms(1,2) by (simp add: mutex_barrier_def mutex_unlock_def Let_def add.commute)
qed

lemma bar_step_inv:
  assumes "bar_step count False w w'" and "bar_inv (unat count) w"
  shows "bar_inv (unat count) w'"
  using assms
proof (induction rule: bar_step.induct)
  case (arrive_wait t w mx wt wk)
  let ?n = "card (b_waiting w)"
  have mx: "Suc ?n \<noteq> unat count" "mx = (b_mx w)\<lparr>mx_barrier := of_nat (Suc ?n)\<rparr>"
    using arrive_wait mutex_barrier_inv [of "b_mx w" ?n count t] by (auto simp: bar_inv_def split: if_splits)
  with arrive_wait.hyps(3) have "wt = b_waiting w" "wk = b_woken w" by (simp_all add: barrier_calls_def cond_wake_simps)
  with mx arrive_wait show ?case by (auto simp: bar_inv_def)
next
  case (arrive_last t w out mx wt wk)
  let ?n = "card (b_waiting w)"
  have last: "Suc ?n = unat count" "mx = (b_mx w)\<lparr>mx_cond := mx_cond (b_mx w) @ [Broadcast], mx_barrier := 0\<rparr>"
    using arrive_last mutex_barrier_inv [of "b_mx w" ?n count t] by (auto simp: bar_inv_def split: if_splits)
  with arrive_last.hyps(3) have woken: "wt = {}" "wk = b_woken w \<union> b_waiting w"
    by (simp_all add: barrier_calls_def cond_wake_simps)
  obtain r where r: "b_arrived w = r * unat count + ?n" "b_returned w + card (b_woken w) = r * unat count"
    using arrive_last.prems by (auto simp: bar_inv_def)
  have "card (b_woken w \<union> b_waiting w) = card (b_woken w) + ?n"
    using arrive_last.prems by (intro card_Un_disjoint) (auto simp: bar_inv_def)
  with last woken r arrive_last.prems show ?case by (auto simp: bar_inv_def intro!: exI [of _ "Suc r"])
next
  case (woken_return t w out mx wt wk)
  have mx: "mx = b_mx w"
    using woken_return by (auto simp: mutex_barrier_woken_def mutex_unlock_def bar_inv_def)
  with woken_return.hyps(3) have "wt = b_waiting w" "wk = b_woken w - {t}"
    by (simp_all add: barrier_calls_def cond_wake_simps)
  moreover have "card (b_woken w) = Suc (card (b_woken w - {t}))"
    using woken_return by (metis bar_inv_def card_Suc_Diff1)
  ultimately show ?case using mx woken_return.prems by (auto simp: bar_inv_def)
qed auto

text \<open>Nobody is shut out: a thread can always arrive, and one that was woken can always return.\<close>

lemma bar_progress:
  assumes "bar_inv (unat count) w"
  shows "t \<notin> b_waiting w \<union> b_woken w \<Longrightarrow> \<exists>w'. bar_step count sp w w' \<and> b_arrived w' = b_arrived w + 1"
    and "t \<in> b_woken w \<Longrightarrow> \<exists>w'. bar_step count sp w w' \<and> b_returned w' = b_returned w + 1 \<and> b_woken w' = b_woken w - {t}"
proof -
  assume t: "t \<notin> b_waiting w \<union> b_woken w"
  consider mx where "mutex_barrier t count (b_mx w) = CondWait mx"
    | mx where "mutex_barrier t count (b_mx w) = Done (Ret [] mx)"
    using mutex_barrier_inv [of "b_mx w" "card (b_waiting w)" count t] assms by (cases "Suc (card (b_waiting w)) = unat count") (auto simp: bar_inv_def)
  then show "\<exists>w'. bar_step count sp w w' \<and> b_arrived w' = b_arrived w + 1"
  proof cases
    case (1 mx)
    obtain wt wk where "cond_wake (barrier_calls (b_mx w) mx) (b_waiting w) (b_woken w) wt wk"
      using cond_wake_total by blast
    from arrive_wait [OF t 1 this, of sp] show ?thesis by (intro exI conjI) (assumption, simp)
  next
    case (2 mx)
    obtain wt wk where "cond_wake (barrier_calls (b_mx w) mx) (b_waiting w) (b_woken w) wt wk"
      using cond_wake_total by blast
    from arrive_last [OF t 2 this, of sp] show ?thesis by (intro exI conjI) (assumption, simp)
  qed
next
  assume t: "t \<in> b_woken w"
  have "mutex_barrier_woken t (b_mx w) = Done (Ret [] (b_mx w))"
    using assms by (auto simp: mutex_barrier_woken_def mutex_unlock_def bar_inv_def)
  from woken_return [OF t this, of "b_waiting w" "b_woken w - {t}" count sp]
  have "bar_step count sp w (w\<lparr>b_mx := b_mx w, b_waiting := b_waiting w, b_woken := b_woken w - {t}, b_returned := b_returned w + 1\<rparr>)"
    by (simp add: barrier_calls_def cond_wake_simps)
  then show "\<exists>w'. bar_step count sp w w' \<and> b_returned w' = b_returned w + 1 \<and> b_woken w' = b_woken w - {t}"
    by (intro exI conjI) (assumption, simp_all)
qed

lemma bar_reachable_inv:
  assumes "bar_reachable count False w" and "0 < unat count"
  shows "bar_inv (unat count) w"
  using assms
proof (induction rule: bar_reachable.induct)
  case bar_init
  then show ?case by (simp add: bar_inv_def barrier_init_def new_mutex_def)
next
  case (bar_more w w')
  then show ?case by (blast intro: bar_step_inv)
qed

section \<open>Reference counting\<close>

definition mutex_refs :: "mutex \<Rightarrow> nat" where
  "mutex_refs mx = unat (mx_ref_count mx)"

interpretation mutex_rc: counted mutex_refs new_mutex "mutex_retain th_model" "mutex_gc th_model"
proof unfold_locales
  fix x :: mutex
  show "mutex_refs x = 1 \<Longrightarrow> mutex_gc th_model x = None"
    using refcount_arith(3) [of "mx_ref_count x"]
    by (simp add: mutex_refs_def mutex_gc_def th_model_def del: One_nat_def)
  show "1 < mutex_refs x \<Longrightarrow> mutex_refs x < 2 ^ 31 \<Longrightarrow>
      \<exists>x'. mutex_gc th_model x = Some x' \<and> mutex_refs x' = mutex_refs x - 1"
    using refcount_arith(2) [of "mx_ref_count x"] refcount_arith(3) [of "mx_ref_count x"]
    by (auto simp: mutex_refs_def mutex_gc_def th_model_def)
qed (auto simp: mutex_refs_def mutex_retain_def new_mutex_def th_model_def refcount_arith(1))

section \<open>Properties\<close>

text \<open>
  C27: The barrier, on a system without spurious wake-ups: calls leave it in complete rounds. Whom the calls that the
  handlers make on the condition wake is given by \<open>cond_wake\<close>: a broadcast wakes every thread that waits, a signal one.
  In every reachable state the threads that wait are the calls beyond the last multiple of \<open>count\<close>, and the calls that
  returned or are about to are exactly those of the complete rounds, so no call returns before \<open>count\<close> have arrived and
  none of a complete round is left waiting; every other thread can arrive, and every thread that was woken can return.
\<close>

theorem barrier_rounds:
  assumes "bar_reachable count False w" and "0 < unat count"
  shows "card (b_waiting w) = b_arrived w mod unat count \<and>
    b_returned w + card (b_woken w) = b_arrived w div unat count * unat count \<and>
    (\<forall>t. t \<notin> b_waiting w \<union> b_woken w \<longrightarrow> (\<exists>w'. bar_step count False w w' \<and> b_arrived w' = b_arrived w + 1)) \<and>
    (\<forall>t\<in>b_woken w. \<exists>w'. bar_step count False w w' \<and> b_returned w' = b_returned w + 1 \<and> b_woken w' = b_woken w - {t})"
proof (intro conjI)
  note inv = bar_reachable_inv [OF assms]
  show "card (b_waiting w) = b_arrived w mod unat count" using inv by (auto simp: bar_inv_def)
  show "b_returned w + card (b_woken w) = b_arrived w div unat count * unat count" using inv by (auto simp: bar_inv_def)
qed (use bar_progress [OF bar_reachable_inv [OF assms]] in blast)+

text \<open>A barrier for three threads, two of which wait: the third wakes both.\<close>

definition two_wait :: barrier_world where
  "two_wait = \<lparr>b_mx = new_mutex\<lparr>mx_barrier := 2\<rparr>, b_waiting = {7, 8}, b_woken = {}, b_arrived = 2, b_returned = 0\<rparr>"

definition all_arrived :: barrier_world where
  "all_arrived = \<lparr>b_mx = new_mutex\<lparr>mx_cond := [Broadcast], mx_barrier := 0\<rparr>, b_waiting = {}, b_woken = {7, 8},
     b_arrived = 3, b_returned = 1\<rparr>"

lemma barrier_one_waits:
  assumes "1 < unat c"
  shows "bar_reachable c sp \<lparr>b_mx = new_mutex\<lparr>mx_barrier := 1\<rparr>, b_waiting = {7}, b_woken = {}, b_arrived = 1, b_returned = 0\<rparr>"
proof -
  have "mutex_barrier 7 c (b_mx (barrier_init new_mutex)) = CondWait (new_mutex\<lparr>mx_barrier := 1\<rparr>)"
    using mutex_barrier_inv [of new_mutex 0 c 7] assms by (simp add: new_mutex_def barrier_init_def)
  then have "bar_step c sp (barrier_init new_mutex)
      \<lparr>b_mx = new_mutex\<lparr>mx_barrier := 1\<rparr>, b_waiting = {7}, b_woken = {}, b_arrived = 1, b_returned = 0\<rparr>"
    using arrive_wait [of 7 "barrier_init new_mutex" c _ "{}" "{}" sp]
    by (simp add: barrier_init_def barrier_calls_def cond_wake_simps)
  with bar_init show ?thesis by (rule bar_more)
qed

lemma barrier_all_arrive: "bar_reachable 3 sp all_arrived"
proof -
  let ?w = "\<lparr>b_mx = new_mutex\<lparr>mx_barrier := 1\<rparr>, b_waiting = {7}, b_woken = {}, b_arrived = 1, b_returned = 0\<rparr>"
  have "mutex_barrier 8 3 (new_mutex\<lparr>mx_barrier := 1\<rparr>) = CondWait (new_mutex\<lparr>mx_barrier := 2\<rparr>)"
    using mutex_barrier_inv [of "new_mutex\<lparr>mx_barrier := 1\<rparr>" 1 3 8] by (simp add: new_mutex_def)
  then have "bar_step 3 sp ?w two_wait"
    using arrive_wait [of 8 ?w 3 _ "{7}" "{}" sp] 
    by (simp add: barrier_calls_def cond_wake_simps two_wait_def insert_commute numeral_2_eq_2)
  with barrier_one_waits [of 3 sp] have two: "bar_reachable 3 sp two_wait" by (auto intro: bar_more)
  have "mutex_barrier 9 3 (b_mx two_wait) = Done (Ret [] (new_mutex\<lparr>mx_cond := [Broadcast], mx_barrier := 0\<rparr>))"
    using mutex_barrier_inv [of "b_mx two_wait" 2 3 9] by (simp add: new_mutex_def two_wait_def)
  then have "bar_step 3 sp two_wait all_arrived"
    using arrive_last [of 9 two_wait 3 "[]" _ "{}" "{7, 8}" sp]
    by (simp add: barrier_calls_def cond_wake_simps two_wait_def all_arrived_def new_mutex_def)
  with two show ?thesis by (rule bar_more)
qed

theorem barrier_rounds_witness:
  "bar_reachable 3 False all_arrived \<and> b_waiting all_arrived = {} \<and> b_woken all_arrived = {7, 8} \<and>
    card (b_waiting all_arrived) = b_arrived all_arrived mod unat (3 :: 64 word) \<and>
    b_returned all_arrived + card (b_woken all_arrived) = b_arrived all_arrived div unat (3 :: 64 word) * unat (3 :: 64 word) \<and>
    (\<exists>w'. bar_step 3 False all_arrived w' \<and> b_arrived w' = 4) \<and>
    (\<exists>w'. bar_step 3 False all_arrived w' \<and> b_returned w' = 2 \<and> b_woken w' = {7})"
proof -
  have "b_waiting all_arrived = {}" "b_woken all_arrived = {7, 8}" "b_arrived all_arrived = 3" "b_returned all_arrived = 1"
    by (simp_all add: all_arrived_def)
  moreover have "{7, 8} - {8} = {7 :: tid}" by auto
  moreover have "9 \<notin> {7, 8 :: tid}" "8 \<in> {7, 8 :: tid}" by auto
  moreover have "0 < unat (3 :: 64 word)" by simp
  note rounds = barrier_rounds [OF barrier_all_arrive [of False] this]
  moreover from rounds have "9 \<notin> b_waiting all_arrived \<union> b_woken all_arrived \<longrightarrow>
      (\<exists>w'. bar_step 3 False all_arrived w' \<and> b_arrived w' = b_arrived all_arrived + 1)" by blast
  moreover from rounds have "8 \<in> b_woken all_arrived \<longrightarrow> (\<exists>w'. bar_step 3 False all_arrived w' \<and>
      b_returned w' = b_returned all_arrived + 1 \<and> b_woken w' = b_woken all_arrived - {8})" by blast
  ultimately show ?thesis using barrier_all_arrive [of False] by (simp add: numeral_2_eq_2 numeral_eq_Suc)
qed

text \<open>
  The barrier on a system with spurious wake-ups, which POSIX allows: a call on a barrier for two
  threads can return although no other thread has arrived, because the wait is not in a loop that looks at
  the barrier again.
\<close>

theorem barrier_spurious_return:
  "\<exists>w. bar_reachable 2 True w \<and> b_arrived w = 1 \<and> b_returned w = 1"
proof -
  let ?w = "\<lparr>b_mx = new_mutex\<lparr>mx_barrier := 1\<rparr>, b_waiting = {}, b_woken = {7}, b_arrived = 1, b_returned = 0\<rparr>"
  have "bar_reachable 2 True ?w"
    using bar_more [OF barrier_one_waits [of 2 True] wake_spurious [of True 7]] by simp
  moreover have "mutex_barrier_woken 7 (b_mx ?w) = Done (Ret [] (b_mx ?w))"
    by (simp add: mutex_barrier_woken_def mutex_unlock_def new_mutex_def)
  ultimately have "bar_reachable 2 True (?w\<lparr>b_mx := b_mx ?w, b_waiting := {}, b_woken := {}, b_returned := 1\<rparr>)"
    using bar_more [of 2 True ?w] woken_return [of 7 ?w "[]" "b_mx ?w" "{}" "{}" 2 True]
    by (simp add: barrier_calls_def cond_wake_simps)
  then show ?thesis
    by (intro exI [of _ "?w\<lparr>b_mx := b_mx ?w, b_waiting := {}, b_woken := {}, b_returned := 1\<rparr>"]) simp
qed



end
