(* ===== verification/SharedTable.thy ===== *)
theory SharedTable
  imports Growth
begin

text \<open>
  Shared tables, \<^verbatim>\<open>src/sharedtable.c\<close>: a table in a Lua state of its own; every access saves the values into the table's
  ring buffer on one side and loads them on the other.
\<close>

section \<open>Model\<close>

text \<open>
  The table is at index 1 of the stack of \<open>table->L\<close>; \<open>st_stack\<close> has the values above it, the lowest first.
\<close>

record sharedtable =
  st_rb :: ringbuffer
  st_mutex :: pmutex
  st_entries :: "entry list"
  st_stack :: "lua_value list"
  st_size_increment :: size_t
  st_ref_count :: cint

type_synonym 'a st_result = "(sharedtable, 'a) lres option"
type_synonym st_outcome = "(sharedtable, pushed list) outcome option"

text \<open>The mutex has the default type: a thread that holds it and locks it again blocks too.\<close>

definition st_lock :: "tid \<Rightarrow> sharedtable \<Rightarrow> (sharedtable \<Rightarrow> st_outcome) \<Rightarrow> st_outcome" where
  "st_lock t st k =
     (if owner (st_mutex st) = None then k (st\<lparr>st_mutex := \<lparr>owner = Some t, depth = 1\<rparr>\<rparr>) else Some LockWait)"

definition st_unlock :: "sharedtable \<Rightarrow> sharedtable" where
  "st_unlock st = st\<lparr>st_mutex := \<lparr>owner = None, depth = 0\<rparr>\<rparr>"

text \<open>
  \<open>rb_save_with_growth\<close> of this file passes no upvalues and, unlike the loops of the other modules, does not go back
  to the saved write position when \<open>rb_save\<close> refuses the value.
\<close>

definition st_save :: "lua_api \<Rightarrow> (nat \<Rightarrow> byte) \<Rightarrow> nat \<Rightarrow> nat \<Rightarrow> lua_value \<Rightarrow> sharedtable \<Rightarrow> int st_result" where
  "st_save A junk height index v st =
     (case rb_save_with_growth A junk (st_size_increment st) 0 index v \<lparr>srb = st_rb st, ltop = height, retained = []\<rparr> of
        None \<Rightarrow> None
      | Some (Ret ret s) \<Rightarrow> Some (Ret ret (st\<lparr>st_rb := srb s\<rparr>))
      | Some (Raise e s) \<Rightarrow> Some (Raise e (st\<lparr>st_rb := srb s\<rparr>))
      | Some (Abort f) \<Rightarrow> Some (Abort f))"

text \<open>
  \<open>rb_load\<close> into \<open>table->L\<close>: its result is not checked. A value that is not loaded leaves the following API call to
  work on the table itself. A Lua error in this state is not caught.
\<close>

definition st_load :: "lua_api \<Rightarrow> sharedtable \<Rightarrow> (sharedtable, lua_value) lres" where
  "st_load A st =
     (case rb_load A (1 + length (st_stack st)) (st_rb st) of
        Ret (LoadVal v) rb \<Rightarrow> Ret v (st\<lparr>st_rb := rb\<rparr>)
      | Ret _ rb \<Rightarrow> Abort StackCorrupt
      | Raise e rb \<Rightarrow> Abort LuaPanic
      | Abort f \<Rightarrow> Abort f)"

text \<open>Sequencing: on with the result, or out of the handler; \<open>panic\<close> when the error is one of \<open>table->L\<close>.\<close>

definition st_try :: "int st_result \<Rightarrow> bool \<Rightarrow> (int \<Rightarrow> sharedtable \<Rightarrow> st_outcome) \<Rightarrow> st_outcome" where
  "st_try r panic k =
     (case r of
        None \<Rightarrow> None
      | Some (Ret ret st) \<Rightarrow> k ret st
      | Some (Raise e st) \<Rightarrow> Some (Done (if panic then Abort LuaPanic else Raise e st))
      | Some (Abort f) \<Rightarrow> Some (Done (Abort f)))"

definition st_got :: "(sharedtable, lua_value) lres \<Rightarrow> (lua_value \<Rightarrow> sharedtable \<Rightarrow> st_outcome) \<Rightarrow> st_outcome" where
  "st_got r k =
     (case r of
        Ret v st \<Rightarrow> k v st
      | Raise e st \<Rightarrow> Some (Done (Raise e st))
      | Abort f \<Rightarrow> Some (Done (Abort f)))"

text \<open>The value \<open>rb_load\<close> leaves on top of the caller's stack; \<open>old\<close> is what was there before.\<close>

definition st_pull :: "lua_api \<Rightarrow> nat \<Rightarrow> lua_value \<Rightarrow> sharedtable \<Rightarrow> (lua_value \<Rightarrow> sharedtable \<Rightarrow> st_outcome) \<Rightarrow> st_outcome" where
  "st_pull A d old st k =
     (case rb_load A d (st_rb st) of
        Ret (LoadVal v) rb \<Rightarrow> k v (st\<lparr>st_rb := rb\<rparr>)
      | Ret _ rb \<Rightarrow> k old (st\<lparr>st_rb := rb\<rparr>)
      | Raise e rb \<Rightarrow> Some (Done (Raise e (st\<lparr>st_rb := rb\<rparr>)))
      | Abort f \<Rightarrow> Some (Done (Abort f)))"

definition st_raise :: "int \<Rightarrow> sharedtable \<Rightarrow> st_outcome" where
  "st_raise ret st = Some (Done (Raise (lua_handle_error ret) (st_unlock st)))"

definition sharedtable_read :: "lua_api \<Rightarrow> (nat \<Rightarrow> byte) \<Rightarrow> tid \<Rightarrow> lua_value \<Rightarrow> sharedtable \<Rightarrow> st_outcome" where
  "sharedtable_read A junk t k st = st_lock t st (\<lambda>st.
     st_try (st_save A junk 2 2 k st) False (\<lambda>ret st.
       if ret \<noteq> 0 then st_raise ret st
       else st_got (st_load A st) (\<lambda>key st.
         let stack = st_stack st @ [api_gettable A (st_entries st) key] in
         st_try (st_save A junk (1 + length stack) 2 (stack ! 0) (st\<lparr>st_stack := stack\<rparr>)) True (\<lambda>ret st.
           let popped = st\<lparr>st_stack := butlast (st_stack st)\<rparr> in
           if ret \<noteq> 0 then st_raise ret popped
           else st_pull A 2 k st (\<lambda>v st.
             Some (Done (Ret [PVal v] (st_unlock (st\<lparr>st_stack := butlast (st_stack st)\<rparr>)))))))))"

definition sharedtable_write :: "lua_api \<Rightarrow> (nat \<Rightarrow> byte) \<Rightarrow> tid \<Rightarrow> lua_value \<Rightarrow> lua_value \<Rightarrow> sharedtable \<Rightarrow> st_outcome" where
  "sharedtable_write A junk t k v st = st_lock t st (\<lambda>st.
     st_try (st_save A junk 3 2 k st) False (\<lambda>ret st.
       if ret \<noteq> 0 then st_raise ret st
       else st_got (st_load A st) (\<lambda>key st.
         let st = st\<lparr>st_stack := st_stack st @ [key]\<rparr> in
         st_try (st_save A junk 3 3 v st) False (\<lambda>ret st.
           if ret \<noteq> 0 then st_raise ret (st\<lparr>st_stack := butlast (st_stack st)\<rparr>)
           else st_got (st_load A st) (\<lambda>val st.
             case api_settable A (st_entries st) key val of
               None \<Rightarrow> Some (Done (Abort LuaPanic))
             | Some es \<Rightarrow> Some (Done (Ret [] (st_unlock (st\<lparr>st_entries := es, st_stack := butlast (st_stack st)\<rparr>)))))))))"

definition sharedtable_len :: "tid \<Rightarrow> sharedtable \<Rightarrow> st_outcome" where
  "sharedtable_len t st = st_lock t st (\<lambda>st.
     Some (Done (Ret [PInt (int (length (st_entries st)))] (st_unlock st))))"

text \<open>
  \<open>sharedtable_next\<close> with the previous key \<open>k\<close>: the results of \<open>lua_next\<close> are at the indices 2 and 3 of \<open>table->L\<close>.
\<close>

definition sharedtable_next :: "lua_api \<Rightarrow> (nat \<Rightarrow> byte) \<Rightarrow> tid \<Rightarrow> lua_value \<Rightarrow> sharedtable \<Rightarrow> st_outcome" where
  "sharedtable_next A junk t k st = st_lock t st (\<lambda>st.
     st_try (st_save A junk 2 2 k st) False (\<lambda>ret st.
       if ret \<noteq> 0 then st_raise ret st
       else st_got (st_load A st) (\<lambda>key st.
         case api_next A (st_entries st) key of
           None \<Rightarrow> Some (Done (Abort LuaPanic))
         | Some None \<Rightarrow> Some (Done (Ret [PVal LNil] (st_unlock st)))
         | Some (Some (k1, v1)) \<Rightarrow>
             let stack = st_stack st @ [k1, v1]; drop2 = (\<lambda>st. st\<lparr>st_stack := take (length (st_stack st) - 2) (st_stack st)\<rparr>) in
             st_try (st_save A junk (1 + length stack) 2 (stack ! 0) (st\<lparr>st_stack := stack\<rparr>)) True (\<lambda>ret st.
               if ret \<noteq> 0 then st_raise ret (drop2 st)
               else st_pull A 2 k st (\<lambda>x st.
                 st_try (st_save A junk (1 + length stack) 3 (stack ! 1) st) True (\<lambda>ret st.
                   if ret \<noteq> 0 then st_raise ret (drop2 st)
                   else st_pull A 3 x st (\<lambda>y st.
                     Some (Done (Ret [PVal x, PVal y] (st_unlock (drop2 st)))))))))))"

definition sharedtable_pairs :: "pushed list" where
  "sharedtable_pairs = [PStr ''sharedtable_next'', PUserdata 1, PVal LNil]"

text \<open>
  \<open>copy_entry_to_table\<close> with the entry at the top of a stack of \<open>height\<close> values; the result of the handler is
  its return value and whether the entry is to be taken out of the source table.
\<close>

definition copy_entry_to_table ::
    "lua_api \<Rightarrow> (nat \<Rightarrow> byte) \<Rightarrow> nat \<Rightarrow> lua_value \<Rightarrow> lua_value \<Rightarrow> sharedtable \<Rightarrow> int st_result" where
  "copy_entry_to_table A junk height k v st =
     (case st_save A junk height (height - 1) k st of
        Some (Ret ret st) \<Rightarrow>
          if ret \<noteq> 0 then Some (Ret ret st)
          else (case st_load A st of
             Ret key st \<Rightarrow>
               (case st_save A junk height height v (st\<lparr>st_stack := st_stack st @ [key]\<rparr>) of
                  Some (Ret ret st) \<Rightarrow>
                    if ret \<noteq> 0 then Some (Ret ret st)
                    else (case st_load A st of
                       Ret val st \<Rightarrow>
                         (case api_settable A (st_entries st) key val of
                            None \<Rightarrow> Some (Abort LuaPanic)
                          | Some es \<Rightarrow> Some (Ret 0 (st\<lparr>st_entries := es, st_stack := butlast (st_stack st)\<rparr>)))
                     | Raise e st \<Rightarrow> Some (Raise e st)
                     | Abort f \<Rightarrow> Some (Abort f))
                | r \<Rightarrow> r)
           | Raise e st \<Rightarrow> Some (Raise e st)
           | Abort f \<Rightarrow> Some (Abort f))
      | r \<Rightarrow> r)"

text \<open>
  \<open>init_table\<close>: the entries of the source table in the order of \<open>lua_next\<close>, and the source table after it, from which
  a move takes each copied entry.
\<close>

fun init_table ::
    "lua_api \<Rightarrow> (nat \<Rightarrow> byte) \<Rightarrow> bool \<Rightarrow> nat \<Rightarrow> entry list \<Rightarrow> entry list \<Rightarrow> sharedtable \<Rightarrow> (int \<times> entry list) st_result" where
  "init_table A junk move height [] src st = Some (Ret (0, src) st)"
| "init_table A junk move height ((k, v) # es) src st =
     (case copy_entry_to_table A junk (height + 2) k v st of
        None \<Rightarrow> None
      | Some (Ret ret st) \<Rightarrow>
          if ret \<noteq> 0 then Some (Ret (ret, src) st)
          else init_table A junk move height es (if move then filter (\<lambda>e. fst e \<noteq> k) src else src) st
      | Some (Raise e st) \<Rightarrow> Some (Raise e st)
      | Some (Abort f) \<Rightarrow> Some (Abort f))"

text \<open>
  \<open>sharedtable_create\<close>: \<open>libs_ok\<close> and \<open>requires_ok\<close> say whether the two chunks load and run in the new state, \<open>init_ret\<close> is
  the result of \<open>pthread_mutex_init\<close>. The result is the userdata, \<open>None\<close> when nothing is pushed, and the source
  table. \<open>args\<close> are the arguments on the stack.
\<close>

definition sharedtable_create ::
    "lua_api \<Rightarrow> (nat \<Rightarrow> byte) \<Rightarrow> bool \<Rightarrow> bool \<Rightarrow> int \<Rightarrow> int \<Rightarrow> lua_value list \<Rightarrow> bool \<Rightarrow> size_t \<Rightarrow> size_t \<Rightarrow>
      (entry list, sharedtable option) lres option" where
  "sharedtable_create A junk libs_ok requires_ok init_ret errno args move sz size_increment =
     (let src = (case args of LTable es m # _ \<Rightarrow> es | _ \<Rightarrow> []) in
      if args \<noteq> [] \<and> lua_type (hd args) \<noteq> 5 \<and> lua_type (hd args) \<noteq> 0
      then Some (Raise (LuaErrStr ''sharedtable arg #1 expected to be a table or nil'') src)
      else if \<not> libs_ok \<or> \<not> requires_ok then Some (Ret None src)
      else
        let st = \<lparr>st_rb = ringbuffer_create junk sz, st_mutex = pthread_mutex_init, st_entries = [], st_stack = [],
                  st_size_increment = size_increment, st_ref_count = 0\<rparr> in
        if init_ret \<noteq> 0 then Some (Raise (lua_handle_error errno) src)
        else if args \<noteq> [] \<and> hd args \<noteq> LNil then
          (case init_table A junk move (length args) src src st of
             None \<Rightarrow> None
           | Some (Ret (ret, src) st) \<Rightarrow>
               if ret \<noteq> 0 then Some (Raise (lua_handle_error ret) src)
               else Some (Ret (Some (st\<lparr>st_ref_count := 1\<rparr>)) src)
           | Some (Raise e st) \<Rightarrow> Some (Raise e src)
           | Some (Abort f) \<Rightarrow> Some (Abort f))
        else Some (Ret (Some (st\<lparr>st_ref_count := 1\<rparr>)) src))"

definition sharedtable_retain :: "th_api \<Rightarrow> sharedtable \<Rightarrow> sharedtable" where
  "sharedtable_retain T st = st\<lparr>st_ref_count := th_inc T (st_ref_count st)\<rparr>"

definition sharedtable_gc :: "th_api \<Rightarrow> sharedtable \<Rightarrow> sharedtable option" where
  "sharedtable_gc T st =
     (case th_dec T (st_ref_count st) of (n, True) \<Rightarrow> None | (n, False) \<Rightarrow> Some (st\<lparr>st_ref_count := n\<rparr>))"

definition sharedtable_metatablename :: "pushed list" where
  "sharedtable_metatablename = [PStr ''ipc.sharedtable'']"

section \<open>One value through the buffer\<close>

text \<open>
  \<open>st_ok c st\<close>: between two handlers the mutex is free, the buffer and the stack of \<open>table->L\<close> are empty, and the buffer has
  at most \<open>c\<close> bytes.
\<close>

definition st_ok :: "nat \<Rightarrow> sharedtable \<Rightarrow> bool" where
  "st_ok c st \<longleftrightarrow> owner (st_mutex st) = None \<and> rb_inv (st_rb st) \<and> content (st_rb st) = [] \<and> st_stack st = [] \<and>
     0 < st_size_increment st \<and> unat (cb (st_rb st)) \<le> c"

definition passes :: "lua_api \<Rightarrow> nat \<Rightarrow> lua_value \<Rightarrow> lua_value \<Rightarrow> bool" where
  "passes A d v v' \<longleftrightarrow> savable A False 0 v \<and> reload A 0 v = Some v' \<and> stack_ok A d (slots 0 v)"

definition value_cost :: "lua_api \<Rightarrow> sharedtable \<Rightarrow> lua_value \<Rightarrow> nat" where
  "value_cost A st v = length (encode A 0 v) + unat (st_size_increment st)"

lemma st_save_ok:
  assumes "rb_inv (st_rb st)" and "content (st_rb st) = []" and "0 < st_size_increment st"
    and "passes A d v v'" and "index \<le> height" and "value_cost A st v < max_object"
  obtains rb where "st_save A junk height index v st = Some (Ret 0 (st\<lparr>st_rb := rb\<rparr>))" and "rb_inv rb"
    and "content rb = encode A 0 v" and "unat (cb rb) \<le> unat (cb (st_rb st)) + value_cost A st v"
proof -
  let ?s = "\<lparr>srb = st_rb st, ltop = height, retained = []\<rparr>"
  obtain s' where "rb_save_with_growth A junk (st_size_increment st) 0 index v ?s = Some (Ret 0 s')" "rb_inv (srb s')"
      "content (srb s') = encode A 0 v"
      "unat (cb (srb s')) \<le> max (unat (cb (st_rb st))) (value_cost A st v)"
    using rb_save_with_growth_spec [of A 0 v "st_size_increment st" ?s index junk] assms
    by (auto simp: passes_def value_cost_def word_less_nat_alt)
  then show thesis by (intro that [of "srb s'"]) (auto simp: st_save_def)
qed

lemma rb_load_passes:
  assumes "rb_inv rb" and "content rb = encode A 0 v" and "passes A d v v'"
  obtains rb' where "rb_load A d rb = Ret (LoadVal v') rb'" and "rb_inv rb'" and "content rb' = []"
    and "unat (cb rb') = unat (cb rb)"
proof -
  have "stored.loaded rb [] v' (rb_load A d rb)"
    using assms by (intro stored.rb_load_front [of A 0 v]) (auto simp: passes_def)
  then show thesis by (auto simp: stored.loaded_def intro: that)
qed

text \<open>A value into the table's state, and one out of it.\<close>

lemma st_in:
  assumes "rb_inv (st_rb st)" and "content (st_rb st) = []" and "0 < st_size_increment st"
    and "passes A (1 + length (st_stack st)) v v'" and "index \<le> height" and "value_cost A st v < max_object"
    and "\<And>rb. rb_inv rb \<Longrightarrow> content rb = [] \<Longrightarrow> unat (cb rb) \<le> unat (cb (st_rb st)) + value_cost A st v \<Longrightarrow>
      P (k v' (st\<lparr>st_rb := rb\<rparr>))"
  shows "P (st_try (st_save A junk height index v st) pan (\<lambda>ret st. if ret \<noteq> 0 then e ret st else st_got (st_load A st) k))"
proof -
  obtain rb where rb: "st_save A junk height index v st = Some (Ret 0 (st\<lparr>st_rb := rb\<rparr>))" "rb_inv rb"
      "content rb = encode A 0 v" "unat (cb rb) \<le> unat (cb (st_rb st)) + value_cost A st v"
    by (rule st_save_ok [OF assms(1-6)])
  obtain rb' where "rb_load A (1 + length (st_stack st)) rb = Ret (LoadVal v') rb'" "rb_inv rb'" "content rb' = []"
      "unat (cb rb') = unat (cb rb)"
    by (rule rb_load_passes [OF rb(2,3) assms(4)])
  with rb assms(7) [of rb'] show ?thesis by (simp add: st_try_def st_got_def st_load_def)
qed

lemma st_out:
  assumes "rb_inv (st_rb st)" and "content (st_rb st) = []" and "0 < st_size_increment st"
    and "passes A d v v'" and "index \<le> height" and "value_cost A st v < max_object"
    and "\<And>rb. rb_inv rb \<Longrightarrow> content rb = [] \<Longrightarrow> unat (cb rb) \<le> unat (cb (st_rb st)) + value_cost A st v \<Longrightarrow>
      P (k v' (st\<lparr>st_rb := rb\<rparr>))"
  shows "P (st_try (st_save A junk height index v st) pan (\<lambda>ret st. if ret \<noteq> 0 then e ret st else st_pull A d old st k))"
proof -
  obtain rb where rb: "st_save A junk height index v st = Some (Ret 0 (st\<lparr>st_rb := rb\<rparr>))" "rb_inv rb"
      "content rb = encode A 0 v" "unat (cb rb) \<le> unat (cb (st_rb st)) + value_cost A st v"
    by (rule st_save_ok [OF assms(1-6)])
  obtain rb' where "rb_load A d rb = Ret (LoadVal v') rb'" "rb_inv rb'" "content rb' = []" "unat (cb rb') = unat (cb rb)"
    by (rule rb_load_passes [OF rb(2,3) assms(4)])
  with rb assms(7) [of rb'] show ?thesis by (simp add: st_try_def st_pull_def)
qed

section \<open>The handlers\<close>

lemma sharedtable_write_spec:
  assumes ok: "st_ok c st" and k: "passes A 1 k k'" and v: "passes A 2 v v'"
    and set: "api_settable A (st_entries st) k' v' = Some es"
    and small: "value_cost A st k < max_object" "value_cost A st v < max_object"
  shows "\<exists>st'. sharedtable_write A junk t k v st = Some (Done (Ret [] st')) \<and> st_entries st' = es \<and>
    st_ok (c + value_cost A st k + value_cost A st v) st' \<and> st_size_increment st' = st_size_increment st"
proof -
  have o: "owner (st_mutex st) = None" "rb_inv (st_rb st)" "content (st_rb st) = []" "st_stack st = []"
      "0 < st_size_increment st" "unat (cb (st_rb st)) \<le> c"
    using ok by (simp_all add: st_ok_def)
  show ?thesis
    unfolding sharedtable_write_def st_lock_def using o
    apply (simp only: if_True)
    apply (rule st_in [where v' = k'])
          apply (use k small in \<open>simp_all add: Let_def value_cost_def\<close>)
    apply (rule st_in [where v' = v'])
          apply (use v small set in \<open>auto simp: value_cost_def st_ok_def st_unlock_def numeral_2_eq_2\<close>)
    done
qed

lemma sharedtable_read_spec:
  assumes ok: "st_ok c st" and k: "passes A 1 k k'" and v: "passes A 2 (api_gettable A (st_entries st) k') v"
    and small: "value_cost A st k < max_object" "value_cost A st (api_gettable A (st_entries st) k') < max_object"
  shows "\<exists>st'. sharedtable_read A junk t k st = Some (Done (Ret [PVal v] st')) \<and> st_entries st' = st_entries st \<and>
    st_ok (c + value_cost A st k + value_cost A st (api_gettable A (st_entries st) k')) st'"
proof -
  have o: "owner (st_mutex st) = None" "rb_inv (st_rb st)" "content (st_rb st) = []" "st_stack st = []"
      "0 < st_size_increment st" "unat (cb (st_rb st)) \<le> c"
    using ok by (simp_all add: st_ok_def)
  show ?thesis
    unfolding sharedtable_read_def st_lock_def using o
    apply (simp only: if_True)
    apply (rule st_in [where v' = k'])
          apply (use k small in \<open>simp_all add: Let_def value_cost_def\<close>)
    apply (rule st_out [where v' = v])
          apply (use v small in \<open>auto simp: value_cost_def st_ok_def st_unlock_def\<close>)
    done
qed

lemma copy_entry_spec:
  assumes ok: "st_ok c st" and k: "passes A 1 k k'" and v: "passes A 2 v v'"
    and set: "api_settable A (st_entries st) k' v' = Some es"
    and small: "value_cost A st k < max_object" "value_cost A st v < max_object"
  shows "\<exists>st'. copy_entry_to_table A junk height k v st = Some (Ret 0 st') \<and> st_entries st' = es \<and>
    st_ok (c + value_cost A st k + value_cost A st v) st' \<and> st_size_increment st' = st_size_increment st"
proof -
  have o: "owner (st_mutex st) = None" "rb_inv (st_rb st)" "content (st_rb st) = []" "st_stack st = []"
      "0 < st_size_increment st" "unat (cb (st_rb st)) \<le> c"
    using ok by (simp_all add: st_ok_def)
  obtain rb where rb: "st_save A junk height (height - 1) k st = Some (Ret 0 (st\<lparr>st_rb := rb\<rparr>))" "rb_inv rb"
      "content rb = encode A 0 k" "unat (cb rb) \<le> unat (cb (st_rb st)) + value_cost A st k"
    by (rule st_save_ok [OF o(2,3,5) k, of "height - 1" height]) (use small in simp_all)
  obtain rb1 where rb1: "rb_load A 1 rb = Ret (LoadVal k') rb1" "rb_inv rb1" "content rb1 = []" "unat (cb rb1) = unat (cb rb)"
    by (rule rb_load_passes [OF rb(2,3) k])
  let ?st = "st\<lparr>st_rb := rb1, st_stack := [k']\<rparr>"
  obtain rb2 where rb2: "st_save A junk height height v ?st = Some (Ret 0 (?st\<lparr>st_rb := rb2\<rparr>))" "rb_inv rb2"
      "content rb2 = encode A 0 v" "unat (cb rb2) \<le> unat (cb rb1) + value_cost A st v"
    by (rule st_save_ok [of ?st, OF _ _ _ v, of height height]) (use small rb1 o in \<open>simp_all add: value_cost_def\<close>)
  obtain rb3 where rb3: "rb_load A 2 rb2 = Ret (LoadVal v') rb3" "rb_inv rb3" "content rb3 = []" "unat (cb rb3) = unat (cb rb2)"
    by (rule rb_load_passes [OF rb2(2,3) v])
  show ?thesis
    using rb rb1 rb2 rb3 o set
    by (simp add: copy_entry_to_table_def st_load_def st_ok_def numeral_2_eq_2 [symmetric])
qed

definition entries_cost :: "lua_api \<Rightarrow> sharedtable \<Rightarrow> entry list \<Rightarrow> nat" where
  "entries_cost A st es = sum_list (map (\<lambda>(k, v). value_cost A st k + value_cost A st v) es)"

lemma init_table_spec:
  assumes "list_all2 (rel_prod (passes A 1) (passes A 2)) es es'" and "build_table A (st_entries st) es' = Some es''"
    and "st_ok c st" and "entries_cost A st es < max_object"
  shows "\<exists>st'. init_table A junk move height es src st =
      Some (Ret (0, if move then filter (\<lambda>e. fst e \<notin> fst ` set es) src else src) st') \<and>
    st_entries st' = es'' \<and> st_ok (c + entries_cost A st es) st' \<and> st_size_increment st' = st_size_increment st"
  using assms
proof (induction es es' arbitrary: st c src rule: list_all2_induct)
  case Nil
  then show ?case by (simp add: entries_cost_def)
next
  case (Cons e es e' es')
  obtain k v k' v' where e: "e = (k, v)" "e' = (k', v')" and kv: "passes A 1 k k'" "passes A 2 v v'"
    using Cons.hyps(1) by (auto simp: rel_prod.simps)
  from Cons.prems(1) obtain es1 where es1: "api_settable A (st_entries st) k' v' = Some es1" "build_table A es1 es' = Some es''"
    by (auto simp: e split: option.splits)
  obtain st1 where st1: "copy_entry_to_table A junk (height + 2) k v st = Some (Ret 0 st1)" "st_entries st1 = es1"
      "st_ok (c + value_cost A st k + value_cost A st v) st1" "st_size_increment st1 = st_size_increment st"
    using copy_entry_spec [OF Cons.prems(2) kv es1(1), of junk "height + 2"] Cons.prems(3) by (auto simp: e entries_cost_def)
  have cost: "value_cost A st1 = value_cost A st" "entries_cost A st1 es = entries_cost A st es"
    using st1(4) by (auto simp: value_cost_def entries_cost_def)
  let ?src = "if move then filter (\<lambda>e. fst e \<noteq> k) src else src"
  have "build_table A (st_entries st1) es' = Some es''" using st1(2) es1(2) by simp
  moreover have "entries_cost A st1 es < max_object" using Cons.prems(3) cost by (simp add: e entries_cost_def)
  ultimately obtain st' where st': "init_table A junk move height es ?src st1 =
      Some (Ret (0, if move then filter (\<lambda>e. fst e \<notin> fst ` set es) ?src else ?src) st')"
      "st_entries st' = es''" "st_ok (c + value_cost A st k + value_cost A st v + entries_cost A st1 es) st'"
      "st_size_increment st' = st_size_increment st1"
    using Cons.IH [OF _ st1(3), of ?src] by blast
  have src: "(if move then filter (\<lambda>e. fst e \<notin> fst ` set es) ?src else ?src) =
      (if move then filter (\<lambda>x. fst x \<notin> fst ` set (e # es)) src else src)"
    by (auto simp: e intro!: filter_cong)
  have sum: "c + value_cost A st k + value_cost A st v + entries_cost A st1 es = c + entries_cost A st (e # es)"
    using cost(2) by (simp add: e entries_cost_def)
  have "init_table A junk move height (e # es) src st = init_table A junk move height es ?src st1"
    using st1(1) by (simp add: e)
  also have "\<dots> = Some (Ret (0, if move then filter (\<lambda>x. fst x \<notin> fst ` set (e # es)) src else src) st')"
    using st'(1) by (simp only: src)
  finally have "init_table A junk move height (e # es) src st =
    Some (Ret (0, if move then filter (\<lambda>x. fst x \<notin> fst ` set (e # es)) src else src) st')" .
  moreover have "st_size_increment st' = st_size_increment st" using st'(4) st1(4) by simp
  ultimately show ?case using st'(2,3) unfolding sum by blast
qed

section \<open>Reference counting\<close>

definition st_refs :: "sharedtable \<Rightarrow> nat" where
  "st_refs st = unat (st_ref_count st)"

definition new_sharedtable :: sharedtable where
  "new_sharedtable = \<lparr>st_rb = ringbuffer_create (\<lambda>_. 0) 64, st_mutex = pthread_mutex_init, st_entries = [], st_stack = [],
     st_size_increment = 64, st_ref_count = 1\<rparr>"

interpretation st_rc: counted st_refs new_sharedtable "sharedtable_retain th_model" "sharedtable_gc th_model"
proof unfold_locales
  fix x :: sharedtable
  show "st_refs x = 1 \<Longrightarrow> sharedtable_gc th_model x = None"
    using refcount_arith(3) [of "st_ref_count x"]
    by (simp add: st_refs_def sharedtable_gc_def th_model_def del: One_nat_def)
  show "1 < st_refs x \<Longrightarrow> st_refs x < 2 ^ 31 \<Longrightarrow>
      \<exists>x'. sharedtable_gc th_model x = Some x' \<and> st_refs x' = st_refs x - 1"
    using refcount_arith(2) [of "st_ref_count x"] refcount_arith(3) [of "st_ref_count x"]
    by (auto simp: st_refs_def sharedtable_gc_def th_model_def)
qed (auto simp: st_refs_def sharedtable_retain_def new_sharedtable_def th_model_def refcount_arith(1))

section \<open>Properties\<close>

text \<open>What \<open>lua_settable\<close> and \<open>lua_gettable\<close> do with a key that can be stored.\<close>

definition set_get :: "lua_api \<Rightarrow> (lua_value \<Rightarrow> bool) \<Rightarrow> bool" where
  "set_get A key \<longleftrightarrow> (\<forall>es k v. key k \<longrightarrow> (\<exists>es'. api_settable A es k v = Some es' \<and> api_gettable A es' k = v))"

text \<open>
  C25: A value written to a shared table under a key is what a read of the key returns, from whichever thread, as the
  value made by one trip into the table's state and one out of it; the buffer, the stack of the table's state
  and the mutex are as before, so that the next access finds them in order.
\<close>

theorem sharedtable_write_read:
  assumes "set_get A key" and "key k'" and "st_ok c st"
    and "passes A 1 k k'" and "passes A 2 v v'" and "passes A 2 v' v''"
    and "value_cost A st k < max_object" and "value_cost A st v < max_object" and "value_cost A st v' < max_object"
  shows "\<exists>st1 st2 c1 c2. sharedtable_write A junk t k v st = Some (Done (Ret [] st1)) \<and> st_ok c1 st1 \<and>
    sharedtable_read A junk t' k st1 = Some (Done (Ret [PVal v''] st2)) \<and> st_ok c2 st2"
proof -
  obtain es where es: "api_settable A (st_entries st) k' v' = Some es" "api_gettable A es k' = v'"
    using assms(1,2) unfolding set_get_def by blast
  obtain st1 where st1: "sharedtable_write A junk t k v st = Some (Done (Ret [] st1))" "st_entries st1 = es"
      "st_ok (c + value_cost A st k + value_cost A st v) st1" "st_size_increment st1 = st_size_increment st"
    using sharedtable_write_spec [OF assms(3-5) es(1) assms(7,8)] by blast
  have "value_cost A st1 = value_cost A st" using st1(4) by (auto simp: value_cost_def)
  then obtain st2 where "sharedtable_read A junk t' k st1 = Some (Done (Ret [PVal v''] st2))"
      "st_ok (c + value_cost A st k + value_cost A st v + value_cost A st1 k + value_cost A st1 v') st2"
    using sharedtable_read_spec [OF st1(3) assms(4), of v'' junk t'] assms(6,7,9) st1(2) es(2) by auto
  with st1(1,3) show ?thesis by blast
qed

lemma small_set_get: "set_get small_lua (\<lambda>k. k \<noteq> LNil)"
proof -
  have "\<exists>es'. small_settable es k v = Some es' \<and> small_gettable es' k = v" if "k \<noteq> LNil" for es k v
  proof -
    have "map_of (filter (\<lambda>e. fst e \<noteq> k) es) k = None" by (auto simp: map_of_eq_None_iff)
    moreover have "map_of (map (\<lambda>e. if fst e = k then (k, v) else e) es) k = Some v" if "k \<in> fst ` set es"
      using that by (induction es) auto
    moreover have "map_of (es @ [(k, v)]) k = Some v" if "k \<notin> fst ` set es"
      using that by (simp add: map_add_def map_of_eq_None_iff [THEN iffD2])
    ultimately show ?thesis using that by (auto simp: small_settable_def small_gettable_def)
  qed
  then show ?thesis by (simp add: set_get_def)
qed

lemma new_sharedtable_ok: "st_ok 64 new_sharedtable"
  by (simp add: st_ok_def new_sharedtable_def rb_inv_create max_object_def) (simp add: pthread_mutex_init_def ringbuffer_create_def)

theorem sharedtable_write_read_witness:
  "\<exists>st1 st2 c1 c2. sharedtable_write small_lua (\<lambda>_. 0) 1 (LString [97]) (LBoolean True) new_sharedtable = Some (Done (Ret [] st1)) \<and> st_ok c1 st1 \<and>
    sharedtable_read small_lua (\<lambda>_. 0) 2 (LString [97]) st1 = Some (Done (Ret [PVal (LBoolean True)] st2)) \<and> st_ok c2 st2"
  by (rule sharedtable_write_read [OF small_set_get _ new_sharedtable_ok,
        where k' = "LString [97]" and v' = "LBoolean True"])
    (simp_all add: passes_def stack_ok_def value_cost_def str_bytes_def max_object_def new_sharedtable_def)

text \<open>
  C31: A shared table created from a table has exactly the entries that inserting the source's entries one by one into
  a new table gives, and with \<open>move\<close> the source is left empty.
\<close>

theorem sharedtable_create_copies:
  assumes "list_all2 (rel_prod (passes A 1) (passes A 2)) es es'" and "build_table A [] es' = Some es''"
    and "0 < sz" and "0 < inc" and "unat sz < max_object"
    and "sum_list (map (\<lambda>(k, v). length (encode A 0 k) + length (encode A 0 v) + 2 * unat inc) es) < max_object"
  shows "\<exists>st c. sharedtable_create A junk True True 0 errno (LTable es m # args) move sz inc =
      Some (Ret (Some st) (if move then [] else es)) \<and>
    st_entries st = es'' \<and> st_ref_count st = 1 \<and> st_ok c st"
proof -
  let ?st = "\<lparr>st_rb = ringbuffer_create junk sz, st_mutex = pthread_mutex_init, st_entries = [], st_stack = [],
    st_size_increment = inc, st_ref_count = 0\<rparr>"
  have ok: "st_ok (unat sz) ?st"
    using assms(3-5) by (simp add: st_ok_def rb_inv_create) (simp add: pthread_mutex_init_def ringbuffer_create_def)
  have "entries_cost A ?st es = sum_list (map (\<lambda>(k, v). length (encode A 0 k) + length (encode A 0 v) + 2 * unat inc) es)"
    unfolding entries_cost_def value_cost_def by (rule arg_cong [of _ _ sum_list]) auto
  with init_table_spec [OF assms(1) _ ok, of es'' junk move "length (LTable es m # args)" es] assms(2,6)
  obtain st' where st': "init_table A junk move (length (LTable es m # args)) es es ?st =
      Some (Ret (0, if move then filter (\<lambda>e. fst e \<notin> fst ` set es) es else es) st')"
      "st_entries st' = es''" "st_ok (unat sz + entries_cost A ?st es) st'"
    by auto
  have "filter (\<lambda>e. fst e \<notin> fst ` set es) es = []" by (auto simp: filter_empty_conv)
  with st' show ?thesis
    by (auto simp: sharedtable_create_def Let_def st_ok_def intro!: exI [of _ "unat sz + entries_cost A ?st es"])
qed

theorem sharedtable_create_copies_witness:
  "\<exists>st c. sharedtable_create small_lua (\<lambda>_. 0) True True 0 0 (LTable [(LBoolean True, LNumber 3)] NoMeta # []) True 8 8 =
      Some (Ret (Some st) (if True then [] else [(LBoolean True, LNumber 3)])) \<and>
    st_entries st = [(LBoolean True, LNumber 3)] \<and> st_ref_count st = 1 \<and> st_ok c st"
  by (rule sharedtable_create_copies [where es' = "[(LBoolean True, LNumber 3)]"])
    (simp_all add: passes_def stack_ok_def max_object_def small_settable_def)

text \<open>
  A refused value leaves a shared table broken: writing a table with a coroutine in it raises an error, but
  the bytes written before the coroutine was met stay in the buffer, and the next read of any key
  loads them as part of its key.
\<close>

theorem sharedtable_refused_corrupts:
  "(case sharedtable_write small_lua (\<lambda>_. 0) 1 (LBoolean True) (LTable [(LBoolean True, LThread 0)] NoMeta) new_sharedtable of
      Some (Done (Raise e st)) \<Rightarrow> e = LuaErrno EPERM \<and> unat (rcb (st_rb st)) = 3 \<and> owner (st_mutex st) = None \<and>
        (case sharedtable_read small_lua (\<lambda>_. 0) 2 (LBoolean True) st of
           Some (Done (Abort f)) \<Rightarrow> f = StackCorrupt | _ \<Rightarrow> False)
    | _ \<Rightarrow> False)"
  by code_simp

end
