(* ===== verification/Map_Threads.thy ===== *)
theory Map_Threads
  imports Growth
begin

text \<open>
  Maps, \<^verbatim>\<open>src/map.c\<close>: threads that get a function and its arguments through a ring buffer, run it in a Lua state of their
  own, and hand their results back through the same buffer, which \<open>join\<close> collects in the order of the threads.
\<close>

section \<open>Model\<close>

definition MAX_ARG_SIZE :: size_t where "MAX_ARG_SIZE = 16 * 1024"

text \<open>A pointer to a ring buffer: null, to a freed buffer, or to a buffer.\<close>

datatype rb_ptr = Null | Freed | Live ringbuffer

text \<open>
  A thread with its buffer and its result code; \<open>mt_extended\<close> tells which of the two thread functions it runs, and
  \<open>mt_done\<close> whether that has returned.
\<close>

record map_thread =
  mt_rb :: rb_ptr
  mt_ret :: int
  mt_extended :: bool
  mt_done :: bool

text \<open>
  What runs in the threads is not part of the library: \<open>te_require\<close> is the result of loading torch and libipc in the new state
  (0, or an error code and the message it leaves on the stack), \<open>te_call\<close> that of a protected call of a function with its
  arguments (0 and the results, or an error code and the message), \<open>te_loadstring\<close> what \<open>luaL_loadstring\<close> leaves on the stack, the
  compiled function or a message, \<open>te_tostring\<close> the text \<open>lua_tostring\<close> gives in an error message, \<open>te_height\<close> the
  height of the stack after the start, \<open>te_create\<close> and \<open>te_join\<close> the results of the thread functions for the \<open>i\<close>-th thread, and
  \<open>te_integer\<close> the value \<open>lua_pushinteger\<close> pushes.
\<close>

record thread_env =
  te_require :: "int \<times> lua_value"
  te_call :: "lua_value list \<Rightarrow> int \<times> lua_value list"
  te_loadstring :: "byte list \<Rightarrow> lua_value"
  te_tostring :: "lua_value \<Rightarrow> string"
  te_height :: nat
  te_create :: "nat \<Rightarrow> int"
  te_join :: "nat \<Rightarrow> int"
  te_integer :: "int \<Rightarrow> lua_value"

text \<open>The save loop of this file puts the Lua stack back before it tries again.\<close>

partial_function (option) map_save_with_growth ::
    "lua_api \<Rightarrow> (nat \<Rightarrow> byte) \<Rightarrow> nat \<Rightarrow> lua_value \<Rightarrow> save_state \<Rightarrow> save_result option" where
  "map_save_with_growth A junk index v s =
     (case rb_save A False 0 index v (s\<lparr>srb := ringbuffer_push_write_pos (srb s)\<rparr>) of
        Ret ret s1 \<Rightarrow>
          if ret = - ENOMEM then
            if ltop s1 < ltop s then Some (Raise (LuaErrStr ''too many items popped during serialization'') s1)
            else (case ringbuffer_grow_by junk (ringbuffer_pop_write_pos (srb s1)) MAX_ARG_SIZE of
               Crash e \<Rightarrow> Some (Abort e)
             | Ok rb \<Rightarrow> map_save_with_growth A junk index v (s1\<lparr>srb := rb, ltop := ltop s\<rparr>))
          else Some (Ret ret s1)
      | Raise e s1 \<Rightarrow> Some (Raise e s1)
      | Abort f \<Rightarrow> Some (Abort f))"

declare map_save_with_growth.simps [code]

text \<open>The loops over several values, at consecutive places of the stack, up to the first that is refused.\<close>

fun save_values ::
    "lua_api \<Rightarrow> (nat \<Rightarrow> byte) \<Rightarrow> nat \<Rightarrow> lua_value list \<Rightarrow> save_state \<Rightarrow> save_result option" where
  "save_values A junk index [] s = Some (Ret 0 s)"
| "save_values A junk index (v # vs) s =
     (case map_save_with_growth A junk index v s of
        Some (Ret ret s) \<Rightarrow> if ret \<noteq> 0 then Some (Ret ret s) else save_values A junk (index + 1) vs s
      | r \<Rightarrow> r)"

text \<open>
  \<open>end_thread\<close>: the values above \<open>te_height\<close> are saved. An error that leaves \<open>rb_save\<close> here is caught by nobody and ends the
  process.
\<close>

definition end_thread ::
    "lua_api \<Rightarrow> (nat \<Rightarrow> byte) \<Rightarrow> thread_env \<Rightarrow> lua_value list \<Rightarrow> ringbuffer \<Rightarrow> int \<Rightarrow> (ringbuffer \<times> int) res option" where
  "end_thread A junk E stack rb ret =
     (case save_values A junk (te_height E + 1) stack \<lparr>srb = rb, ltop = te_height E + length stack, retained = []\<rparr> of
        None \<Rightarrow> None
      | Some (Ret r s) \<Rightarrow> Some (Ok (srb s, if r \<noteq> 0 then r else ret))
      | Some (Raise e s) \<Rightarrow> Some (Crash LuaPanic)
      | Some (Abort f) \<Rightarrow> Some (Crash f))"

text \<open>The loop of \<open>core_thread\<close> that reads the function and its arguments.\<close>

partial_function (option) load_args ::
    "lua_api \<Rightarrow> nat \<Rightarrow> lua_value list \<Rightarrow> ringbuffer \<Rightarrow> (lua_value list \<times> ringbuffer) res option" where
  "load_args A d acc rb =
     (if ringbuffer_peek rb = 0 then Some (Ok (acc, rb))
      else (case rb_load A (d + length acc) rb of
          Ret (LoadVal v) rb \<Rightarrow> load_args A d (acc @ [v]) rb
        | Ret LoadEnd rb \<Rightarrow> Some (Crash StackCorrupt)
        | Ret (LoadErr e) rb \<Rightarrow> Some (Crash LuaPanic)
        | Raise e rb \<Rightarrow> Some (Crash LuaPanic)
        | Abort f \<Rightarrow> Some (Crash f)))"

declare load_args.simps [code]

definition core_thread ::
    "lua_api \<Rightarrow> (nat \<Rightarrow> byte) \<Rightarrow> thread_env \<Rightarrow> ringbuffer \<Rightarrow> (ringbuffer \<times> int) res option" where
  "core_thread A junk E rb =
     (case load_args A (te_height E) [] rb of
        None \<Rightarrow> None
      | Some (Crash f) \<Rightarrow> Some (Crash f)
      | Some (Ok (vs, rb)) \<Rightarrow>
          if vs = [] then Some (Crash StackCorrupt)
          else let (ret, out) = te_call E vs in end_thread A junk E out rb ret)"

text \<open>\<open>thread_func\<close>, with \<open>start_thread\<close> before and \<open>end_thread\<close> after the work.\<close>

definition thread_func ::
    "lua_api \<Rightarrow> (nat \<Rightarrow> byte) \<Rightarrow> thread_env \<Rightarrow> ringbuffer \<Rightarrow> (ringbuffer \<times> int) res option" where
  "thread_func A junk E rb =
     (let (ret, msg) = te_require E in
      if ret \<noteq> 0 then end_thread A junk E [msg] rb ret else core_thread A junk E rb)"

text \<open>
  \<open>thread_extended_func\<close>: the first value is a function or the source of one, which is called before the work, or nil. When that
  call fails the function and its arguments stay in the buffer.
\<close>

definition thread_extended_func ::
    "lua_api \<Rightarrow> (nat \<Rightarrow> byte) \<Rightarrow> thread_env \<Rightarrow> ringbuffer \<Rightarrow> (ringbuffer \<times> int) res option" where
  "thread_extended_func A junk E rb =
     (let (ret, msg) = te_require E in
      if ret \<noteq> 0 then end_thread A junk E [msg] rb ret
      else (case rb_load A (te_height E) rb of
          Ret (LoadVal v) rb \<Rightarrow>
            let v = (case v of LString str \<Rightarrow> te_loadstring E (c_string str) | _ \<Rightarrow> v) in
            if v = LNil then core_thread A junk E rb
            else
              let (ret, out) = te_call E [v] in
              if ret \<noteq> 0 then end_thread A junk E out rb ret else core_thread A junk E rb
        | Ret _ rb \<Rightarrow> Some (Crash StackCorrupt)
        | Raise e rb \<Rightarrow> Some (Crash LuaPanic)
        | Abort f \<Rightarrow> Some (Crash f)))"

text \<open>
  The loop of \<open>core_map\<close> from the \<open>i\<close>-th thread on, with \<open>n\<close> threads to go: the function and the arguments are at 2 to \<open>k\<close> of the
  stack, the number of the thread at \<open>k + 1\<close>.
\<close>

fun launch ::
    "lua_api \<Rightarrow> (nat \<Rightarrow> byte) \<Rightarrow> thread_env \<Rightarrow> bool \<Rightarrow> lua_value list \<Rightarrow> nat \<Rightarrow> nat \<Rightarrow> map_thread list \<Rightarrow>
      (map_thread list, unit) lres option" where
  "launch A junk E ext args i 0 ts = Some (Ret () ts)"
| "launch A junk E ext args i (Suc n) ts =
     (let k = 1 + length args in
      (case save_values A junk 2 args \<lparr>srb = ringbuffer_create junk MAX_ARG_SIZE, ltop = k, retained = []\<rparr> of
         None \<Rightarrow> None
       | Some (Raise e s) \<Rightarrow> Some (Raise e ts)
       | Some (Abort f) \<Rightarrow> Some (Abort f)
       | Some (Ret ret s) \<Rightarrow>
           if ret \<noteq> 0 then Some (Raise (lua_handle_error ret) ts)
           else (case map_save_with_growth A junk (k + 1) (te_integer E (int i + 1)) (s\<lparr>ltop := k + 1\<rparr>) of
               None \<Rightarrow> None
             | Some (Raise e s) \<Rightarrow> Some (Raise e ts)
             | Some (Abort f) \<Rightarrow> Some (Abort f)
             | Some (Ret ret s) \<Rightarrow>
                 if ret \<noteq> 0 then Some (Raise (lua_handle_error ret) ts)
                 else if te_create E i \<noteq> 0 then Some (Raise (lua_handle_error (te_create E i)) ts)
                 else launch A junk E ext args (i + 1) n
                   (ts @ [\<lparr>mt_rb = Live (srb s), mt_ret = 0, mt_extended = ext, mt_done = False\<rparr>]))))"

definition core_map ::
    "lua_api \<Rightarrow> (nat \<Rightarrow> byte) \<Rightarrow> thread_env \<Rightarrow> bool \<Rightarrow> nat \<Rightarrow> lua_value list \<Rightarrow> (map_thread list, unit) lres option" where
  "core_map A junk E ext n args = launch A junk E ext args 0 n []"

definition map_open ::
    "lua_api \<Rightarrow> (nat \<Rightarrow> byte) \<Rightarrow> thread_env \<Rightarrow> nat \<Rightarrow> lua_value list \<Rightarrow> (map_thread list, unit) lres option" where
  "map_open A junk E n args =
     (if args = [] \<or> lua_type (hd args) \<noteq> 6 then Some (Raise (LuaErrStr ''map arg #2 expected a function'') [])
      else core_map A junk E False n args)"

definition map_extended_open ::
    "lua_api \<Rightarrow> (nat \<Rightarrow> byte) \<Rightarrow> thread_env \<Rightarrow> nat \<Rightarrow> lua_value list \<Rightarrow> (map_thread list, unit) lres option" where
  "map_extended_open A junk E n args =
     (if args = [] \<or> lua_type (hd args) \<notin> {0, 4, 6} then
        Some (Raise (LuaErrStr ''map_extended arg #2 expected a function, string or nil'') [])
      else if length args < 2 \<or> lua_type (args ! 1) \<noteq> 6 then
        Some (Raise (LuaErrStr ''map_extended arg #3 expected a function'') [])
      else core_map A junk E True n args)"

text \<open>
  A thread runs at any time between its start and the \<open>pthread_join\<close> that waits for it. It shares nothing with the
  others, so that it does not matter when: \<open>run_thread\<close> lets it run to its end.
\<close>

definition run_thread :: "lua_api \<Rightarrow> (nat \<Rightarrow> byte) \<Rightarrow> thread_env \<Rightarrow> map_thread \<Rightarrow> map_thread res option" where
  "run_thread A junk E t =
     (if mt_done t then Some (Ok t)
      else (case mt_rb t of
          Live rb \<Rightarrow>
            (case (if mt_extended t then thread_extended_func A junk E rb else thread_func A junk E rb) of
               None \<Rightarrow> None
             | Some (Crash f) \<Rightarrow> Some (Crash f)
             | Some (Ok (rb, ret)) \<Rightarrow> Some (Ok (t\<lparr>mt_rb := Live rb, mt_ret := ret, mt_done := True\<rparr>)))
        | _ \<Rightarrow> Some (Crash OutOfBounds)))"

text \<open>
  The loop that takes the results out of a buffer. The result of \<open>rb_load\<close> is not looked at: \<open>rc\<close> counts the calls, \<open>vals\<close> are the
  values pushed.
\<close>

partial_function (option) take_results ::
    "lua_api \<Rightarrow> nat \<Rightarrow> nat \<Rightarrow> lua_value list \<Rightarrow> ringbuffer \<Rightarrow> (ringbuffer, nat \<times> lua_value list) lres option" where
  "take_results A d rc vals rb =
     (if ringbuffer_peek rb = 0 then Some (Ret (rc, vals) rb)
      else (case rb_load A (d + length vals) rb of
          Ret (LoadVal v) rb \<Rightarrow> take_results A d (rc + 1) (vals @ [v]) rb
        | Ret _ rb \<Rightarrow> take_results A d (rc + 1) vals rb
        | Raise e rb \<Rightarrow> Some (Raise e rb)
        | Abort f \<Rightarrow> Some (Abort f)))"

declare take_results.simps [code]

text \<open>
  \<open>map_join\<close>: \<open>done\<close> are the threads already seen, \<open>ts\<close> those to come. \<open>err_rc\<close> is the number of values before those of the last
  thread that failed.
\<close>

fun join_loop ::
    "lua_api \<Rightarrow> (nat \<Rightarrow> byte) \<Rightarrow> thread_env \<Rightarrow> nat \<Rightarrow> map_thread list \<Rightarrow> map_thread list \<Rightarrow> nat \<Rightarrow> int \<Rightarrow> lua_value list \<Rightarrow>
      (map_thread list, nat \<times> int \<times> lua_value list) lres option" where
  "join_loop A junk E d seen [] rc err_rc vals = Some (Ret (rc, err_rc, vals) seen)"
| "join_loop A junk E d seen (t # ts) rc err_rc vals =
     (if mt_rb t = Null then join_loop A junk E d (seen @ [t]) ts rc err_rc vals
      else if te_join E (length seen) \<noteq> 0 then Some (Raise (lua_handle_error (te_join E (length seen))) (seen @ t # ts))
      else (case run_thread A junk E t of
          None \<Rightarrow> None
        | Some (Crash f) \<Rightarrow> Some (Abort f)
        | Some (Ok t) \<Rightarrow>
            let err_rc = (if mt_ret t \<noteq> 0 then int rc else err_rc) in
            (case mt_rb t of
               Live rb \<Rightarrow>
                 (case take_results A d rc vals rb of
                    None \<Rightarrow> None
                  | Some (Abort f) \<Rightarrow> Some (Abort f)
                  | Some (Raise e rb) \<Rightarrow> Some (Raise e (seen @ t\<lparr>mt_rb := Live rb\<rparr> # ts))
                  | Some (Ret (rc, vals) rb) \<Rightarrow> join_loop A junk E d (seen @ [t\<lparr>mt_rb := Freed\<rparr>]) ts rc err_rc vals)
             | _ \<Rightarrow> Some (Abort OutOfBounds))))"

text \<open>
  The message of the error is the value \<open>err_rc - rc\<close> places from the top of the stack; place 0 is none.
\<close>

definition map_join ::
    "lua_api \<Rightarrow> (nat \<Rightarrow> byte) \<Rightarrow> thread_env \<Rightarrow> nat \<Rightarrow> map_thread list \<Rightarrow> (map_thread list, lua_value list) lres option" where
  "map_join A junk E d ts =
     (case join_loop A junk E d [] ts 0 (- 1) [] of
        None \<Rightarrow> None
      | Some (Abort f) \<Rightarrow> Some (Abort f)
      | Some (Raise e ts) \<Rightarrow> Some (Raise e ts)
      | Some (Ret (rc, err_rc, vals) _) \<Rightarrow>
          if err_rc \<ge> 0 then
            let i = int (length vals) + err_rc - int rc in
            if err_rc = int rc \<or> i < 0 then Some (Abort StackCorrupt)
            else Some (Raise (LuaErrStr (te_tostring E (vals ! nat i))) [])
          else Some (Ret vals []))"

text \<open>
  \<open>map_check_errors\<close> looks at the result codes of the threads, finished or not; a thread whose code is not zero is joined first,
  so that it has finished when its buffer is read.
\<close>

fun check_loop ::
    "lua_api \<Rightarrow> thread_env \<Rightarrow> nat \<Rightarrow> map_thread list \<Rightarrow> map_thread list \<Rightarrow> (map_thread list, unit) lres option" where
  "check_loop A E d seen [] = Some (Ret () seen)"
| "check_loop A E d seen (t # ts) =
     (if mt_ret t \<noteq> 0 then
        (case mt_rb t of
           Live rb \<Rightarrow>
             (case take_results A d 0 [] rb of
                None \<Rightarrow> None
              | Some (Abort f) \<Rightarrow> Some (Abort f)
              | Some (Raise e rb) \<Rightarrow> Some (Raise e (seen @ t\<lparr>mt_rb := Live rb\<rparr> # ts))
              | Some (Ret (rc, vals) rb) \<Rightarrow>
                  Some (Raise (LuaErrStr (te_tostring E (last (LNil # vals)))) (seen @ t\<lparr>mt_rb := Null\<rparr> # ts)))
         | _ \<Rightarrow> Some (Abort OutOfBounds))
      else check_loop A E d (seen @ [t]) ts)"

definition map_check_errors ::
    "lua_api \<Rightarrow> thread_env \<Rightarrow> nat \<Rightarrow> map_thread list \<Rightarrow> (map_thread list, unit) lres option" where
  "map_check_errors A E d ts = check_loop A E d [] ts"


section \<open>Saving the values of a thread\<close>

lemma MAX_ARG_SIZE_simps [simp]: "unat MAX_ARG_SIZE = 16384" "0 < MAX_ARG_SIZE"
  by (simp_all add: MAX_ARG_SIZE_def)

interpretation mgrow: growth_loop A 0 MAX_ARG_SIZE "map_save_with_growth A junk" for A junk
proof unfold_locales
  fix v and s :: save_state and index
  assume a: "savable A False 0 v" "rb_inv (srb s)" "index \<le> ltop s"
  note attempt = save_attempt [OF a refl, where sz = MAX_ARG_SIZE and junk = junk]
  let ?n = "length (content (srb s)) + length (encode A 0 v)"
  show "\<exists>s'. map_save_with_growth A junk index v s = Some (Ret 0 s') \<and> rb_inv (srb s') \<and>
      content (srb s') = content (srb s) @ encode A 0 v \<and> cb (srb s') = cb (srb s) \<and> ltop s \<le> ltop s'"
    if "?n \<le> unat (cb (srb s))"
    using attempt that by (subst map_save_with_growth.simps) (auto simp: ENOMEM_def)
  show "\<exists>s1. map_save_with_growth A junk index v s = map_save_with_growth A junk index v s1 \<and>
      rb_inv (srb s1) \<and> content (srb s1) = content (srb s) \<and>
      unat (cb (srb s1)) = unat (cb (srb s)) + unat MAX_ARG_SIZE \<and> ltop s \<le> ltop s1"
    if room: "0 < unat MAX_ARG_SIZE" "unat (cb (srb s)) < ?n" "?n + unat MAX_ARG_SIZE < max_object"
  proof -
    obtain s1 rb where s1: "rb_save A False 0 index v (s\<lparr>srb := ringbuffer_push_write_pos (srb s)\<rparr>) = Ret (- ENOMEM) s1" "ltop s \<le> ltop s1"
        and rb: "ringbuffer_grow_by junk (ringbuffer_pop_write_pos (srb s1)) MAX_ARG_SIZE = Ok rb" "rb_inv rb"
          "content rb = content (srb s)" "unat (cb rb) = unat (cb (srb s)) + unat MAX_ARG_SIZE"
      using attempt room by (auto split: if_splits)
    have "map_save_with_growth A junk index v s = map_save_with_growth A junk index v (s1\<lparr>srb := rb, ltop := ltop s\<rparr>)"
      using s1 rb(1) by (simp add: map_save_with_growth.simps [of A junk index v s])
    with rb show ?thesis by (auto intro!: exI [of _ "s1\<lparr>srb := rb, ltop := ltop s\<rparr>"])
  qed
qed

definition values_bytes :: "lua_api \<Rightarrow> lua_value list \<Rightarrow> byte list" where
  "values_bytes A vs = concat (map (encode A 0) vs)"

lemma values_bytes_simps [simp]:
  "values_bytes A [] = []" "values_bytes A (v # vs) = encode A 0 v @ values_bytes A vs"
  "values_bytes A (vs @ ws) = values_bytes A vs @ values_bytes A ws"
  by (simp_all add: values_bytes_def)

lemma save_values_spec:
  "list_all (savable A False 0) vs \<Longrightarrow> rb_inv (srb s) \<Longrightarrow> index + length vs \<le> Suc (ltop s) \<Longrightarrow>
     length (content (srb s)) + length (values_bytes A vs) + 16384 < max_object \<Longrightarrow>
     \<exists>s'. save_values A junk index vs s = Some (Ret 0 s') \<and> rb_inv (srb s') \<and>
       content (srb s') = content (srb s) @ values_bytes A vs \<and> ltop s \<le> ltop s'"
proof (induction vs arbitrary: index s)
  case (Cons v vs)
  obtain s1 where s1: "map_save_with_growth A junk index v s = Some (Ret 0 s1)" "rb_inv (srb s1)"
      "content (srb s1) = content (srb s) @ encode A 0 v" "ltop s \<le> ltop s1"
    using mgrow.save_loop [of A v s index junk] Cons.prems by auto
  from Cons.IH [of s1 "index + 1"] Cons.prems s1 show ?case by fastforce
qed simp

section \<open>Draining a buffer\<close>

text \<open>
  The values of a buffer that is drained at the height \<open>d\<close> of the Lua stack, each where the values before it are on the
  stack already.
\<close>

fun reload_all :: "lua_api \<Rightarrow> nat \<Rightarrow> lua_value list \<Rightarrow> lua_value list option" where
  "reload_all A d [] = Some []"
| "reload_all A d (v # vs) =
     (case (reload A 0 v, reload_all A (d + 1) vs) of
        (Some w, Some ws) \<Rightarrow> if stack_ok A d (slots 0 v) then Some (w # ws) else None
      | _ \<Rightarrow> None)"

lemma length_reload_all: "reload_all A d vs = Some ws \<Longrightarrow> length ws = length vs"
  by (induction A d vs arbitrary: ws rule: reload_all.induct) (auto split: option.splits if_splits)

text \<open>
  The two loops that read a buffer until it is empty, that of the thread and those of \<open>join\<close> and \<open>checkErrors\<close>, keep what they
  have read in their own ways. Their contract is one step per value.
\<close>

locale drain_loop =
  fixes A :: lua_api and loop :: "'s \<Rightarrow> ringbuffer \<Rightarrow> 'r" and height :: "'s \<Rightarrow> nat"
    and add :: "'s \<Rightarrow> lua_value \<Rightarrow> 's" and finish :: "'s \<Rightarrow> ringbuffer \<Rightarrow> 'r"
  assumes loop_empty: "rcb rb = 0 \<Longrightarrow> loop s rb = finish s rb"
    and loop_step: "rcb rb \<noteq> 0 \<Longrightarrow> rb_load A (height s) rb = Ret (LoadVal v) rb' \<Longrightarrow> loop s rb = loop (add s v) rb'"
    and height_add: "height (add s v) = height s + 1"
begin

lemma drains:
  "rb_inv rb \<Longrightarrow> content rb = values_bytes A vs \<Longrightarrow> reload_all A (height s) vs = Some ws \<Longrightarrow>
     \<exists>rb'. loop s rb = finish (foldl add s ws) rb' \<and> rb_inv rb' \<and> content rb' = []"
proof (induction vs arbitrary: s rb ws)
  case Nil
  then have "rcb rb = 0" using stored.length_content_rcb [of rb] by (simp add: word_unat_eq_iff)
  with Nil show ?case using loop_empty by auto
next
  case (Cons v vs)
  then obtain w ws' where ws: "ws = w # ws'" "reload A 0 v = Some w" "reload_all A (height s + 1) vs = Some ws'"
      "stack_ok A (height s) (slots 0 v)"
    by (auto split: option.splits if_splits)
  have "rcb rb \<noteq> 0" using stored.length_content_rcb [OF Cons.prems(1)] encode_pos [OF ws(2)] Cons.prems(2) by auto
  moreover obtain rb' where rb': "rb_load A (height s) rb = Ret (LoadVal w) rb'" "rb_inv rb'" "content rb' = values_bytes A vs"
    using stored.rb_load_front [OF ws(2) Cons.prems(1) _ ws(4)] Cons.prems(2) by (auto simp: stored.loaded_def)
  ultimately have "loop s rb = loop (add s w) rb'" using loop_step by blast
  then show ?case using Cons.IH [OF rb'(2,3), of "add s w" ws'] ws by (simp add: height_add)
qed

end

interpretation args: drain_loop A "load_args A d" "\<lambda>acc. d + length acc" "\<lambda>acc v. acc @ [v]" "\<lambda>acc rb. Some (Ok (acc, rb))" for A d
  by unfold_locales (simp_all add: load_args.simps ringbuffer_peek_def)

interpretation results: drain_loop A "\<lambda>(rc, vals). take_results A d rc vals" "\<lambda>(rc, vals). d + length vals"
  "\<lambda>(rc, vals) v. (rc + 1, vals @ [v])" "\<lambda>p rb. Some (Ret p rb)" for A d
  by unfold_locales (auto simp: take_results.simps ringbuffer_peek_def)

lemma foldl_snoc: "foldl (\<lambda>acc v. acc @ [v]) acc ws = acc @ ws"
  by (induction ws arbitrary: acc) simp_all

lemma foldl_count_snoc: "foldl (\<lambda>(rc, vals) v. (Suc rc, vals @ [v])) (rc, vals) ws = (rc + length ws, vals @ ws)"
  by (induction ws arbitrary: rc vals) simp_all

lemma load_args_all:
  assumes "rb_inv rb" and "content rb = values_bytes A vs" and "reload_all A d vs = Some ws"
  shows "\<exists>rb'. load_args A d [] rb = Some (Ok (ws, rb')) \<and> rb_inv rb' \<and> content rb' = []"
  using args.drains [of rb A vs d "[]" ws] assms by (simp add: foldl_snoc)

lemma take_results_all:
  assumes "rb_inv rb" and "content rb = values_bytes A vs" and "reload_all A (d + length vals) vs = Some ws"
  shows "\<exists>rb'. take_results A d rc vals rb = Some (Ret (rc + length ws, vals @ ws) rb') \<and> rb_inv rb' \<and> content rb' = []"
  using results.drains [of rb A vs d "(rc, vals)" ws] assms by (simp add: foldl_count_snoc)


lemma reload_all_append:
  "reload_all A d (vs @ us) = Some ws \<longleftrightarrow>
     (\<exists>w1 w2. ws = w1 @ w2 \<and> reload_all A d vs = Some w1 \<and> reload_all A (d + length vs) us = Some w2)"
proof (induction A d vs arbitrary: ws rule: reload_all.induct)
  case (2 A d v vs)
  show ?case
  proof (cases "reload A 0 v")
    case (Some w)
    show ?thesis
    proof (cases "stack_ok A d (slots 0 v)")
      case True
      have "reload_all A d ((v # vs) @ us) = Some ws \<longleftrightarrow>
          (\<exists>ws'. ws = w # ws' \<and> reload_all A (d + 1) (vs @ us) = Some ws')"
        using Some True by (auto split: option.splits)
      also have "\<dots> \<longleftrightarrow> (\<exists>w1 w2. ws = w # w1 @ w2 \<and> reload_all A (d + 1) vs = Some w1 \<and>
          reload_all A (d + 1 + length vs) us = Some w2)"
        using 2 by auto
      finally show ?thesis using Some True by (force split: option.splits)
    qed (auto split: option.splits)
  qed simp
qed simp

section \<open>What a thread does\<close>

text \<open>
  The outcome of the \<open>i\<close>-th thread: its result code, and the values its buffer holds when it ends. When loading the modules or the call
  before the work fails, the values that were not read are still before the message.
\<close>

definition thread_outcome ::
    "lua_api \<Rightarrow> thread_env \<Rightarrow> bool \<Rightarrow> lua_value list \<Rightarrow> nat \<Rightarrow> (int \<times> lua_value list) option" where
  "thread_outcome A E ext args i =
     (let vs = args @ [te_integer E (int i + 1)]; work = (\<lambda>vs. map_option (te_call E) (reload_all A (te_height E) vs)) in
      if fst (te_require E) \<noteq> 0 then Some (fst (te_require E), vs @ [snd (te_require E)])
      else if \<not> ext then work vs
      else (case reload_all A (te_height E) [hd vs] of
          Some [v] \<Rightarrow>
            let v = (case v of LString str \<Rightarrow> te_loadstring E (c_string str) | _ \<Rightarrow> v);
                r = (if v = LNil then (0, []) else te_call E [v]) in
            if fst r \<noteq> 0 then Some (fst r, tl vs @ snd r) else work (tl vs)
        | _ \<Rightarrow> None))"

text \<open>A thread that has been started on the values \<open>vs\<close>, and one that ends with the outcome \<open>r\<close>.\<close>

definition waiting :: "lua_api \<Rightarrow> bool \<Rightarrow> lua_value list \<Rightarrow> map_thread \<Rightarrow> bool" where
  "waiting A ext vs t \<longleftrightarrow> (\<exists>rb. t = \<lparr>mt_rb = Live rb, mt_ret = 0, mt_extended = ext, mt_done = False\<rparr> \<and>
     rb_inv rb \<and> content rb = values_bytes A vs)"

definition ends_with :: "lua_api \<Rightarrow> (nat \<Rightarrow> byte) \<Rightarrow> thread_env \<Rightarrow> map_thread \<Rightarrow> int \<times> lua_value list \<Rightarrow> bool" where
  "ends_with A junk E t r \<longleftrightarrow> mt_rb t \<noteq> Null \<and> (\<exists>t' rb. run_thread A junk E t = Some (Ok t') \<and> mt_rb t' = Live rb \<and>
     mt_ret t' = fst r \<and> rb_inv rb \<and> content rb = values_bytes A (snd r))"

definition can_save :: "lua_api \<Rightarrow> lua_value list \<Rightarrow> bool" where
  "can_save A vs \<longleftrightarrow> list_all (savable A False 0) vs \<and> length (values_bytes A vs) + 16384 < max_object"

lemma end_thread_spec:
  assumes "rb_inv rb" and "content rb = values_bytes A vs" and "can_save A (vs @ out)"
  shows "\<exists>rb'. end_thread A junk E out rb ret = Some (Ok (rb', ret)) \<and> rb_inv rb' \<and> content rb' = values_bytes A (vs @ out)"
  using save_values_spec [of A out "\<lparr>srb = rb, ltop = te_height E + length out, retained = []\<rparr>" "te_height E + 1" junk] assms
  by (fastforce simp: can_save_def end_thread_def)

lemma core_thread_spec:
  assumes "rb_inv rb" and "content rb = values_bytes A vs" and "vs \<noteq> []"
    and "map_option (te_call E) (reload_all A (te_height E) vs) = Some r" and "can_save A (snd r)"
  shows "\<exists>rb'. core_thread A junk E rb = Some (Ok (rb', fst r)) \<and> rb_inv rb' \<and> content rb' = values_bytes A (snd r)"
proof -
  obtain ws where ws: "reload_all A (te_height E) vs = Some ws" "te_call E ws = r" using assms(4) by auto
  have "ws \<noteq> []" using length_reload_all [OF ws(1)] assms(3) by auto
  obtain rb1 where rb1: "load_args A (te_height E) [] rb = Some (Ok (ws, rb1))" "rb_inv rb1" "content rb1 = []"
    using load_args_all [OF assms(1,2) ws(1)] by blast
  then show ?thesis
    using end_thread_spec [of rb1 A "[]" "snd r" junk E "fst r"] \<open>ws \<noteq> []\<close> ws(2) assms(5)
    by (auto simp: core_thread_def split: prod.splits)
qed

lemma thread_func_spec:
  assumes "rb_inv rb" and "content rb = values_bytes A (args @ [te_integer E (int i + 1)])"
    and "thread_outcome A E False args i = Some r" and "can_save A (snd r)"
  shows "\<exists>rb'. thread_func A junk E rb = Some (Ok (rb', fst r)) \<and> rb_inv rb' \<and> content rb' = values_bytes A (snd r)"
proof (cases "fst (te_require E) = 0")
  case True
  then show ?thesis using core_thread_spec [OF assms(1,2), of E r junk] assms(3,4)
    by (auto simp: thread_func_def thread_outcome_def Let_def split: prod.splits)
next
  case False
  then show ?thesis
    using end_thread_spec [OF assms(1,2), of "[snd (te_require E)]" junk E "fst (te_require E)"] assms(3,4)
    by (auto simp: thread_func_def thread_outcome_def Let_def split: prod.splits)
qed

lemma thread_extended_func_spec:
  assumes "rb_inv rb" and "content rb = values_bytes A (args @ [te_integer E (int i + 1)])" and args: "args \<noteq> []"
    and out: "thread_outcome A E True args i = Some r" and can: "can_save A (snd r)"
  shows "\<exists>rb'. thread_extended_func A junk E rb = Some (Ok (rb', fst r)) \<and> rb_inv rb' \<and> content rb' = values_bytes A (snd r)"
proof (cases "fst (te_require E) = 0")
  case False
  then show ?thesis
    using end_thread_spec [OF assms(1,2), of "[snd (te_require E)]" junk E "fst (te_require E)"] out can
    by (auto simp: thread_extended_func_def thread_outcome_def Let_def split: prod.splits)
next
  case True
  define rest where "rest = tl args @ [te_integer E (int i + 1)]"
  have vs: "args @ [te_integer E (int i + 1)] = hd args # rest" using args by (simp add: rest_def)
  obtain v where v: "reload A 0 (hd args) = Some v" "stack_ok A (te_height E) (slots 0 (hd args))"
    using out True args by (auto simp: thread_outcome_def Let_def split: option.splits if_splits)
  define w where "w = (case v of LString str \<Rightarrow> te_loadstring E (c_string str) | _ \<Rightarrow> v)"
  obtain rb1 where rb1: "rb_load A (te_height E) rb = Ret (LoadVal v) rb1" "rb_inv rb1" "content rb1 = values_bytes A rest"
    using stored.rb_load_front [OF v(1) assms(1) _ v(2), of "values_bytes A rest"] assms(2) unfolding vs
    by (auto simp: stored.loaded_def)
  have func: "thread_extended_func A junk E rb =
      (if w = LNil then core_thread A junk E rb1
       else if fst (te_call E [w]) \<noteq> 0 then end_thread A junk E (snd (te_call E [w])) rb1 (fst (te_call E [w]))
       else core_thread A junk E rb1)"
    using True rb1(1) by (auto simp: thread_extended_func_def w_def [symmetric] Let_def split: prod.splits)
  have r: "(if w \<noteq> LNil \<and> fst (te_call E [w]) \<noteq> 0 then Some (fst (te_call E [w]), rest @ snd (te_call E [w]))
      else map_option (te_call E) (reload_all A (te_height E) rest)) = Some r"
    using out True v args by (auto simp: thread_outcome_def w_def rest_def Let_def split: if_splits)
  show ?thesis
    using func r can core_thread_spec [OF rb1(2,3), of E r junk]
      end_thread_spec [OF rb1(2,3), of "snd (te_call E [w])" junk E "fst (te_call E [w])"]
    by (auto simp: rest_def split: if_splits)
qed

lemma waiting_ends:
  assumes "waiting A ext (args @ [te_integer E (int i + 1)]) t" and "args \<noteq> []"
    and "thread_outcome A E ext args i = Some r" and "can_save A (snd r)"
  shows "ends_with A junk E t r"
proof -
  obtain rb where rb: "t = \<lparr>mt_rb = Live rb, mt_ret = 0, mt_extended = ext, mt_done = False\<rparr>" "rb_inv rb"
      "content rb = values_bytes A (args @ [te_integer E (int i + 1)])"
    using assms(1) by (auto simp: waiting_def)
  show ?thesis
    using thread_func_spec [OF rb(2,3) _ assms(4), of junk] thread_extended_func_spec [OF rb(2,3) assms(2) _ assms(4), of junk] assms(3)
    by (cases ext) (auto simp: ends_with_def run_thread_def rb(1))
qed

section \<open>Starting and joining the threads\<close>

lemma launch_spec:
  "\<forall>j<i + n. te_create E j = 0 \<and> can_save A (args @ [te_integer E (int j + 1)]) \<Longrightarrow>
     \<exists>ts'. launch A junk E ext args i n ts = Some (Ret () (ts @ ts')) \<and>
       list_all2 (waiting A ext) (map (\<lambda>j. args @ [te_integer E (int j + 1)]) [i..<i + n]) ts'"
proof (induction n arbitrary: i ts)
  case (Suc n)
  let ?k = "1 + length args" and ?x = "te_integer E (int i + 1)"
  have can: "list_all (savable A False 0) args" "savable A False 0 ?x"
      "length (values_bytes A args) + length (encode A 0 ?x) + 16384 < max_object" "te_create E i = 0"
    using Suc.prems by (auto simp: can_save_def)
  let ?s0 = "\<lparr>srb = ringbuffer_create junk MAX_ARG_SIZE, ltop = ?k, retained = []\<rparr>"
  have "rb_inv (srb ?s0)" by (simp add: rb_inv_create max_object_def)
  then obtain s1 where s1: "save_values A junk 2 args ?s0 = Some (Ret 0 s1)" "rb_inv (srb s1)" "content (srb s1) = values_bytes A args"
    using save_values_spec [OF can(1), of ?s0 2 junk] can(3) by auto
  obtain s2 where s2: "map_save_with_growth A junk (?k + 1) ?x (s1\<lparr>ltop := ?k + 1\<rparr>) = Some (Ret 0 s2)" "rb_inv (srb s2)"
      "content (srb s2) = values_bytes A (args @ [?x])"
    using mgrow.save_loop [OF can(2), of "s1\<lparr>ltop := ?k + 1\<rparr>" "?k + 1" junk] s1 can(3) by auto
  let ?t = "\<lparr>mt_rb = Live (srb s2), mt_ret = 0, mt_extended = ext, mt_done = False\<rparr>"
  obtain ts' where ts': "launch A junk E ext args (i + 1) n (ts @ [?t]) = Some (Ret () ((ts @ [?t]) @ ts'))"
      "list_all2 (waiting A ext) (map (\<lambda>j. args @ [te_integer E (int j + 1)]) [i + 1..<i + 1 + n]) ts'"
    using Suc.IH [of "i + 1" "ts @ [?t]"] Suc.prems by auto
  moreover have "waiting A ext (args @ [?x]) ?t" using s2 by (simp add: waiting_def)
  moreover have "[i..<i + Suc n] = i # [i + 1..<i + 1 + n]" by (simp add: upt_conv_Cons)
  ultimately show ?case using s1 s2 can(4) by (intro exI [of _ "?t # ts'"]) (simp add: Let_def)
qed simp

fun last_failure :: "nat \<Rightarrow> (int \<times> lua_value list) list \<Rightarrow> nat option" where
  "last_failure p [] = None"
| "last_failure p ((ret, out) # rs) =
     (case last_failure (p + length out) rs of Some q \<Rightarrow> Some q | None \<Rightarrow> if ret \<noteq> 0 then Some p else None)"

lemma join_loop_spec:
  "list_all2 (ends_with A junk E) ts rs \<Longrightarrow> \<forall>i<length seen + length ts. te_join E i = 0 \<Longrightarrow>
     reload_all A (d + length vals) (concat (map snd rs)) = Some ws \<Longrightarrow>
     \<exists>ts'. join_loop A junk E d seen ts rc err vals =
       Some (Ret (rc + length ws, (case last_failure rc rs of Some q \<Rightarrow> int q | None \<Rightarrow> err), vals @ ws) ts')"
proof (induction ts arbitrary: rs seen rc err vals ws)
  case (Cons t ts)
  obtain ret out rs' where rs: "rs = (ret, out) # rs'" "ends_with A junk E t (ret, out)" "list_all2 (ends_with A junk E) ts rs'"
    using Cons.prems(1) by (cases rs) auto
  obtain t' rb where t': "run_thread A junk E t = Some (Ok t')" "mt_rb t' = Live rb" "mt_ret t' = ret" "mt_rb t \<noteq> Null"
      "rb_inv rb" "content rb = values_bytes A out"
    using rs(2) by (auto simp: ends_with_def)
  obtain w1 w2 where w: "ws = w1 @ w2" "reload_all A (d + length vals) out = Some w1"
      "reload_all A (d + length vals + length out) (concat (map snd rs')) = Some w2"
    using Cons.prems(3) rs(1) by (auto simp: reload_all_append)
  obtain rb' where tr: "take_results A d rc vals rb = Some (Ret (rc + length w1, vals @ w1) rb')"
    using take_results_all [OF t'(5,6) w(2)] by blast
  have len: "length w1 = length out" using length_reload_all [OF w(2)] .
  have "join_loop A junk E d seen (t # ts) rc err vals =
      join_loop A junk E d (seen @ [t'\<lparr>mt_rb := Freed\<rparr>]) ts (rc + length w1) (if ret \<noteq> 0 then int rc else err) (vals @ w1)"
    using t' tr Cons.prems(2) by (simp add: Let_def)
  moreover note Cons.IH [OF rs(3), of "seen @ [t'\<lparr>mt_rb := Freed\<rparr>]" "vals @ w1" w2 "rc + length w1" "if ret \<noteq> 0 then int rc else err"]
  ultimately show ?case
    using w len Cons.prems(2) rs(1) by (auto simp: add.assoc split: option.splits)
qed simp

text \<open>
  The contract of \<open>join\<close>: the results of all threads, one thread after the other, or the text of the first value of the last thread
  that failed.
\<close>

definition join_spec :: "thread_env \<Rightarrow> (int \<times> lua_value list) list \<Rightarrow> lua_value list \<Rightarrow> (map_thread list, lua_value list) lres" where
  "join_spec E rs ws =
     (case last_failure 0 rs of
        None \<Rightarrow> Ret ws []
      | Some q \<Rightarrow> if q = length ws then Abort StackCorrupt else Raise (LuaErrStr (te_tostring E (ws ! q))) [])"

definition map_ready :: "lua_api \<Rightarrow> thread_env \<Rightarrow> nat \<Rightarrow> lua_value list \<Rightarrow> bool" where
  "map_ready A E n args \<longleftrightarrow>
     list_all (\<lambda>i. te_create E i = 0 \<and> te_join E i = 0 \<and> can_save A (args @ [te_integer E (int i + 1)])) [0..<n]"

lemma core_map_join:
  assumes "map_ready A E n args" and "args \<noteq> []" and "map (thread_outcome A E ext args) [0..<n] = map Some rs"
    and "list_all (\<lambda>r. can_save A (snd r)) rs" and "reload_all A d (concat (map snd rs)) = Some ws"
  shows "\<exists>ts. core_map A junk E ext n args = Some (Ret () ts) \<and> map_join A junk E d ts = Some (join_spec E rs ws)"
proof -
  have ready: "\<forall>j<n. te_create E j = 0 \<and> te_join E j = 0 \<and> can_save A (args @ [te_integer E (int j + 1)])"
    using assms(1) by (auto simp: map_ready_def list_all_iff)
  obtain ts where ts: "core_map A junk E ext n args = Some (Ret () ts)"
      "list_all2 (waiting A ext) (map (\<lambda>j. args @ [te_integer E (int j + 1)]) [0..<n]) ts"
    using launch_spec [of 0 n E A args junk ext "[]"] ready by (auto simp: core_map_def)
  have len: "length ts = n" using list_all2_lengthD [OF ts(2)] by simp
  have rs: "length rs = n" "\<forall>j<n. thread_outcome A E ext args j = Some (rs ! j)"
  proof -
    show "length rs = n" using map_eq_imp_length_eq [OF assms(3)] by simp
    then show "\<forall>j<n. thread_outcome A E ext args j = Some (rs ! j)"
      using assms(3) by (auto simp: list_eq_iff_nth_eq)
  qed
  have "list_all2 (ends_with A junk E) ts rs"
  proof (rule list_all2_all_nthI)
    fix j assume "j < length ts"
    then have "waiting A ext (args @ [te_integer E (int j + 1)]) (ts ! j)" "can_save A (snd (rs ! j))"
      using list_all2_nthD [OF ts(2), of j] len rs(1) assms(4) by (auto simp: list_all_iff)
    then show "ends_with A junk E (ts ! j) (rs ! j)"
      using waiting_ends assms(2) rs(2) len \<open>j < length ts\<close> by blast
  qed (simp add: len rs(1))
  from join_loop_spec [OF this, of "[]" d "[]" ws 0 "- 1"] len ready assms(5)
  obtain ts' where jl: "join_loop A junk E d [] ts 0 (- 1) [] =
      Some (Ret (length ws, (case last_failure 0 rs of Some q \<Rightarrow> int q | None \<Rightarrow> - 1), ws) ts')" by auto
  then have "map_join A junk E d ts = Some (join_spec E rs ws)"
    by (auto simp: map_join_def join_spec_def Let_def split: option.splits)
  with ts(1) show ?thesis by blast
qed


lemma last_failure_snoc: "last_failure p (rs @ [(ret, out)]) =
    (if ret \<noteq> 0 then Some (p + length (concat (map snd rs))) else last_failure p rs)"
  by (induction p rs rule: last_failure.induct) (auto split: option.splits)

lemma reload_all_nth: "reload_all A d vs = Some ws \<Longrightarrow> i < length vs \<Longrightarrow> reload A 0 (vs ! i) = Some (ws ! i)"
  by (induction A d vs arbitrary: ws i rule: reload_all.induct)
    (auto split: option.splits if_splits simp: nth_Cons split: nat.splits)

lemma check_loop_skips:
  "list_all (\<lambda>t. mt_ret t = 0) pre \<Longrightarrow> check_loop A E d seen (pre @ ts) = check_loop A E d (seen @ pre) ts"
  by (induction pre arbitrary: seen) auto

section \<open>Properties\<close>

text \<open>
  C9: A map of \<open>n\<close> threads starts them all, and joining it returns the results of all calls, those of one thread after those of
  the thread before, whatever order the threads run in: each thread calls the function with the reloaded arguments and its own number
  as the last one. When threads fail, join raises the text of the first value of the last of them.
\<close>

theorem map_join_refines:
  assumes "map_ready A E n (f # args)" and "lua_type f = 6"
    and "map (thread_outcome A E False (f # args)) [0..<n] = map Some rs"
    and "list_all (\<lambda>r. can_save A (snd r)) rs" and "reload_all A d (concat (map snd rs)) = Some ws"
  shows "\<exists>ts. map_open A junk E n (f # args) = Some (Ret () ts) \<and> map_join A junk E d ts = Some (join_spec E rs ws)"
  using core_map_join [OF assms(1) _ assms(3-5)] assms(2) by (simp add: map_open_def)

text \<open>An environment in which functions return their arguments: \<open>te_call\<close> of function 3 returns them, of function 4 fails.\<close>

definition small_env :: thread_env where
  "small_env = \<lparr>te_require = (0, LNil),
     te_call = (\<lambda>vs. case vs of LFunction _ p _ # ws \<Rightarrow> if p = 3 then (0, ws) else (2, [LString [33]]) | _ \<Rightarrow> (2, [LString [63]])),
     te_loadstring = (\<lambda>_. LNil), te_tostring = (\<lambda>v. case v of LString _ \<Rightarrow> ''message'' | _ \<Rightarrow> ''no text''), te_height = 0,
     te_create = (\<lambda>_. 0), te_join = (\<lambda>_. 0), te_integer = (\<lambda>i. LInteger (of_int i))\<rparr>"

lemmas small_env_evals = small_env_def map_ready_def can_save_def max_object_def thread_outcome_def values_bytes_def
  stack_ok_def list_all_iff make_function_def loads_whole_def small_undump_def upvalue_flag_def str_bytes_def block_bytes.simps
  CHUNK_SIZE_def

theorem map_join_refines_witness:
  "\<exists>ts. map_open small_lua (\<lambda>_. 0) small_env 2 [LFunction ''Lua'' 3 [], LBoolean True] = Some (Ret () ts) \<and>
    map_join small_lua (\<lambda>_. 0) small_env 1 ts =
      Some (join_spec small_env [(0, [LBoolean True, LInteger 1]), (0, [LBoolean True, LInteger 2])]
        [LBoolean True, LInteger 1, LBoolean True, LInteger 2])"
  by (rule map_join_refines) (simp_all add: small_env_evals upt_rec)

text \<open>
  When the function that \<open>map_extended\<close> calls before the work fails, its message is lost: the work function and the
  arguments that were not read are still in the buffer before the message, and join raises the text of the first of them, the
  function, which is no message at all.
\<close>

theorem map_extended_init_error_lost:
  assumes ready: "map_ready A E (Suc m) (init # f # args)" and "lua_type init \<in> {0, 4, 6}" and "lua_type f = 6"
    and req: "fst (te_require E) = 0" and "init_fun = (case v of LString str \<Rightarrow> te_loadstring E (c_string str) | _ \<Rightarrow> v)"
    and init: "reload_all A (te_height E) [init] = Some [v]" "init_fun \<noteq> LNil" "te_call E [init_fun] = (ret, [msg])" "ret \<noteq> 0"
    and rs: "rs = map (\<lambda>i. (ret, f # args @ [te_integer E (int i + 1), msg])) [0..<Suc m]"
    and can: "list_all (\<lambda>r. can_save A (snd r)) rs" and ws: "reload_all A d (concat (map snd rs)) = Some ws"
  shows "\<exists>ts f'. map_extended_open A junk E (Suc m) (init # f # args) = Some (Ret () ts) \<and> reload A 0 f = Some f' \<and>
    map_join A junk E d ts = Some (Raise (LuaErrStr (te_tostring E f')) [])"
proof -
  have "map (thread_outcome A E True (init # f # args)) [0..<Suc m] = map Some rs"
    unfolding rs map_map comp_def
  proof (rule map_cong [OF refl])
    fix i
    have "reload_all A (te_height E) [hd ((init # f # args) @ [te_integer E (int i + 1)])] = Some [v]" using init(1) by simp
    then show "thread_outcome A E True (init # f # args) i = Some (ret, f # args @ [te_integer E (int i + 1), msg])"
      unfolding thread_outcome_def using req init(2-4) assms(5) by (simp add: Let_def del: reload_all.simps)
  qed
  then obtain ts where ts: "core_map A junk E True (Suc m) (init # f # args) = Some (Ret () ts)"
      "map_join A junk E d ts = Some (join_spec E rs ws)"
    using core_map_join [OF ready _ _ can ws] by blast
  define pre where "pre = map (\<lambda>i. (ret, f # args @ [te_integer E (int i + 1), msg])) [0..<m]"
  define q where "q = length (concat (map snd pre))"
  have rs': "rs = pre @ [(ret, f # args @ [te_integer E (int m + 1), msg])]" by (simp add: rs pre_def)
  have q: "q < length (concat (map snd rs))" "concat (map snd rs) ! q = f" by (simp_all add: rs' q_def nth_append)
  have "last_failure 0 rs = Some q" using init(4) by (simp add: rs' last_failure_snoc q_def)
  moreover have "reload A 0 f = Some (ws ! q)" using reload_all_nth [OF ws q(1)] q(2) by simp
  moreover have "q < length ws" using q(1) length_reload_all [OF ws] by simp
  ultimately show ?thesis using ts assms(2,3) by (auto simp: map_extended_open_def join_spec_def)
qed

theorem map_extended_init_error_lost_witness:
  "\<exists>ts f'. map_extended_open small_lua (\<lambda>_. 0) small_env (Suc 0) [LFunction ''Lua'' 4 [], LFunction ''Lua'' 3 []] = Some (Ret () ts) \<and>
    reload small_lua 0 (LFunction ''Lua'' 3 []) = Some f' \<and>
    map_join small_lua (\<lambda>_. 0) small_env 1 ts = Some (Raise (LuaErrStr (te_tostring small_env f')) [])"
  by (rule map_extended_init_error_lost [where v = "LFunction ''Lua'' 4 []" and msg = "LString [33]" and ret = 2, OF _ _ _ _ refl _ _ _ _ refl])
    (simp_all add: small_env_evals)

text \<open>
  \<open>checkErrors\<close> raises the last value of the first thread that has failed and sets the pointer to its buffer to null, but not its result code:
  the next call of \<open>checkErrors\<close> reads the buffer through the null pointer.
\<close>

theorem map_check_errors_once:
  assumes "list_all (\<lambda>t. mt_ret t = 0) pre" and "mt_ret t \<noteq> 0" and "mt_rb t = Live rb" and "rb_inv rb"
    and "content rb = values_bytes A vs" and "reload_all A d vs = Some ws"
  shows "\<exists>ts'. map_check_errors A E d (pre @ t # ts) = Some (Raise (LuaErrStr (te_tostring E (last (LNil # ws)))) ts') \<and>
    map_check_errors A E d ts' = Some (Abort OutOfBounds)"
proof -
  obtain rb' where "take_results A d 0 [] rb = Some (Ret (length ws, ws) rb')"
    using take_results_all [OF assms(4,5), of d "[]" ws 0] assms(6) by auto
  then show ?thesis
    using assms(1-3) by (intro exI [of _ "pre @ t\<lparr>mt_rb := Null\<rparr> # ts"]) (simp add: map_check_errors_def check_loop_skips)
qed

theorem map_check_errors_once_witness:
  "\<exists>ts'. map_check_errors small_lua small_env 1
      [\<lparr>mt_rb = Live (ringbuffer_create (\<lambda>_. 0) 4), mt_ret = 2, mt_extended = False, mt_done = True\<rparr>] =
        Some (Raise (LuaErrStr (te_tostring small_env LNil)) ts') \<and>
    map_check_errors small_lua small_env 1 ts' = Some (Abort OutOfBounds)"
  using map_check_errors_once [of "[]" "\<lparr>mt_rb = Live (ringbuffer_create (\<lambda>_. 0) 4), mt_ret = 2, mt_extended = False, mt_done = True\<rparr>"
      "ringbuffer_create (\<lambda>_. 0) 4" small_lua "[]" 1 "[]" small_env "[]"]
  by (simp add: rb_inv_create max_object_def)

end
