(* ===== verification/Spawn.thy ===== *)
theory Spawn
  imports Os
begin

text \<open>
  Child processes, \<^verbatim>\<open>src/spawn.c\<close>: a process with a pipe to its standard input and one from its standard output, and
  \<open>ipc_waitpid\<close> of \<^verbatim>\<open>src/ipc.c\<close>.
\<close>

section \<open>Model\<close>

subsection \<open>The status of a process\<close>

text \<open>The macros of \<open>sys/wait.h\<close> on Linux. \<open>WIFSIGNALED\<close> adds 1 and shifts as a signed char.\<close>

definition WTERMSIG :: "cint \<Rightarrow> cint" where "WTERMSIG status = and status 0x7f"

definition WIFEXITED :: "cint \<Rightarrow> bool" where "WIFEXITED status \<longleftrightarrow> WTERMSIG status = 0"

definition WEXITSTATUS :: "cint \<Rightarrow> cint" where "WEXITSTATUS status = drop_bit 8 (and status 0xff00)"

definition WIFSIGNALED :: "cint \<Rightarrow> bool" where
  "WIFSIGNALED status \<longleftrightarrow> 0 < sint (signed_drop_bit 1 (ucast (WTERMSIG status + 1) :: byte))"

definition SIGKILL :: int where "SIGKILL = 9"
definition SIGTERM :: int where "SIGTERM = 15"

subsection \<open>The state of a child\<close>

datatype file_action = ActDup2 cint cint | ActClose cint

text \<open>
  The members of \<open>spawn_t\<close>: \<open>fd00\<close> and \<open>fd01\<close> are the ends of the pipe to the standard input, \<open>fd10\<close> and \<open>fd11\<close> those of the pipe from the
  standard output. A Lua object is a pointer to such a structure, null after \<open>wait\<close>.
\<close>

record spawn =
  sp_pid :: cint
  fd00 :: cint
  fd01 :: cint
  fd10 :: cint
  fd11 :: cint
  file_actions :: "file_action list"

type_synonym spawn_state = "spawn option \<times> os"

definition close_if :: "kernel \<Rightarrow> cint \<Rightarrow> os \<Rightarrow> os" where
  "close_if K fd s = (if fd \<noteq> 0 then snd (snd (sys K (SysClose fd) s)) else s)"

definition spawn_destroy :: "kernel \<Rightarrow> spawn \<Rightarrow> os \<Rightarrow> os" where
  "spawn_destroy K sp s =
     (let s = close_if K (fd11 sp) (close_if K (fd10 sp) (close_if K (fd01 sp) (close_if K (fd00 sp) s)));
          s = snd (snd (sys_plain K SysActionsDestroy s)) in
      snd (snd (sys_plain K SysAttrDestroy s)))"

subsection \<open>Opening\<close>

text \<open>
  What the Lua API says of the argument table: \<open>ta_get\<close> the value of a key, \<open>ta_objlen\<close> the length of a value, \<open>ta_rawgeti\<close> an element, and
  \<open>ta_tostring\<close> the text of a string or number, null for other values.
\<close>

record table_api =
  ta_get :: "lua_value \<Rightarrow> byte list \<Rightarrow> lua_value"
  ta_objlen :: "lua_value \<Rightarrow> nat"
  ta_rawgeti :: "lua_value \<Rightarrow> nat \<Rightarrow> lua_value"
  ta_tostring :: "lua_value \<Rightarrow> byte list option"

definition key_file :: "byte list" where "key_file = [102, 105, 108, 101]"
definition key_args :: "byte list" where "key_args = [97, 114, 103, 115]"
definition key_env :: "byte list" where "key_env = [101, 110, 118]"

text \<open>The elements 1 to \<open>n\<close> of a table as C strings.\<close>

definition string_array :: "table_api \<Rightarrow> lua_value \<Rightarrow> byte list option list" where
  "string_array T v = map (\<lambda>i. map_option c_string (ta_tostring T (ta_rawgeti T v i))) [1..<ta_objlen T v + 1]"

text \<open>The error paths of \<open>spawn_open\<close> all free what is there and report \<open>errno\<close>, as it is after that.\<close>

definition spawn_fail :: "kernel \<Rightarrow> spawn \<Rightarrow> os \<Rightarrow> (os, spawn) lres" where
  "spawn_fail K sp s = (let s = spawn_destroy K sp s in Raise (lua_handle_error (errno s)) s)"

text \<open>A step of \<open>posix_spawn\<close>'s preparation, which returns an error code.\<close>

definition prepare :: "kernel \<Rightarrow> syscall \<Rightarrow> spawn \<Rightarrow> (os \<Rightarrow> (os, spawn) lres) \<Rightarrow> os \<Rightarrow> (os, spawn) lres" where
  "prepare K x sp k s = (case sys_plain K x s of (ret, out, s) \<Rightarrow> if ret \<noteq> 0 then spawn_fail K sp s else k s)"

definition add_dup2 :: "kernel \<Rightarrow> cint \<Rightarrow> cint \<Rightarrow> (spawn \<Rightarrow> os \<Rightarrow> (os, spawn) lres) \<Rightarrow> spawn \<Rightarrow> os \<Rightarrow> (os, spawn) lres" where
  "add_dup2 K fd i k sp = prepare K (SysActionsDup2 fd i) sp (k (sp\<lparr>file_actions := file_actions sp @ [ActDup2 fd i]\<rparr>))"

definition add_close :: "kernel \<Rightarrow> cint \<Rightarrow> (spawn \<Rightarrow> os \<Rightarrow> (os, spawn) lres) \<Rightarrow> spawn \<Rightarrow> os \<Rightarrow> (os, spawn) lres" where
  "add_close K fd k sp = prepare K (SysActionsClose fd) sp (k (sp\<lparr>file_actions := file_actions sp @ [ActClose fd]\<rparr>))"

text \<open>The body of the loop over the two pipes: \<open>stdin\<close> says which.\<close>

definition open_pipe :: "kernel \<Rightarrow> bool \<Rightarrow> (spawn \<Rightarrow> os \<Rightarrow> (os, spawn) lres) \<Rightarrow> spawn \<Rightarrow> os \<Rightarrow> (os, spawn) lres" where
  "open_pipe K stdin k sp s =
     (case sys K SysPipe s of (ret, out, s) \<Rightarrow>
        if ret \<noteq> 0 then spawn_fail K sp s
        else
          let r = out_cint out 0; w = out_cint out 1;
              sp = (if stdin then sp\<lparr>fd00 := r, fd01 := w\<rparr> else sp\<lparr>fd10 := r, fd11 := w\<rparr>);
              near = (if stdin then r else w); far = (if stdin then w else r) in
          add_dup2 K near (if stdin then 0 else 1) (add_close K near (add_close K far k)) sp s)"

definition close_own :: "kernel \<Rightarrow> cint \<Rightarrow> spawn \<Rightarrow> (os \<Rightarrow> (os, spawn) lres) \<Rightarrow> os \<Rightarrow> (os, spawn) lres" where
  "close_own K fd sp k s = (case sys K (SysClose fd) s of (ret, out, s) \<Rightarrow> if ret \<noteq> 0 then spawn_fail K sp s else k s)"

definition spawn_child :: "kernel \<Rightarrow> byte list \<Rightarrow> byte list option list \<Rightarrow> byte list option list option \<Rightarrow> spawn \<Rightarrow> os \<Rightarrow> (os, spawn) lres" where
  "spawn_child K file argv envp sp s =
     (case sys_plain K (SysSpawnp file argv envp) s of (ret, out, s) \<Rightarrow>
        if ret \<noteq> 0 then spawn_fail K sp s
        else
          let sp = sp\<lparr>sp_pid := out_cint out 0\<rparr>; sp' = sp\<lparr>fd00 := 0\<rparr> in
          close_own K (fd00 sp) sp
            (close_own K (fd11 sp) sp' (\<lambda>s. Ret (sp'\<lparr>fd11 := 0\<rparr>) s)) s)"

definition new_spawn :: spawn where
  "new_spawn = \<lparr>sp_pid = 0, fd00 = 0, fd01 = 0, fd10 = 0, fd11 = 0, file_actions = []\<rparr>"

text \<open>\<open>spawn_open\<close>: \<open>args\<close> are the arguments of the Lua call; the environment is null where the own one is handed on.\<close>

definition spawn_open :: "table_api \<Rightarrow> kernel \<Rightarrow> lua_value list \<Rightarrow> os \<Rightarrow> (os, spawn) lres" where
  "spawn_open T K args s =
     (if length args \<noteq> 1 \<or> lua_type (hd args) \<noteq> 5 then Raise (LuaErrStr ''expected a single table argument'') s
      else
        let t = hd args; file = ta_get T t key_file; a = ta_get T t key_args; e = ta_get T t key_env in
        (case file of
           LString file \<Rightarrow>
             if lua_type a \<notin> {0, 5} then Raise (LuaErrStr ''args: expected a table, or nil'') s
             else if ta_objlen T e > 0 \<and> lua_type e \<noteq> 5 then Abort StackCorrupt
             else
               let argv = Some (c_string file) # string_array T a;
                   envp = (if ta_objlen T e > 0 then Some (string_array T e) else None) in
               prepare K SysActionsInit new_spawn
                 (open_pipe K True (open_pipe K False
                   (\<lambda>sp. prepare K SysAttrInit sp (spawn_child K (c_string file) argv envp sp))) new_spawn) s
         | _ \<Rightarrow> Raise (LuaErrStr ''file: expected a string'') s))"

subsection \<open>Waiting\<close>

text \<open>The loop that reads what is left of the standard output, and the loop around \<open>waitpid\<close>; \<open>None\<close> is waiting for ever.\<close>

partial_function (option) skip_stdout :: "kernel \<Rightarrow> cint \<Rightarrow> os \<Rightarrow> (os, unit) lres option" where
  "skip_stdout K fd s =
     (case stream_read K (SysRead fd 1024) fd 1024 s of
        None \<Rightarrow> None
      | Some (x, _, s) \<Rightarrow>
          if x < 0 then Some (Raise (lua_handle_error (errno s)) s)
          else if x = 0 then Some (Ret () s)
          else skip_stdout K fd s)"

declare skip_stdout.simps [code]

partial_function (option) await_exit :: "kernel \<Rightarrow> cint \<Rightarrow> os \<Rightarrow> (os, cint) lres option" where
  "await_exit K pid s =
     (case sys K (SysWaitpid pid) s of (ret, out, s) \<Rightarrow>
        if ret < 0 then Some (Raise (lua_handle_error (errno s)) s)
        else
          let status = out_cint out 0 in
          if \<not> WIFEXITED status \<and> \<not> WIFSIGNALED status then await_exit K pid s
          else Some (Ret status s))"

declare await_exit.simps [code]

definition sig_KILL :: "byte list" where "sig_KILL = [75, 73, 76, 76]"
definition sig_TERM :: "byte list" where "sig_TERM = [84, 69, 82, 77]"

text \<open>\<open>spawn_wait\<close> after the child was sent its signal, if any: \<open>signame\<close> tells whether there was one.\<close>

definition wait_child :: "kernel \<Rightarrow> bool \<Rightarrow> spawn \<Rightarrow> os \<Rightarrow> (spawn_state, cint) lres option" where
  "wait_child K signame sp s =
     (let (ret, s) = (if fd01 sp \<noteq> 0 then (case sys K (SysClose (fd01 sp)) s of (ret, _, s) \<Rightarrow> (ret, s)) else (0, s)) in
      if ret \<noteq> 0 then Some (Raise (lua_handle_error (errno s)) (Some sp, s))
      else
        let sp = sp\<lparr>fd01 := 0\<rparr>;
            finish = (\<lambda>sp s. case await_exit K (sp_pid sp) s of
                None \<Rightarrow> None
              | Some (Raise e s) \<Rightarrow> Some (Raise e (Some sp, s))
              | Some (Abort f) \<Rightarrow> Some (Abort f)
              | Some (Ret status s) \<Rightarrow> Some (Ret (WEXITSTATUS status) (None, spawn_destroy K sp s))) in
        if signame then finish (sp\<lparr>fd10 := 0\<rparr>) (snd (snd (sys K (SysClose (fd10 sp)) s)))
        else (case skip_stdout K (fd10 sp) s of
            None \<Rightarrow> None
          | Some (Raise e s) \<Rightarrow> Some (Raise e (Some sp, s))
          | Some (Abort f) \<Rightarrow> Some (Abort f)
          | Some (Ret _ s) \<Rightarrow> finish sp s))"

definition already_closed :: lua_error where "already_closed = LuaErrStr ''spawn was already closed''"

definition spawn_wait :: "kernel \<Rightarrow> byte list option \<Rightarrow> spawn_state \<Rightarrow> (spawn_state, cint) lres option" where
  "spawn_wait K signame = (\<lambda>(u, s).
     (case u of
        None \<Rightarrow> Some (Raise already_closed (None, s))
      | Some sp \<Rightarrow>
          (case map_option c_string signame of
             None \<Rightarrow> wait_child K False sp s
           | Some name \<Rightarrow>
               if name \<noteq> sig_KILL \<and> name \<noteq> sig_TERM then Some (Raise (LuaErrStr ''unknown signal'') (u, s))
               else (case sys K (SysKill (sp_pid sp) (if name = sig_KILL then SIGKILL else SIGTERM)) s of (ret, _, s) \<Rightarrow>
                   if ret \<noteq> 0 then Some (Raise (lua_handle_error (errno s)) (u, s))
                   else wait_child K True sp s))))"

definition spawn_gc :: "kernel \<Rightarrow> spawn_state \<Rightarrow> (spawn_state, unit) lres option" where
  "spawn_gc K = (\<lambda>(u, s).
     (case u of
        None \<Rightarrow> Some (Ret () (u, s))
      | Some sp \<Rightarrow>
          (case sys K (SysKill (sp_pid sp) SIGTERM) s of (ret, _, s) \<Rightarrow>
             if ret \<noteq> 0 then Some (Raise (lua_handle_error (errno s)) (u, s))
             else (case spawn_wait K None (u, s) of
                 None \<Rightarrow> None
               | Some (Ret _ us) \<Rightarrow> Some (Ret () us)
               | Some (Raise e us) \<Rightarrow> Some (Raise e us)
               | Some (Abort f) \<Rightarrow> Some (Abort f)))))"

subsection \<open>Input and output\<close>

partial_function (option) write_stdin :: "kernel \<Rightarrow> cint \<Rightarrow> byte list \<Rightarrow> os \<Rightarrow> (os, unit) lres option" where
  "write_stdin K fd str s =
     (if str = [] then Some (Ret () s)
      else case stream_write K (SysWrite fd (length str)) fd str s of (x, s) \<Rightarrow>
        if x < 0 then Some (Raise (lua_handle_error (errno s)) s)
        else write_stdin K fd (drop (nat x) str) s)"

declare write_stdin.simps [code]

text \<open>\<open>spawn_stdin\<close>: without an argument the pipe is closed.\<close>

definition spawn_stdin :: "kernel \<Rightarrow> byte list option \<Rightarrow> spawn_state \<Rightarrow> (spawn_state, unit) lres option" where
  "spawn_stdin K str = (\<lambda>(u, s).
     (case u of
        None \<Rightarrow> Some (Raise already_closed (None, s))
      | Some sp \<Rightarrow>
          (case str of
             None \<Rightarrow>
               (case sys K (SysClose (fd01 sp)) s of (ret, _, s) \<Rightarrow>
                  if ret \<noteq> 0 then Some (Raise (lua_handle_error (errno s)) (u, s))
                  else Some (Ret () (Some (sp\<lparr>fd01 := 0\<rparr>), s)))
           | Some str \<Rightarrow>
               (case write_stdin K (fd01 sp) str s of
                  None \<Rightarrow> None
                | Some (Ret _ s) \<Rightarrow> Some (Ret () (u, s))
                | Some (Raise e s) \<Rightarrow> Some (Raise e (u, s))
                | Some (Abort f) \<Rightarrow> Some (Abort f)))))"

text \<open>
  The loop of the format \<open>*l\<close>, with \<open>buff\<close> the \<open>cb\<close> bytes read so far and \<open>max_cb\<close> the size of the block they are in. The result is the
  string pushed, if any.
\<close>

partial_function (option) read_line :: "kernel \<Rightarrow> cint \<Rightarrow> byte list \<Rightarrow> nat \<Rightarrow> os \<Rightarrow> (os, byte list option) lres option" where
  "read_line K fd buff max_cb s =
     (if max_cb < length buff + 1 then Some (Abort OutOfBounds)
      else case stream_read K (SysRead fd 1) fd 1 s of
        None \<Rightarrow> None
      | Some (x, bs, s) \<Rightarrow>
          if x < 0 then Some (Raise (lua_handle_error (errno s)) s)
          else if x = 0 then Some (Ret (if length buff > 0 then Some buff else None) s)
          else if bs = [10] then Some (Ret (Some buff) s)
          else
            let buff = buff @ bs in
            read_line K fd buff (if length buff + 1 = max_cb then max_cb + 1024 else max_cb) s)"

declare read_line.simps [code]

text \<open>The loop of the other formats, up to the end of the output.\<close>

partial_function (option) read_all :: "kernel \<Rightarrow> cint \<Rightarrow> byte list \<Rightarrow> nat \<Rightarrow> os \<Rightarrow> (os, byte list option) lres option" where
  "read_all K fd buff max_cb s =
     (if max_cb < length buff + 1 then Some (Abort OutOfBounds)
      else let n = max_cb - length buff - 1 in
        case stream_read K (SysRead fd n) fd n s of
          None \<Rightarrow> None
        | Some (x, bs, s) \<Rightarrow>
            if x < 0 then Some (Raise (lua_handle_error (errno s)) s)
            else if x = 0 then Some (Ret (if length buff > 0 then Some buff else None) s)
            else
              let buff = buff @ bs in
              read_all K fd buff (if length buff + 1 = max_cb then max_cb + 1024 else max_cb) s)"

declare read_all.simps [code]

text \<open>The argument of \<open>stdout\<close>: none or nil, a number of bytes, a format, or a value that is no string.\<close>

datatype stdout_arg = DefaultArg | BytesArg size_t | FormatArg "byte list" | OtherArg

definition read_bytes :: "kernel \<Rightarrow> cint \<Rightarrow> size_t \<Rightarrow> os \<Rightarrow> (os, byte list option) lres option" where
  "read_bytes K fd cb s =
     (case stream_read K (SysRead fd (unat cb)) fd (unat cb) s of
        None \<Rightarrow> None
      | Some (n, bs, s) \<Rightarrow>
          if n < 0 then Some (Raise (lua_handle_error (errno s)) s)
          else if n > 0 then Some (Ret (Some bs) s) else Some (Ret None s))"

definition spawn_stdout :: "kernel \<Rightarrow> stdout_arg \<Rightarrow> spawn_state \<Rightarrow> (spawn_state, byte list option) lres option" where
  "spawn_stdout K arg = (\<lambda>(u, s).
     (case u of
        None \<Rightarrow> Some (Raise already_closed (None, s))
      | Some sp \<Rightarrow>
          let fd = fd10 sp;
              r = (case arg of
                  BytesArg cb \<Rightarrow> read_bytes K fd cb s
                | OtherArg \<Rightarrow> Some (Raise (LuaErrStr ''string expected'') s)
                | DefaultArg \<Rightarrow> read_line K fd [] 1024 s
                | FormatArg fmt \<Rightarrow> if take 2 (c_string fmt) = [42, 108] then read_line K fd [] 1024 s else read_all K fd [] 1024 s) in
          (case r of
             None \<Rightarrow> None
           | Some (Ret str s) \<Rightarrow> Some (Ret str (u, s))
           | Some (Raise e s) \<Rightarrow> Some (Raise e (u, s))
           | Some (Abort f) \<Rightarrow> Some (Abort f))))"

definition spawn_stdout_file_id :: "spawn_state \<Rightarrow> (spawn_state, cint) lres" where
  "spawn_stdout_file_id = (\<lambda>(u, s). case u of None \<Rightarrow> Raise already_closed (u, s) | Some sp \<Rightarrow> Ret (fd10 sp) (u, s))"

definition spawn_pid :: "spawn_state \<Rightarrow> (spawn_state, cint) lres" where
  "spawn_pid = (\<lambda>(u, s). case u of None \<Rightarrow> Raise already_closed (u, s) | Some sp \<Rightarrow> Ret (sp_pid sp) (u, s))"

text \<open>\<open>waitid\<close> stores the process that has ended, or leaves the zero there.\<close>

definition spawn_running :: "kernel \<Rightarrow> spawn_state \<Rightarrow> (spawn_state, bool) lres" where
  "spawn_running K = (\<lambda>(u, s).
     (case u of
        None \<Rightarrow> Raise already_closed (u, s)
      | Some sp \<Rightarrow>
          (case sys K (SysWaitid (sp_pid sp)) s of (ret, out, s) \<Rightarrow>
             if ret \<noteq> 0 then Raise (lua_handle_error (errno s)) (u, s) else Ret (out_cint out 0 = 0) (u, s))))"

text \<open>\<open>ipc_waitpid\<close>: the exit status, or nothing when the process was ended by a signal.\<close>

partial_function (option) ipc_waitpid :: "kernel \<Rightarrow> cint \<Rightarrow> os \<Rightarrow> (os, cint option) lres option" where
  "ipc_waitpid K pid s =
     (case sys K (SysWaitpid pid) s of (ret, out, s) \<Rightarrow>
        if ret < 0 then Some (Raise (lua_handle_error (errno s)) s)
        else
          let status = out_cint out 0 in
          if WIFEXITED status then Some (Ret (Some (WEXITSTATUS status)) s)
          else if \<not> WIFEXITED status \<and> \<not> WIFSIGNALED status then ipc_waitpid K pid s
          else Some (Ret None s))"

declare ipc_waitpid.simps [code]

section \<open>Reading and writing\<close>

interpretation stdin_writer: stream_writer K fd "SysWrite fd" "\<lambda>bs (u :: unit). write_stdin K fd bs" "\<lambda>m u. u"
  "\<lambda>u s. Some (Ret () s)" for K fd
  by unfold_locales (simp_all add: write_stdin.simps)

interpretation stdout_skipper: stream_reader K fd "SysRead fd" "\<lambda>u :: unit. skip_stdout K fd" "\<lambda>u. 1024" "\<lambda>u bs. u"
  "\<lambda>u s. Some (Ret () s)" for K fd
  by unfold_locales (auto simp: skip_stdout.simps)

definition grow_buff :: "byte list \<times> nat \<Rightarrow> byte list \<Rightarrow> byte list \<times> nat" where
  "grow_buff = (\<lambda>(buff, max_cb) bs. (buff @ bs, if length (buff @ bs) + 1 = max_cb then max_cb + 1024 else max_cb))"

interpretation stdout_reader: stream_reader K fd "SysRead fd" "\<lambda>(buff, max_cb). read_all K fd buff max_cb"
  "\<lambda>(buff, max_cb). max_cb - length buff - 1" grow_buff
  "\<lambda>(buff, max_cb) s. Some (Ret (if length buff > 0 then Some buff else None) s)" for K fd
  by unfold_locales (auto simp: grow_buff_def read_all.simps Let_def)

lemma foldl_grow_buff: "fst (foldl grow_buff c bss) = fst c @ concat bss"
  by (induction bss arbitrary: c) (simp_all add: grow_buff_def split: prod.splits)

lemma read_byte:
  assumes "streams_ok K" and "incoming s fd = b # rest"
  shows "\<exists>s'. stream_read K (SysRead fd 1) fd 1 s = Some (1, [b], s') \<and> took fd [b] s s'"
proof -
  obtain m s' where m: "stream_read K (SysRead fd 1) fd 1 s = Some (int m, take m (incoming s fd), s')" "0 < m" "m \<le> 1"
      and s': "incoming s' = (incoming s)(fd := drop m (incoming s fd))" "outgoing s' = outgoing s" "hangup s' = hangup s"
    by (rule stream_read_ok [OF assms(1), where x = "SysRead fd 1" and n = 1 and s = s and fd = fd]) (simp_all add: assms(2))
  then have "m = 1" by simp
  with m(1) s' show ?thesis by (auto simp: took_def assms(2))
qed

lemma read_line_byte:
  assumes "streams_ok K" and "incoming s fd = b # rest" and "b \<noteq> 10" and "length buff + 1 < max_cb"
  obtains max' s1 where "read_line K fd buff max_cb s = read_line K fd (buff @ [b]) max' s1" and "length (buff @ [b]) + 1 < max'"
    and "took fd [b] s s1" and "incoming s1 fd = rest" and "hangup s1 fd = hangup s fd"
proof -
  obtain s1 where s1: "stream_read K (SysRead fd 1) fd 1 s = Some (1, [b], s1)" "took fd [b] s s1"
    using read_byte [OF assms(1,2)] by blast
  let ?max = "if length (buff @ [b]) + 1 = max_cb then max_cb + 1024 else max_cb"
  have "read_line K fd buff max_cb s = read_line K fd (buff @ [b]) ?max s1"
    using s1(1) assms(3,4) by (simp add: read_line.simps [of K fd buff] Let_def)
  moreover have "length (buff @ [b]) + 1 < ?max" using assms(4) by auto
  moreover have "incoming s1 fd = rest" "hangup s1 fd = hangup s fd" using s1(2) assms(2) by (auto simp: took_def)
  ultimately show thesis using that s1(2) by blast
qed

lemma read_line_newline:
  assumes "streams_ok K"
  shows "incoming s fd = line @ 10 # rest \<Longrightarrow> 10 \<notin> set line \<Longrightarrow> length buff + 1 < max_cb \<Longrightarrow>
    \<exists>s'. read_line K fd buff max_cb s = Some (Ret (Some (buff @ line)) s') \<and> took fd (line @ [10]) s s'"
proof (induction line arbitrary: buff max_cb s)
  case Nil
  with read_byte [OF assms, of s fd 10 rest] show ?case by (subst read_line.simps) auto
next
  case (Cons b line)
  then have "incoming s fd = b # line @ 10 # rest" "b \<noteq> 10" by auto
  from read_line_byte [OF assms this Cons.prems(3)] obtain max' s1 where
      s1: "read_line K fd buff max_cb s = read_line K fd (buff @ [b]) max' s1" "length (buff @ [b]) + 1 < max'"
        "took fd [b] s s1" "incoming s1 fd = line @ 10 # rest" by metis
  from Cons.IH [OF s1(4) _ s1(2)] Cons.prems(2) obtain s' where
      s': "read_line K fd (buff @ [b]) max' s1 = Some (Ret (Some (buff @ b # line)) s')" "took fd (line @ [10]) s1 s'" by auto
  with s1 took_trans [OF s1(3) s'(2)] show ?case by simp
qed

lemma read_line_last:
  assumes "streams_ok K"
  shows "incoming s fd = line \<Longrightarrow> hangup s fd \<Longrightarrow> 10 \<notin> set line \<Longrightarrow> length buff + 1 < max_cb \<Longrightarrow>
    \<exists>s'. read_line K fd buff max_cb s = Some (Ret (if buff @ line = [] then None else Some (buff @ line)) s') \<and> took fd line s s'"
proof (induction line arbitrary: buff max_cb s)
  case Nil
  have "stream_read K (SysRead fd 1) fd 1 s = Some (0, [], s\<lparr>trace := trace s @ [SysRead fd 1]\<rparr>)"
    using Nil assms by (intro stream_read_hangup) (auto simp: streams_ok_def less_imp_le)
  with Nil show ?case by (subst read_line.simps) (auto simp: took_def)
next
  case (Cons b line)
  then have "incoming s fd = b # line" "b \<noteq> 10" by auto
  from read_line_byte [OF assms this Cons.prems(4)] obtain max' s1 where
      s1: "read_line K fd buff max_cb s = read_line K fd (buff @ [b]) max' s1" "length (buff @ [b]) + 1 < max'"
        "took fd [b] s s1" "incoming s1 fd = line" "hangup s1 fd = hangup s fd" by metis
  from Cons.IH [OF s1(4) _ _ s1(2)] Cons.prems(2,3) s1(5) obtain s' where
      s': "read_line K fd (buff @ [b]) max' s1 = Some (Ret (Some (buff @ b # line)) s')" "took fd line s1 s'" by auto
  with s1 took_trans [OF s1(3) s'(2)] show ?case by simp
qed

text \<open>The lines of an output: the last one need not end in a newline.\<close>

function lines :: "byte list \<Rightarrow> byte list list" where
  "lines bs = (if bs = [] then [] else takeWhile (\<lambda>b. b \<noteq> 10) bs # lines (drop 1 (dropWhile (\<lambda>b. b \<noteq> 10) bs)))"
  by pat_completeness auto
termination
proof (relation "measure length", simp)
  fix bs :: "byte list" assume "bs \<noteq> []"
  then show "(drop 1 (dropWhile (\<lambda>b. b \<noteq> 10) bs), bs) \<in> measure length"
    using length_dropWhile_le [of "\<lambda>b. b \<noteq> 10" bs] by (cases bs) auto
qed

declare lines.simps [simp del]

text \<open>The loop of a client that reads lines until there are none, at most \<open>n\<close> times.\<close>

primrec stdout_lines :: "kernel \<Rightarrow> nat \<Rightarrow> spawn_state \<Rightarrow> (byte list list \<times> spawn_state) option" where
  "stdout_lines K 0 us = None"
| "stdout_lines K (Suc n) us =
     (case spawn_stdout K DefaultArg us of
        Some (Ret None us) \<Rightarrow> Some ([], us)
      | Some (Ret (Some l) us) \<Rightarrow> map_option (\<lambda>(ls, us). (l # ls, us)) (stdout_lines K n us)
      | _ \<Rightarrow> None)"

lemma stdout_lines_spec:
  assumes "streams_ok K"
  shows "hangup s (fd10 sp) \<Longrightarrow> \<exists>s'. stdout_lines K (Suc (length (lines (incoming s (fd10 sp))))) (Some sp, s) =
      Some (lines (incoming s (fd10 sp)), Some sp, s') \<and> took (fd10 sp) (incoming s (fd10 sp)) s s'"
proof (induction "incoming s (fd10 sp)" arbitrary: s rule: lines.induct)
  case 1
  let ?fd = "fd10 sp" and ?bs = "incoming s (fd10 sp)"
  let ?line = "takeWhile (\<lambda>b. b \<noteq> 10) ?bs" and ?tail = "dropWhile (\<lambda>b. b \<noteq> 10) ?bs"
  have no: "10 \<notin> set ?line" using set_takeWhileD by fastforce
  show ?case
  proof (cases "?bs = []")
    case True
    then obtain s' where "read_line K ?fd [] 1024 s = Some (Ret None s')" "took ?fd ?bs s s'"
      using read_line_last [OF assms, of s ?fd "[]" "[]" 1024] "1.prems" by auto
    then show ?thesis using True by (simp add: spawn_stdout_def lines.simps)
  next
    case False
    have "\<exists>s1. read_line K ?fd [] 1024 s = Some (Ret (Some ?line) s1) \<and> took ?fd (?line @ take 1 ?tail) s s1"
    proof (cases ?tail)
      case Nil
      then have "?line = ?bs" by (simp add: takeWhile_eq_all_conv dropWhile_eq_Nil_conv)
      with no have "10 \<notin> set ?bs" by simp
      then have "\<exists>s1. read_line K ?fd [] 1024 s = Some (Ret (Some ?bs) s1) \<and> took ?fd ?bs s s1"
        using read_line_last [OF assms refl "1.prems", of "[]" 1024] False by simp
      then show ?thesis unfolding Nil \<open>?line = ?bs\<close> by simp
    next
      case (Cons b rest)
      then have "b = 10" using hd_dropWhile [of "\<lambda>b. b \<noteq> 10" ?bs] by simp
      with Cons have "?bs = ?line @ 10 # rest" by (metis takeWhile_dropWhile_id)
      with Cons \<open>b = 10\<close> no show ?thesis
        using read_line_newline [OF assms, of s ?fd ?line rest "[]" 1024] by simp
    qed
    then obtain s1 where s1: "read_line K ?fd [] 1024 s = Some (Ret (Some ?line) s1)" "took ?fd (?line @ take 1 ?tail) s s1" by blast
    have all: "?bs = (?line @ take 1 ?tail) @ drop 1 ?tail" by simp
    have rest: "incoming s1 ?fd = drop 1 ?tail" "hangup s1 ?fd"
      using s1(2) all "1.prems" unfolding took_def by (metis same_append_eq)+
    obtain s' where s': "stdout_lines K (Suc (length (lines (drop 1 ?tail)))) (Some sp, s1) = Some (lines (drop 1 ?tail), Some sp, s')"
        "took ?fd (drop 1 ?tail) s1 s'"
      using "1.hyps" [OF False rest(1) [symmetric] rest(2)] rest by auto
    have "took ?fd ?bs s s'" using took_trans [OF s1(2) s'(2)] all by simp
    moreover have "lines ?bs = ?line # lines (drop 1 ?tail)" using False by (subst lines.simps) simp
    ultimately show ?thesis using s1(1) s'(1) by (auto simp: spawn_stdout_def)
  qed
qed

section \<open>Descriptors\<close>

text \<open>
  While a child is being opened, the descriptors beyond those from before, \<open>H\<close>, are ends of its pipes, \<open>F\<close>, which its structure names; at
  the end they are closed or are the two ends that stay. Only the number 0 escapes: \<open>spawn_destroy\<close> takes it for a member that was never set.
\<close>

definition sp_fds :: "spawn \<Rightarrow> cint set" where
  "sp_fds sp = {fd00 sp, fd01 sp, fd10 sp, fd11 sp} - {0}"

definition pipe_ends :: "kernel \<Rightarrow> cint set" where
  "pipe_ends K = {out_cint (k_out K c SysPipe) i | c i. k_ret K c SysPipe = 0 \<and> i < 2}"

definition covered :: "kernel \<Rightarrow> cint set \<Rightarrow> cint set \<Rightarrow> spawn \<Rightarrow> os \<Rightarrow> bool" where
  "covered K H F sp s \<longleftrightarrow> open_fds K s \<subseteq> H \<union> F \<and> F \<subseteq> pipe_ends K \<and> F \<subseteq> {fd00 sp, fd01 sp, fd10 sp, fd11 sp}"


lemma open_fds_close_if [simp]: "open_fds K (close_if K fd s) = open_fds K s - (if fd = 0 then {} else {fd})"
  by (simp add: close_if_def)

lemma open_fds_destroy [simp]: "open_fds K (spawn_destroy K sp s) = open_fds K s - sp_fds sp"
  by (auto simp: spawn_destroy_def sp_fds_def Let_def)




lemma covered_actions [simp]: "covered K H F (sp\<lparr>file_actions := acts\<rparr>) s = covered K H F sp s"
  by (simp add: covered_def)








lemma open_fds_stream_read:
  "stream_read K (SysRead fd n) fd n s = Some (x, bs, s') \<Longrightarrow> open_fds K s' = open_fds K s"
  by (cases "sys K (SysRead fd n) s") (auto simp: stream_read_def Let_def open_fds_sysD split: if_splits)

lemma open_fds_skip_stdout:
  assumes "skip_stdout K fd s = Some r"
  shows "r = Ret u s' \<Longrightarrow> open_fds K s' = open_fds K s"
proof (induction K fd s r rule: skip_stdout.raw_induct)
  case (1 f K fd s r)
  then show ?case using open_fds_stream_read [of K fd 1024 s]
    by (auto split: option.splits if_splits)
qed (rule assms)

lemma open_fds_await_exit:
  assumes "await_exit K pid s = Some r"
  shows "r = Ret status s' \<Longrightarrow> open_fds K s' = open_fds K s"
proof (induction K pid s r rule: await_exit.raw_induct)
  case (1 f K pid s r)
  obtain ret out s1 where p: "sys K (SysWaitpid pid) s = (ret, out, s1)" by (cases "sys K (SysWaitpid pid) s")
  have "open_fds K s1 = open_fds K s" using open_fds_sysD [OF p] by simp
  with 1 show ?case by (auto simp: p Let_def split: if_splits)
qed (rule assms)

lemma wait_child_closes:
  assumes "wait_child K signame sp s = Some (Ret code (u, s'))"
  shows "u = None \<and> open_fds K s' \<subseteq> open_fds K s - sp_fds sp"
proof -
  let ?s1 = "close_if K (fd01 sp) s" and ?sp = "sp\<lparr>fd01 := 0\<rparr>"
  have finish: "u = None \<and> open_fds K s' = open_fds K s2 - sp_fds sp2"
    if fin: "(case await_exit K (sp_pid sp2) s2 of None \<Rightarrow> None | Some (Raise e s) \<Rightarrow> Some (Raise e (Some sp2, s)) | Some (Abort f) \<Rightarrow> Some (Abort f)
        | Some (Ret status s) \<Rightarrow> Some (Ret (WEXITSTATUS status) (None, spawn_destroy K sp2 s))) = Some (Ret code (u, s'))" for sp2 s2
  proof -
    obtain status s3 where s3: "await_exit K (sp_pid sp2) s2 = Some (Ret status s3)" "u = None" "s' = spawn_destroy K sp2 s3"
      using fin by (auto split: option.splits lres.splits)
    from s3 open_fds_await_exit [OF s3(1) refl] show ?thesis by simp
  qed
  show ?thesis
  proof (cases signame)
    case True
    let ?s2 = "snd (snd (sys K (SysClose (fd10 sp)) ?s1))"
    have "u = None \<and> open_fds K s' = open_fds K ?s2 - sp_fds (?sp\<lparr>fd10 := 0\<rparr>)"
      by (rule finish) (use assms True in \<open>auto simp: wait_child_def close_if_def Let_def split: prod.splits if_splits\<close>)
    then show ?thesis by (auto simp: sp_fds_def split: if_splits)
  next
    case False
    obtain s2 where s2: "skip_stdout K (fd10 sp) ?s1 = Some (Ret () s2)"
      using assms False by (auto simp: wait_child_def close_if_def Let_def split: prod.splits if_splits option.splits lres.splits)
    have "u = None \<and> open_fds K s' = open_fds K s2 - sp_fds ?sp"
      by (rule finish) (use assms False s2 in \<open>auto simp: wait_child_def close_if_def Let_def split: prod.splits if_splits\<close>)
    then show ?thesis using open_fds_skip_stdout [OF s2 refl] by (auto simp: sp_fds_def split: if_splits)
  qed
qed

section \<open>The status of a process\<close>

lemma status_masks: "(0x7f :: cint) = mask 7" "(0xff00 :: cint) = push_bit 8 (mask 8)"
  by (simp_all add: mask_eq_exp_minus_1)

lemma exit_status:
  fixes code :: byte
  shows "WIFEXITED (push_bit 8 (ucast code))" and "WEXITSTATUS (push_bit 8 (ucast code)) = ucast code"
  unfolding WIFEXITED_def WTERMSIG_def WEXITSTATUS_def status_masks
  by (rule bit_word_eqI; auto simp: bit_simps dest: bit_imp_le_length)+

text \<open>A process that a signal has ended: the exit status the macro takes out of its status is 0.\<close>

lemma signal_statuses:
  "list_all (\<lambda>n. let status = of_nat n :: cint in \<not> WIFEXITED status \<and> WIFSIGNALED status \<and> WEXITSTATUS status = 0) [1..<127]"
  by code_simp

lemma signal_status:
  fixes sig :: byte
  assumes "0 < sig" and "sig < 127"
  shows "\<not> WIFEXITED (ucast sig) \<and> WIFSIGNALED (ucast sig) \<and> WEXITSTATUS (ucast sig) = 0"
proof -
  have "unat sig \<in> set [1..<127]" using assms by (auto simp: word_less_nat_alt Suc_le_eq)
  moreover have "of_nat (unat sig) = (ucast sig :: cint)" by simp
  ultimately show ?thesis using signal_statuses unfolding list_all_iff Let_def by metis
qed

text \<open>
  \<open>waits_ok K pid final\<close>: \<open>waitpid\<close> does not fail, reports that the child was stopped or continued any number of times, and in the end the status
  \<open>final\<close> of its end.
\<close>

definition ended :: "cint \<Rightarrow> bool" where
  "ended status \<longleftrightarrow> WIFEXITED status \<or> WIFSIGNALED status"

definition waits_ok :: "kernel \<Rightarrow> cint \<Rightarrow> cint \<Rightarrow> bool" where
  "waits_ok K pid final \<longleftrightarrow>
     (\<forall>c. 0 \<le> k_ret K c (SysWaitpid pid) \<and>
       (let status = out_cint (k_out K c (SysWaitpid pid)) 0 in ended status \<longrightarrow> status = final) \<and>
       (\<exists>c'\<ge>c. ended (out_cint (k_out K c' (SysWaitpid pid)) 0)))"

lemma await_exit_ok:
  assumes "waits_ok K pid final"
  shows "\<exists>s'. await_exit K pid s = Some (Ret final s')"
proof -
  let ?status = "\<lambda>c. out_cint (k_out K c (SysWaitpid pid)) 0"
  have "ended (?status c) \<Longrightarrow> length (trace s) \<le> c \<Longrightarrow> \<exists>s'. await_exit K pid s = Some (Ret final s')" for c
  proof (induction "c - length (trace s)" arbitrary: s rule: less_induct)
    case less
    let ?s = "s\<lparr>trace := trace s @ [SysWaitpid pid]\<rparr>" and ?st = "?status (length (trace s))"
    have ret: "0 \<le> k_ret K (length (trace s)) (SysWaitpid pid)" using assms by (simp add: waits_ok_def)
    then have sys: "sys K (SysWaitpid pid) s = (k_ret K (length (trace s)) (SysWaitpid pid), k_out K (length (trace s)) (SysWaitpid pid), ?s)"
      by (simp add: sys_def Let_def)
    show ?case
    proof (cases "ended ?st")
      case True
      with assms have "?st = final" unfolding waits_ok_def by metis
      with True sys ret show ?thesis by (subst await_exit.simps) (auto simp: ended_def Let_def)
    next
      case False
      with less.prems have "length (trace s) < c" by (metis le_neq_implies_less)
      with less.hyps [of ?s] less.prems have "\<exists>s'. await_exit K pid ?s = Some (Ret final s')" by simp
      with False sys ret show ?thesis by (subst await_exit.simps) (auto simp: ended_def Let_def)
    qed
  qed
  then show ?thesis using assms unfolding waits_ok_def by blast
qed

lemma spawn_wait_ok:
  assumes "streams_ok K" and "closes_ok K" and "waits_ok K (sp_pid sp) final" and "hangup s (fd10 sp)"
  shows "\<exists>s'. spawn_wait K None (Some sp, s) = Some (Ret (WEXITSTATUS final) (None, s'))"
proof -
  have same: "hangup (close_if K (fd01 sp) s) = hangup s" by (simp add: close_if_def)
  obtain s1 where "skip_stdout K (fd10 sp) (close_if K (fd01 sp) s) = Some (Ret () s1)"
    using stdout_skipper.reads_all [OF assms(1), where s = "close_if K (fd01 sp) s" and fd = "fd10 sp"] assms(4) same by auto
  moreover obtain s2 where "await_exit K (sp_pid sp) s1 = Some (Ret final s2)" using await_exit_ok [OF assms(3)] by blast
  ultimately show ?thesis
    using assms(2) by (auto simp: spawn_wait_def wait_child_def close_if_def closes_ok_def sys_def Let_def split: if_splits)
qed

section \<open>The descriptors of the child\<close>

fun act :: "file_action \<Rightarrow> (cint \<rightharpoonup> cint) \<Rightarrow> (cint \<rightharpoonup> cint)" where
  "act (ActDup2 a b) f = f(b := f a)"
| "act (ActClose a) f = f(a := None)"

text \<open>What the descriptors of a child stand for, in terms of those of its parent, after \<open>posix_spawn\<close> has performed the actions.\<close>

definition child_fds :: "file_action list \<Rightarrow> (cint \<rightharpoonup> cint)" where
  "child_fds acts = fold act acts Some"

lemma new_spawn_actions [simp]: "file_actions new_spawn = []"
  by (simp add: new_spawn_def)

lemma prepare_Ret:
  "prepare K x sp k s = Ret sp' s' \<longleftrightarrow> k_ret K (length (trace s)) x = 0 \<and> k (s\<lparr>trace := trace s @ [x]\<rparr>) = Ret sp' s'"
  by (simp add: prepare_def sys_plain_def spawn_fail_def Let_def)

lemma close_own_Ret:
  "close_own K fd sp k s = Ret sp' s' \<longleftrightarrow>
     k_ret K (length (trace s)) (SysClose fd) = 0 \<and> k (s\<lparr>trace := trace s @ [SysClose fd]\<rparr>) = Ret sp' s'"
  by (auto simp: close_own_def sys_def spawn_fail_def Let_def)

lemma spawn_child_Ret:
  "spawn_child K f argv envp sp s = Ret sp' s' \<Longrightarrow> \<exists>pid. sp' = sp\<lparr>sp_pid := pid, fd00 := 0, fd11 := 0\<rparr>"
  by (auto simp: spawn_child_def spawn_fail_def close_own_Ret Let_def split: prod.splits if_splits)

lemma open_pipe_Ret:
  assumes "open_pipe K stdin k sp s = Ret sp' s'"
  defines "r \<equiv> out_cint (k_out K (length (trace s)) SysPipe) 0" and "w \<equiv> out_cint (k_out K (length (trace s)) SysPipe) 1"
  shows "\<exists>s1. length (trace s1) = length (trace s) + 4 \<and>
    k (if stdin then sp\<lparr>fd00 := r, fd01 := w, file_actions := file_actions sp @ [ActDup2 r 0, ActClose r, ActClose w]\<rparr>
       else sp\<lparr>fd10 := r, fd11 := w, file_actions := file_actions sp @ [ActDup2 w 1, ActClose w, ActClose r]\<rparr>) s1 = Ret sp' s'"
proof -
  have "fst (sys K SysPipe s) = 0" using assms(1) by (auto simp: open_pipe_def spawn_fail_def Let_def split: prod.splits if_splits)
  then have sys: "sys K SysPipe s = (0, k_out K (length (trace s)) SysPipe, s\<lparr>trace := trace s @ [SysPipe]\<rparr>)"
    by (auto simp: sys_def Let_def split: if_splits)
  show ?thesis using assms
    by (cases stdin) (auto simp: open_pipe_def sys add_dup2_def add_close_def prepare_Ret Let_def intro!: exI)
qed

section \<open>Properties\<close>

text \<open>An argument table in which only \<open>file\<close> is set.\<close>

definition small_tables :: table_api where
  "small_tables = \<lparr>ta_get = (\<lambda>t k. if k = key_file then LString [108, 115] else LNil), ta_objlen = (\<lambda>v. 0), ta_rawgeti = (\<lambda>v i. LNil),
     ta_tostring = (\<lambda>v. None)\<rparr>"

text \<open>
  A system that hands out the descriptors 3 to 6 for the two pipes of a process, moves bytes and waits like \<open>small_kernel\<close>, and lets
  processes exit with code 7.
\<close>

definition spawn_kernel :: kernel where
  "spawn_kernel = small_kernel\<lparr>k_out := (\<lambda>c x. case x of SysPipe \<Rightarrow> if c < 5 then [3, 4] else [5, 6]
     | SysWaitpid _ \<Rightarrow> [7 * 256] | SysSpawnp _ _ _ \<Rightarrow> [99] | _ \<Rightarrow> [])\<rparr>"

lemma spawn_kernel_ok [simp]: "streams_ok spawn_kernel" "closes_ok spawn_kernel"
  by (simp_all add: streams_ok_def closes_ok_def spawn_kernel_def small_kernel_def out_cint_def less_2_cases_iff split: option.splits)

lemma spawn_kernel_waits: "waits_ok spawn_kernel pid (push_bit 8 (ucast (7 :: byte)))"
  by (auto simp: waits_ok_def ended_def spawn_kernel_def small_kernel_def out_cint_def WIFEXITED_def WTERMSIG_def)

definition child_os :: os where
  "child_os = small_os\<lparr>incoming := (\<lambda>_. [97, 10, 98]), hangup := (\<lambda>_. True)\<rparr>"

definition small_spawn :: spawn where
  "small_spawn = \<lparr>sp_pid = 99, fd00 = 0, fd01 = 4, fd10 = 5, fd11 = 0, file_actions = []\<rparr>"


text \<open>
  The descriptor 0 does escape: in a process without a standard input the first \<open>pipe\<close> gives the numbers 0 and 3, and when the second
  one fails, \<open>spawn\<close> reports the error and has closed only 3.
\<close>

definition no_stdin_kernel :: kernel where
  "no_stdin_kernel = small_kernel\<lparr>k_out := (\<lambda>c x. case x of SysPipe \<Rightarrow> [0, 3] | _ \<Rightarrow> []),
     k_ret := (\<lambda>c x. case x of SysPipe \<Rightarrow> if c < 5 then 0 else - 1 | _ \<Rightarrow> 0)\<rparr>"

theorem spawn_open_leaks_zero:
  "\<exists>e s'. spawn_open small_tables no_stdin_kernel [LTable [] NoMeta] small_os = Raise e s' \<and>
     open_fds no_stdin_kernel s' = {0} \<and> open_fds no_stdin_kernel small_os = {}"
  by (simp add: spawn_open_def small_tables_def key_file_def key_args_def key_env_def prepare_def sys_plain_def no_stdin_kernel_def
      small_kernel_def small_os_def open_pipe_def sys_def add_dup2_def add_close_def spawn_fail_def spawn_destroy_def close_if_def
      new_spawn_def out_cint_def open_fds_def Let_def) auto

text \<open>
  C18: The child of a successful \<open>spawn\<close> has the reading end of the first pipe as its standard input and the writing end of the second as
  its standard output, and no other copy of the four ends; the parent keeps the other two.
\<close>

theorem spawn_child_streams:
  assumes "spawn_open T K args s = Ret sp s'"
    and "r0 = out_cint (k_out K (length (trace s) + 1) SysPipe) 0" and "w0 = out_cint (k_out K (length (trace s) + 1) SysPipe) 1"
    and "r1 = out_cint (k_out K (length (trace s) + 5) SysPipe) 0" and "w1 = out_cint (k_out K (length (trace s) + 5) SysPipe) 1"
    and "distinct [0, 1, r0, w0, r1, w1]"
  shows "fd01 sp = w0 \<and> fd10 sp = r1 \<and>
    child_fds (file_actions sp) = (Some(0 \<mapsto> r0, 1 \<mapsto> w1))(r0 := None, w0 := None, r1 := None, w1 := None)"
proof -
  obtain name argv envp where "prepare K SysActionsInit new_spawn (open_pipe K True (open_pipe K False
      (\<lambda>sp. prepare K SysAttrInit sp (spawn_child K name argv envp sp))) new_spawn) s = Ret sp s'"
    using assms(1) by (auto simp: spawn_open_def Let_def split: lua_value.splits if_splits)
  then have "open_pipe K True (open_pipe K False (\<lambda>sp. prepare K SysAttrInit sp (spawn_child K name argv envp sp)))
      new_spawn (s\<lparr>trace := trace s @ [SysActionsInit]\<rparr>) = Ret sp s'" by (simp add: prepare_Ret)
  from open_pipe_Ret [OF this] obtain s1 where s1: "length (trace s1) = 5 + length (trace s)"
      "open_pipe K False (\<lambda>sp. prepare K SysAttrInit sp (spawn_child K name argv envp sp))
        (new_spawn\<lparr>fd00 := r0, fd01 := w0, file_actions := [ActDup2 r0 0, ActClose r0, ActClose w0]\<rparr>) s1 = Ret sp s'"
    by (auto simp: assms(2,3))
  have "length (trace s1) = length (trace s) + 5" using s1(1) by simp
  with open_pipe_Ret [OF s1(2)] obtain s2 where "prepare K SysAttrInit
      (new_spawn\<lparr>fd00 := r0, fd01 := w0, fd10 := r1, fd11 := w1,
         file_actions := [ActDup2 r0 0, ActClose r0, ActClose w0, ActDup2 w1 1, ActClose w1, ActClose r1]\<rparr>)
      (spawn_child K name argv envp (new_spawn\<lparr>fd00 := r0, fd01 := w0, fd10 := r1, fd11 := w1,
         file_actions := [ActDup2 r0 0, ActClose r0, ActClose w0, ActDup2 w1 1, ActClose w1, ActClose r1]\<rparr>)) s2 = Ret sp s'"
    by (auto simp: assms(4,5))
  from spawn_child_Ret [OF conjunct2 [OF this [unfolded prepare_Ret]]] have "fd01 sp = w0" "fd10 sp = r1"
      "file_actions sp = [ActDup2 r0 0, ActClose r0, ActClose w0, ActDup2 w1 1, ActClose w1, ActClose r1]"
    by auto
  then show ?thesis using assms(6) by (auto simp: child_fds_def)
qed

lemma spawn_open_small:
  "\<exists>sp s'. spawn_open small_tables spawn_kernel [LTable [] NoMeta] small_os = Ret sp s'"
proof -
  have "(case spawn_open small_tables spawn_kernel [LTable [] NoMeta] small_os of Ret sp s \<Rightarrow> True | _ \<Rightarrow> False)" by code_simp
  then show ?thesis by (auto split: lres.splits)
qed

theorem spawn_child_streams_witness:
  "\<exists>sp s'. spawn_open small_tables spawn_kernel [LTable [] NoMeta] small_os = Ret sp s' \<and> fd01 sp = 4 \<and> fd10 sp = 5 \<and>
    child_fds (file_actions sp) = (Some(0 \<mapsto> 3, 1 \<mapsto> 6))(3 := None, 4 := None, 5 := None, 6 := None)"
proof -
  obtain sp s' where "spawn_open small_tables spawn_kernel [LTable [] NoMeta] small_os = Ret sp s'" using spawn_open_small by blast
  with spawn_child_streams [OF this refl refl refl refl] show ?thesis
    by (simp add: small_os_def spawn_kernel_def out_cint_def)
qed

text \<open>
  Everything written with \<open>stdin\<close> goes into the pipe of the child, in as many calls as it takes.
\<close>

theorem spawn_stdin_writes_all:
  assumes "streams_ok K"
  shows "\<exists>s'. spawn_stdin K (Some str) (Some sp, s) = Some (Ret () (Some sp, s')) \<and>
    outgoing s' = (outgoing s)(fd01 sp := outgoing s (fd01 sp) @ str) \<and> incoming s' = incoming s"
  using stdin_writer.writes_all [OF assms, where fd = "fd01 sp" and bs = str and s = s]
  by (auto simp: spawn_stdin_def wrote_def)

theorem spawn_stdin_writes_all_witness:
  "\<exists>s'. spawn_stdin spawn_kernel (Some [1, 2, 3, 4, 5]) (Some small_spawn, small_os) = Some (Ret () (Some small_spawn, s')) \<and>
    outgoing s' = (outgoing small_os)(fd01 small_spawn := outgoing small_os (fd01 small_spawn) @ [1, 2, 3, 4, 5]) \<and>
    incoming s' = incoming small_os"
  by (rule spawn_stdin_writes_all) simp

text \<open>
  C19: Reading the output of a child line by line gives the lines of all that it writes, in order and without their newlines, and then nothing, however the
  system cuts the output into pieces and however long the lines are.
\<close>

theorem spawn_stdout_lines:
  assumes "streams_ok K" and "hangup s (fd10 sp)"
  shows "\<exists>s'. stdout_lines K (length (lines (incoming s (fd10 sp))) + 1) (Some sp, s) =
      Some (lines (incoming s (fd10 sp)), Some sp, s') \<and> incoming s' (fd10 sp) = []"
  using stdout_lines_spec [OF assms] by (fastforce simp: took_def)

theorem spawn_stdout_lines_witness:
  "lines (incoming child_os (fd10 small_spawn)) = [[97], [98]] \<and>
   (\<exists>s'. stdout_lines spawn_kernel (length (lines (incoming child_os (fd10 small_spawn))) + 1) (Some small_spawn, child_os) =
      Some (lines (incoming child_os (fd10 small_spawn)), Some small_spawn, s') \<and> incoming s' (fd10 small_spawn) = [])"
proof
  show "lines (incoming child_os (fd10 small_spawn)) = [[97], [98]]" by code_simp
  show "\<exists>s'. stdout_lines spawn_kernel (length (lines (incoming child_os (fd10 small_spawn))) + 1) (Some small_spawn, child_os) =
      Some (lines (incoming child_os (fd10 small_spawn)), Some small_spawn, s') \<and> incoming s' (fd10 small_spawn) = []"
    by (rule spawn_stdout_lines) (simp_all add: child_os_def)
qed

text \<open>Reading all of the output returns it as one string, or nothing when there is none.\<close>

theorem spawn_stdout_all:
  assumes "streams_ok K" and "hangup s (fd10 sp)" and "take 2 (c_string fmt) \<noteq> [42, 108]"
  shows "\<exists>s'. spawn_stdout K (FormatArg fmt) (Some sp, s) =
      Some (Ret (if incoming s (fd10 sp) = [] then None else Some (incoming s (fd10 sp))) (Some sp, s')) \<and> incoming s' (fd10 sp) = []"
proof -
  obtain bss s' where r: "(\<lambda>(buff, max_cb) s. Some (Ret (if length buff > 0 then Some buff else None) s)) (foldl grow_buff ([], 1024) bss) s' =
      read_all K (fd10 sp) [] 1024 s" "concat bss = incoming s (fd10 sp)" "took (fd10 sp) (incoming s (fd10 sp)) s s'"
    using stdout_reader.reads_all [OF assms(1,2), where c = "([], 1024)"] by (auto simp del: length_greater_0_conv)
  obtain max_cb where "foldl grow_buff ([], 1024) bss = (incoming s (fd10 sp), max_cb)"
    using foldl_grow_buff [of "([], 1024)" bss] r(2) by (metis append_Nil fst_conv surj_pair)
  with r(1) have "read_all K (fd10 sp) [] 1024 s = Some (Ret (if incoming s (fd10 sp) = [] then None else Some (incoming s (fd10 sp))) s')"
    by auto
  then show ?thesis using assms(3) r(3) by (auto simp: spawn_stdout_def took_def)
qed

theorem spawn_stdout_all_witness:
  "\<exists>s'. spawn_stdout spawn_kernel (FormatArg [42, 97]) (Some small_spawn, child_os) =
      Some (Ret (if incoming child_os (fd10 small_spawn) = [] then None else Some (incoming child_os (fd10 small_spawn))) (Some small_spawn, s')) \<and>
      incoming s' (fd10 small_spawn) = []"
  by (rule spawn_stdout_all) (simp_all add: child_os_def c_string_def)

text \<open>
  C20: \<open>wait\<close> closes the standard input of the child, reads its output to the end, waits until it has ended, however often it is stopped and
  continued before, and returns its exit code; then all descriptors of the structure are closed and the structure is gone.
\<close>

theorem spawn_wait_exit_code:
  assumes "streams_ok K" and "closes_ok K" and "waits_ok K (sp_pid sp) (push_bit 8 (ucast code))" and "hangup s (fd10 sp)"
  shows "\<exists>s'. spawn_wait K None (Some sp, s) = Some (Ret (ucast (code :: byte)) (None, s')) \<and>
    open_fds K s' \<subseteq> open_fds K s - sp_fds sp"
proof -
  obtain s' where w: "spawn_wait K None (Some sp, s) = Some (Ret (ucast code) (None, s'))"
    using spawn_wait_ok [OF assms] exit_status by auto
  then have "wait_child K False sp s = Some (Ret (ucast code) (None, s'))" by (simp add: spawn_wait_def)
  from wait_child_closes [OF this] w show ?thesis by auto
qed

theorem spawn_wait_exit_code_witness:
  "\<exists>s'. spawn_wait spawn_kernel None (Some small_spawn, child_os) = Some (Ret (ucast (7 :: byte)) (None, s')) \<and>
    open_fds spawn_kernel s' \<subseteq> open_fds spawn_kernel child_os - sp_fds small_spawn"
  by (rule spawn_wait_exit_code [OF _ _ spawn_kernel_waits]) (simp_all add: child_os_def)

text \<open>
  A child that a signal has ended is reported as one that exited with code 0: \<open>wait\<close> takes the exit code out of the status without asking whether
  the child exited.
\<close>

theorem spawn_wait_signal_is_success:
  assumes "streams_ok K" and "closes_ok K" and "waits_ok K (sp_pid sp) (ucast (sig :: byte))" and "hangup s (fd10 sp)"
    and "0 < sig" and "sig < 127"
  shows "\<exists>s'. spawn_wait K None (Some sp, s) = Some (Ret 0 (None, s'))"
  using spawn_wait_ok [OF assms(1-4)] signal_status [OF assms(5,6)] by auto

definition signal_kernel :: kernel where
  "signal_kernel = small_kernel\<lparr>k_out := (\<lambda>c x. [9])\<rparr>"

theorem spawn_wait_signal_is_success_witness:
  "\<exists>s'. spawn_wait signal_kernel None (Some small_spawn, child_os) = Some (Ret 0 (None, s'))"
proof (rule spawn_wait_signal_is_success [where sig = 9])
  show "waits_ok signal_kernel (sp_pid small_spawn) (ucast (9 :: byte))"
    using signal_status [of 9] by (auto simp: waits_ok_def ended_def signal_kernel_def small_kernel_def out_cint_def)
qed (simp_all add: streams_ok_def closes_ok_def child_os_def signal_kernel_def small_kernel_def split: option.splits)

text \<open>
  When the program cannot be started, the error raised is the number in \<open>errno\<close>, which \<open>posix_spawnp\<close> does not set, and not its
  result.
\<close>

theorem spawn_open_wrong_error:
  assumes "\<forall>c x. k_ret K c x = (case x of SysSpawnp _ _ _ \<Rightarrow> code | _ \<Rightarrow> 0)" and "code \<noteq> 0"
    and "ta_get T t key_file = LString name" and "ta_get T t key_args = LNil" and "ta_objlen T (ta_get T t key_env) = 0" and "lua_type t = 5"
  shows "\<exists>s'. spawn_open T K [t] s = Raise (lua_handle_error (errno s)) s'"
proof -
  have prep: "prepare K x sp k s = k (s\<lparr>trace := trace s @ [x]\<rparr>)" if "\<forall>a b c. x \<noteq> SysSpawnp a b c" for x sp k s
    using assms(1) that by (cases x) (auto simp: prepare_def sys_plain_def Let_def)
  have pipe: "\<exists>sp' s'. open_pipe K stdin k sp s = k sp' s' \<and> errno s' = errno s" for stdin k sp s
    using assms(1) by (simp add: open_pipe_def sys_def add_dup2_def add_close_def prep Let_def) force
  have child: "\<exists>s'. spawn_child K f argv envp sp s = Raise (lua_handle_error (errno s)) s'" for f argv envp sp s
    using assms(1,2)
    by (simp add: spawn_child_def sys_plain_def spawn_fail_def spawn_destroy_def close_if_def sys_def Let_def)
  let ?f = "c_string name" and ?argv = "Some (c_string name) # string_array T LNil"
  obtain sp1 s1 where s1: "open_pipe K True (open_pipe K False (\<lambda>sp. prepare K SysAttrInit sp (spawn_child K ?f ?argv None sp))) new_spawn
      (s\<lparr>trace := trace s @ [SysActionsInit]\<rparr>) = open_pipe K False (\<lambda>sp. prepare K SysAttrInit sp (spawn_child K ?f ?argv None sp)) sp1 s1"
      "errno s1 = errno s"
    using pipe [of True _ new_spawn "s\<lparr>trace := trace s @ [SysActionsInit]\<rparr>"] by fastforce
  obtain sp2 s2 where s2: "open_pipe K False (\<lambda>sp. prepare K SysAttrInit sp (spawn_child K ?f ?argv None sp)) sp1 s1 =
      prepare K SysAttrInit sp2 (spawn_child K ?f ?argv None sp2) s2" "errno s2 = errno s1"
    using pipe [of False "\<lambda>sp. prepare K SysAttrInit sp (spawn_child K ?f ?argv None sp)" sp1 s1] by fastforce
  show ?thesis
    using s1 s2 child [of ?f ?argv None sp2 "s2\<lparr>trace := trace s2 @ [SysAttrInit]\<rparr>"] assms(3-6)
    by (simp add: spawn_open_def prep Let_def)
qed

theorem spawn_open_wrong_error_witness:
  "\<exists>s'. spawn_open small_tables (small_kernel\<lparr>k_ret := (\<lambda>c x. case x of SysSpawnp _ _ _ \<Rightarrow> 2 | _ \<Rightarrow> 0)\<rparr>) [LTable [] NoMeta] small_os =
    Raise (lua_handle_error (errno small_os)) s'"
  by (rule spawn_open_wrong_error [where code = 2 and name = "[108, 115]"])
    (simp_all add: small_tables_def key_file_def key_args_def key_env_def)

text \<open>
  After the standard input of the child has been closed, its descriptor is 0: writing to it again writes to the standard input of the own process, and
  closing it again closes that.
\<close>

theorem spawn_stdin_after_close:
  assumes "streams_ok K" and "closes_ok K"
  shows "\<exists>sp1 s1 s2 s3. spawn_stdin K None (Some sp, s) = Some (Ret () (Some sp1, s1)) \<and>
    spawn_stdin K (Some str) (Some sp1, s1) = Some (Ret () (Some sp1, s2)) \<and> outgoing s2 0 = outgoing s 0 @ str \<and>
    spawn_stdin K None (Some sp1, s1) = Some (Ret () (Some sp1, s3)) \<and> open_fds K s3 = open_fds K s1 - {0}"
proof -
  let ?close = "\<lambda>fd (s :: os). s\<lparr>trace := trace s @ [SysClose fd]\<rparr>" and ?sp = "sp\<lparr>fd01 := 0\<rparr>"
  have c: "sys K (SysClose fd) s = (0, k_out K (length (trace s)) (SysClose fd), ?close fd s)" for fd s
    using assms(2) by (simp add: sys_def closes_ok_def Let_def)
  have first: "spawn_stdin K None (Some sp, s) = Some (Ret () (Some ?sp, ?close (fd01 sp) s))" by (simp add: spawn_stdin_def c)
  have third: "spawn_stdin K None (Some ?sp, ?close (fd01 sp) s) = Some (Ret () (Some ?sp, ?close 0 (?close (fd01 sp) s)))"
    using c [of 0 "?close (fd01 sp) s"] by (simp add: spawn_stdin_def)
  obtain s2 where "write_stdin K 0 str (?close (fd01 sp) s) = Some (Ret () s2)" "wrote 0 str (?close (fd01 sp) s) s2"
    using stdin_writer.writes_all [OF assms(1), where fd = 0 and bs = str and s = "?close (fd01 sp) s"] by auto
  then have "spawn_stdin K (Some str) (Some ?sp, ?close (fd01 sp) s) = Some (Ret () (Some ?sp, s2))" "outgoing s2 0 = outgoing s 0 @ str"
    by (simp_all add: spawn_stdin_def wrote_def)
  with first third open_fds_sysD [OF c [of 0 "?close (fd01 sp) s"]] show ?thesis by fastforce
qed

theorem spawn_stdin_after_close_witness:
  "\<exists>sp1 s1 s2 s3. spawn_stdin spawn_kernel None (Some small_spawn, small_os) = Some (Ret () (Some sp1, s1)) \<and>
    spawn_stdin spawn_kernel (Some [7, 8]) (Some sp1, s1) = Some (Ret () (Some sp1, s2)) \<and> outgoing s2 0 = outgoing small_os 0 @ [7, 8] \<and>
    spawn_stdin spawn_kernel None (Some sp1, s1) = Some (Ret () (Some sp1, s3)) \<and> open_fds spawn_kernel s3 = open_fds spawn_kernel s1 - {0}"
  by (rule spawn_stdin_after_close) simp_all

end
