(* ===== verification/FileLock.thy ===== *)
theory FileLock
  imports Os
begin

text \<open>
  File locks, \<^verbatim>\<open>src/flock.c\<close>: a lock is the descriptor of a file on which \<open>flock\<close> has been called.
\<close>

section \<open>Model\<close>

definition O_RDWR :: cint where "O_RDWR = 0x2"
definition O_CREAT :: cint where "O_CREAT = 0x40"
definition O_CLOEXEC :: cint where "O_CLOEXEC = 0x80000"
definition LOCK_EX :: cint where "LOCK_EX = 2"
definition LOCK_NB :: cint where "LOCK_NB = 4"
definition LOCK_UN :: cint where "LOCK_UN = 8"
definition ENOENT :: int where "ENOENT = 2"
definition EACCES :: int where "EACCES = 13"
definition EWOULDBLOCK :: int where "EWOULDBLOCK = 11"

text \<open>
  \<open>flock_open\<close> returns a handle, or nothing: when the file is not there or not accessible, or when the lock is taken and the caller does not
  want to wait.
\<close>

definition flock_open :: "kernel \<Rightarrow> byte list \<Rightarrow> bool \<Rightarrow> os \<Rightarrow> (os, cint option) lres" where
  "flock_open K file_name no_block s =
     (let flags = or O_CLOEXEC O_RDWR;
          flags = (if \<not> no_block then or flags O_CREAT else flags) in
      (case sys K (SysOpen file_name flags) s of (fd, _, s) \<Rightarrow>
         if fd < 0 then
           if errno s = ENOENT \<or> errno s = EACCES then Ret None s
           else Raise (lua_handle_error (errno s)) s
         else
           let fd = of_int fd :: cint;
               flags = (if no_block then or LOCK_EX LOCK_NB else LOCK_EX) in
           (case sys K (SysFlock fd flags) s of (ret, _, s) \<Rightarrow>
              if ret < 0 then
                (case sys K (SysClose fd) s of (_, _, s) \<Rightarrow>
                   if and flags LOCK_NB \<noteq> 0 \<and> errno s = EWOULDBLOCK then Ret None s
                   else Raise (lua_handle_error (errno s)) s)
              else Ret (Some fd) s)))"

text \<open>\<open>flock_close\<close>, which is also the finalizer: the handle is 0 afterwards.\<close>

definition flock_close :: "kernel \<Rightarrow> cint \<times> os \<Rightarrow> (cint \<times> os, unit) lres" where
  "flock_close K = (\<lambda>(handle, s).
     (if handle \<noteq> 0 then
        (case sys K (SysFlock handle LOCK_UN) s of (ret, _, s) \<Rightarrow>
           (case sys K (SysClose handle) s of (_, _, s) \<Rightarrow>
              if ret < 0 then Raise (lua_handle_error (errno s)) (0, s) else Ret () (0, s)))
      else Ret () (handle, s)))"

section \<open>Properties\<close>

lemma sys_ret: "sys K x s = (r, out, s') \<Longrightarrow> 0 \<le> r \<Longrightarrow> r = k_ret K (length (trace s)) x"
  by (auto simp: sys_def Let_def split: if_splits)

lemma sys_fails: "sys K x s = (r, out, s') \<Longrightarrow> r < 0 \<longleftrightarrow> k_ret K (length (trace s)) x < 0"
  by (auto simp: sys_def Let_def split: if_splits)

lemma open_fds_SysOpen:
  assumes "sys K (SysOpen name flags) s = (r, out, s')"
  shows "open_fds K s' = (if r < 0 then open_fds K s else insert (of_int r) (open_fds K s))"
  using open_fds_sysD [OF assms] sys_ret [OF assms] sys_fails [OF assms] by auto

text \<open>
  C33: Whatever the system answers, an attempt to take a lock leaves behind exactly the descriptor it returns: none is lost when it fails or gives up,
  and closing the lock closes it, even if unlocking fails, after which closing it again does nothing. A handle that is 0 counts as closed.
\<close>

theorem flock_descriptors:
  "(case flock_open K name no_block s of
      Ret (Some fd) s' \<Rightarrow> open_fds K s' = insert fd (open_fds K s)
    | Ret None s' \<Rightarrow> open_fds K s' \<subseteq> open_fds K s
    | Raise e s' \<Rightarrow> open_fds K s' \<subseteq> open_fds K s
    | Abort f \<Rightarrow> False) \<and>
   (\<exists>s'. (flock_close K (handle, s) = Ret () (0, s') \<or> (\<exists>e. flock_close K (handle, s) = Raise e (0, s'))) \<and>
      open_fds K s' = open_fds K s - ({handle} - {0}) \<and> flock_close K (0, s') = Ret () (0, s'))"
proof
  let ?flags = "if no_block then or O_CLOEXEC O_RDWR else or (or O_CLOEXEC O_RDWR) O_CREAT"
  obtain r out s1 where o: "sys K (SysOpen name ?flags) s = (r, out, s1)" by (cases "sys K (SysOpen name ?flags) s")
  let ?fd = "of_int r :: cint"
  let ?x = "SysFlock ?fd (if no_block then or LOCK_EX LOCK_NB else LOCK_EX)"
  obtain r2 out2 s2 where f: "sys K ?x s1 = (r2, out2, s2)" by (cases "sys K ?x s1")
  obtain r3 out3 s3 where c: "sys K (SysClose ?fd) s2 = (r3, out3, s3)" by (cases "sys K (SysClose ?fd) s2")
  have "open_fds K s3 = open_fds K s2 - {?fd}" "open_fds K s2 = open_fds K s1"
    using open_fds_sysD [OF c] open_fds_sysD [OF f] by simp_all
  with open_fds_SysOpen [OF o] show "case flock_open K name no_block s of
      Ret (Some fd) s' \<Rightarrow> open_fds K s' = insert fd (open_fds K s)
    | Ret None s' \<Rightarrow> open_fds K s' \<subseteq> open_fds K s
    | Raise e s' \<Rightarrow> open_fds K s' \<subseteq> open_fds K s
    | Abort f \<Rightarrow> False"
    unfolding flock_open_def Let_def
    using o f c by (cases no_block) auto
next
  obtain r2 out2 s2 where f: "sys K (SysFlock handle LOCK_UN) s = (r2, out2, s2)" by (cases "sys K (SysFlock handle LOCK_UN) s")
  obtain r3 out3 s3 where c: "sys K (SysClose handle) s2 = (r3, out3, s3)" by (cases "sys K (SysClose handle) s2")
  show "\<exists>s'. (flock_close K (handle, s) = Ret () (0, s') \<or> (\<exists>e. flock_close K (handle, s) = Raise e (0, s'))) \<and>
      open_fds K s' = open_fds K s - ({handle} - {0}) \<and> flock_close K (0, s') = Ret () (0, s')"
    using open_fds_sysD [OF c] open_fds_sysD [OF f]
    by (cases "handle = 0") (auto simp: flock_close_def f c)
qed

text \<open>
  A process without a standard input can get the descriptor 0 for the file; closing that lock does nothing, and the file stays locked.
\<close>

theorem flock_zero_stays_locked:
  "\<exists>s'. flock_open small_kernel [47] False small_os = Ret (Some 0) s' \<and> 0 \<in> open_fds small_kernel s' \<and>
     flock_close small_kernel (0, s') = Ret () (0, s')"
  by (simp add: flock_open_def flock_close_def sys_def small_kernel_def small_os_def open_fds_def Let_def)

end
