(* ===== verification/Module.thy ===== *)
theory Module
  imports Workqueue Channel Marshal Mutex SharedTable Cliser Map_Threads Spawn FileLock "HOL-Library.AList"
begin

text \<open>
  The entry points of the module, \<^verbatim>\<open>src/ipc.c\<close>: the tables of functions and metatables that loading the library creates in a Lua state. The
  serializer finds the metatable of a userdata by the name that its \<open>metatablename\<close> method returns, so that the
  tables have to fit the functions.
\<close>

section \<open>Model\<close>

type_synonym routines = "(string \<times> string) list"

text \<open>
  A field of a metatable or of the module table: a C function, by its name, the table itself, a number, or the table of channel constants, whose own
  metatable has one function.
\<close>

datatype field = CFun string | Self | FieldInt int | CallableTable "(string \<times> int) list" "(string \<times> string) list"

type_synonym fields = "(string \<times> field) list"

definition set_field :: "string \<Rightarrow> field \<Rightarrow> fields \<Rightarrow> fields" where
  "set_field = AList.update"

text \<open>
  \<open>luaT_setfuncs\<close> belongs to torch: it sets the functions as fields of a table, in order. It is an argument of the model, and \<open>setfuncs_ok\<close> what is
  said of it.
\<close>

type_synonym setfuncs = "routines \<Rightarrow> fields \<Rightarrow> fields"

definition set_all :: setfuncs where
  "set_all rs t = fold (\<lambda>(name, f). set_field name (CFun f)) rs t"

definition setfuncs_ok :: "setfuncs \<Rightarrow> bool" where
  "setfuncs_ok luaT_setfuncs \<longleftrightarrow> (\<forall>rs t. luaT_setfuncs rs t = set_all rs t)"

definition ipc_routines :: routines where
  "ipc_routines =
     [(''isOSX'', ''ipc_is_osx''), (''workqueue'', ''workqueue_open''), (''server'', ''cliser_server''),
      (''client'', ''cliser_client''), (''getpid'', ''ipc_getpid''), (''getppid'', ''ipc_getppid''),
      (''gettid'', ''ipc_gettid''), (''fork'', ''ipc_fork''), (''waitpid'', ''ipc_waitpid''), (''map'', ''map_open''),
      (''map_extended'', ''map_extended_open''), (''spawn'', ''spawn_open''), (''flock'', ''flock_open''),
      (''mutex'', ''mutex_create''), (''sharedtable'', ''sharedtable_create''), (''sharedtable_size'', ''sharedtable_size''),
      (''marshal'', ''marshal_open''), (''isDevel'', ''ipc_is_devel''), (''channel'', ''channel_create'')]"

definition workqueue_routines :: routines where
  "workqueue_routines =
     [(''close'', ''workqueue_close''), (''read'', ''workqueue_read''), (''write'', ''workqueue_write''),
      (''writeup'', ''workqueue_writeup''), (''drain'', ''workqueue_drain''), (''retain'', ''workqueue_retain''),
      (''metatablename'', ''workqueue_metatablename''), (''__gc'', ''workqueue_gc'')]"

definition server_routines :: routines where
  "server_routines =
     [(''close'', ''cliser_server_close''), (''clients'', ''cliser_server_clients''),
      (''broadcast'', ''cliser_server_broadcast''), (''recvAny'', ''cliser_server_recv_any''),
      (''netStats'', ''cliser_server_net_stats'')]"

definition server_client_routines :: routines where
  "server_client_routines =
     [(''send'', ''cliser_server_send''), (''recv'', ''cliser_server_recv''), (''tag'', ''cliser_server_tag''),
      (''id'', ''cliser_server_id''), (''close'', ''cliser_server_client_close''),
      (''address'', ''cliser_server_client_address'')]"

definition client_routines :: routines where
  "client_routines =
     [(''close'', ''cliser_client_close''), (''__gc'', ''cliser_client_close''), (''send'', ''cliser_client_send''),
      (''recv'', ''cliser_client_recv''), (''recvAsync'', ''cliser_client_recv_async''),
      (''retain'', ''cliser_client_retain''), (''metatablename'', ''cliser_client_metatablename''),
      (''netStats'', ''cliser_client_net_stats'')]"

definition map_routines :: routines where
  "map_routines =
     [(''join'', ''map_join''), (''checkErrors'', ''map_check_errors'')]"

definition spawn_routines :: routines where
  "spawn_routines =
     [(''stdin'', ''spawn_stdin''), (''stdout'', ''spawn_stdout''), (''stdoutFileId'', ''spawn_stdout_file_id''),
      (''wait'', ''spawn_wait''), (''pid'', ''spawn_pid''), (''running'', ''spawn_running''), (''__gc'', ''spawn_gc'')]"

definition flock_routines :: routines where
  "flock_routines =
     [(''close'', ''flock_close''), (''__gc'', ''flock_close'')]"

definition mutex_routines :: routines where
  "mutex_routines =
     [(''lock'', ''mutex_lock''), (''unlock'', ''mutex_unlock''), (''barrier'', ''mutex_barrier''),
      (''retain'', ''mutex_retain''), (''metatablename'', ''mutex_metatablename''), (''__gc'', ''mutex_gc'')]"

definition sharedtable_routines :: routines where
  "sharedtable_routines =
     [(''retain'', ''sharedtable_retain''), (''metatablename'', ''sharedtable_metatablename''), (''__gc'', ''sharedtable_gc''),
      (''__index'', ''sharedtable_read''), (''__newindex'', ''sharedtable_write''), (''__len'', ''sharedtable_len''),
      (''__pairs'', ''sharedtable_pairs'')]"

definition marshal_routines :: routines where
  "marshal_routines =
     [(''close'', ''marshal_close''), (''read'', ''marshal_read''), (''retain'', ''marshal_retain''),
      (''metatablename'', ''marshal_metatablename''), (''__gc'', ''marshal_gc'')]"

definition channel_routines :: routines where
  "channel_routines =
     [(''close'', ''channel_close''), (''closed'', ''channel_closed''), (''drained'', ''channel_drained''),
      (''read'', ''channel_read''), (''write'', ''channel_write''), (''num_items'', ''channel_num_items''),
      (''retain'', ''channel_retain''), (''metatablename'', ''channel_metatablename''), (''__gc'', ''channel_gc'')]"

text \<open>The registry of a Lua state: \<open>luaL_newmetatable\<close> makes a new table, or takes the one already there.\<close>

type_synonym metatables = "(string \<times> fields) list"

definition newmetatable :: "string \<Rightarrow> metatables \<Rightarrow> fields" where
  "newmetatable name reg = (case map_of reg name of None \<Rightarrow> [] | Some t \<Rightarrow> t)"

definition register_class :: "setfuncs \<Rightarrow> string \<Rightarrow> bool \<Rightarrow> routines \<Rightarrow> metatables \<Rightarrow> metatables" where
  "register_class luaT_setfuncs name index rs reg =
     AList.update name (luaT_setfuncs rs ((if index then set_field ''__index'' Self else id) (newmetatable name reg))) reg"

definition set_channel_table :: "fields \<Rightarrow> fields" where
  "set_channel_table t = set_field ''channel''
     (CallableTable [(''OPEN'', STATUS_OPEN), (''CLOSED'', STATUS_CLOSED), (''DRAINED'', STATUS_DRAINED)] [(''__call'', ''channel_create'')]) t"

text \<open>What the process does on a signal: the default, or nothing.\<close>

datatype disposition = SigDfl | SigIgn

definition SIGPIPE :: int where "SIGPIPE = 13"

text \<open>
  \<open>luaopen_libipc\<close>: the metatables, the dispositions of the signals, of which that of \<open>SIGPIPE\<close> is set, and the module table. The calls that add the tensor methods are \<open>Lcliser_CharInit\<close> and so on, which register
  methods of torch's classes and are left out here.
\<close>

definition luaopen_libipc ::
    "setfuncs \<Rightarrow> metatables \<times> (int \<Rightarrow> disposition) \<Rightarrow> (metatables \<times> (int \<Rightarrow> disposition)) \<times> fields" where
  "luaopen_libipc luaT_setfuncs = (\<lambda>(reg, sigs).
     (let sigs = sigs(SIGPIPE := SigIgn);
          reg = register_class luaT_setfuncs ''ipc.workqueue'' True workqueue_routines reg;
          reg = register_class luaT_setfuncs ''ipc.server'' True server_routines reg;
          reg = register_class luaT_setfuncs ''ipc.server.client'' True server_client_routines reg;
          reg = register_class luaT_setfuncs ''ipc.client'' True client_routines reg;
          reg = register_class luaT_setfuncs ''ipc.map'' True map_routines reg;
          reg = register_class luaT_setfuncs ''ipc.spawn'' True spawn_routines reg;
          reg = register_class luaT_setfuncs ''ipc.flock'' True flock_routines reg;
          reg = register_class luaT_setfuncs ''ipc.mutex'' True mutex_routines reg;
          reg = register_class luaT_setfuncs ''ipc.marshal'' True marshal_routines reg;
          reg = register_class luaT_setfuncs ''ipc.sharedtable'' False sharedtable_routines reg;
          reg = register_class luaT_setfuncs ''ipc.channel'' True channel_routines reg in
      ((reg, sigs), set_channel_table (luaT_setfuncs ipc_routines []))))"

definition ipc_is_osx :: "pushed list" where
  "ipc_is_osx = []"

text \<open>\<open>ipc_is_devel\<close> on Linux, with the value of the environment variable.\<close>

definition ipc_is_devel :: "byte list option \<Rightarrow> pushed list" where
  "ipc_is_devel devel_mode = [PBool (case devel_mode of None \<Rightarrow> False | Some str \<Rightarrow> c_string str \<noteq> [] \<and> hd (c_string str) = 49)]"

section \<open>Properties\<close>

text \<open>The name that a \<open>metatablename\<close> function returns.\<close>

definition name_of :: "pushed list \<Rightarrow> string option" where
  "name_of r = (case r of [PStr n] \<Rightarrow> Some n | _ \<Rightarrow> None)"

definition returned_name :: "string \<Rightarrow> string option" where
  "returned_name f = (case map_of
     [(''workqueue_metatablename'', name_of workqueue_metatablename), (''mutex_metatablename'', name_of mutex_metatablename),
      (''sharedtable_metatablename'', name_of sharedtable_metatablename), (''marshal_metatablename'', name_of marshal_metatablename),
      (''channel_metatablename'', name_of channel_metatablename),
      (''cliser_client_metatablename'', Some (map (char_of \<circ> unat) cliser_client_metatablename))] f of None \<Rightarrow> None | Some n \<Rightarrow> n)"

text \<open>
  A class can travel between Lua states when its \<open>metatablename\<close> function returns the name under which it is registered, and the method that
  counts the new reference and the finalizer that gives it back are those of the same component.
\<close>

definition classes :: "(string \<times> bool \<times> routines) list" where
  "classes =
     [(''ipc.workqueue'', True, workqueue_routines), (''ipc.server'', True, server_routines), (''ipc.server.client'', True, server_client_routines),
      (''ipc.client'', True, client_routines), (''ipc.map'', True, map_routines), (''ipc.spawn'', True, spawn_routines),
      (''ipc.flock'', True, flock_routines), (''ipc.mutex'', True, mutex_routines), (''ipc.marshal'', True, marshal_routines),
      (''ipc.sharedtable'', False, sharedtable_routines), (''ipc.channel'', True, channel_routines)]"

definition stem :: "string \<Rightarrow> string" where
  "stem f = take (length f - length ''_metatablename'') f"

definition travels :: "string \<times> bool \<times> routines \<Rightarrow> bool" where
  "travels = (\<lambda>(name, index, rs). (case map_of rs ''metatablename'' of
       None \<Rightarrow> False
     | Some f \<Rightarrow> returned_name f = Some name \<and> map_of rs ''retain'' = Some (stem f @ ''_retain'') \<and>
         map_of rs ''__gc'' \<in> {Some (stem f @ ''_gc''), Some (stem f @ ''_close'')}))"

lemma travelling_classes:
  "map fst (filter travels classes) =
     [''ipc.workqueue'', ''ipc.client'', ''ipc.mutex'', ''ipc.marshal'', ''ipc.sharedtable'', ''ipc.channel'']"
  by code_simp

text \<open>A class is registered when each of its methods is bound to its function.\<close>

definition has_class :: "metatables \<Rightarrow> string \<times> bool \<times> routines \<Rightarrow> bool" where
  "has_class reg = (\<lambda>(name, index, rs). (case map_of reg name of None \<Rightarrow> False | Some t \<Rightarrow>
     (index \<longrightarrow> map_of t ''__index'' = Some Self) \<and> list_all (\<lambda>(m, f). map_of t m = Some (CFun f)) rs))"

definition class_ok :: "string \<times> bool \<times> routines \<Rightarrow> bool" where
  "class_ok = (\<lambda>(name, index, rs). distinct (map fst rs) \<and> (index \<longrightarrow> ''__index'' \<notin> fst ` set rs))"

lemma setfuncs_ok_eq: "setfuncs_ok f \<Longrightarrow> f = set_all"
  unfolding setfuncs_ok_def by blast

abbreviation register_all :: "(string \<times> bool \<times> routines) list \<Rightarrow> metatables \<Rightarrow> metatables" where
  "register_all cs \<equiv> fold (\<lambda>(name, index, rs). register_class set_all name index rs) cs"

lemma luaopen_classes:
  "luaopen_libipc set_all (reg, sigs) =
     ((register_all classes reg, sigs(SIGPIPE := SigIgn)), set_channel_table (set_all ipc_routines []))"
  by (simp add: luaopen_libipc_def classes_def)

lemma map_of_set_all:
  "distinct (map fst rs) \<Longrightarrow> map_of (set_all rs t) m = (case map_of rs m of None \<Rightarrow> map_of t m | Some f \<Rightarrow> Some (CFun f))"
proof (induction rs arbitrary: t)
  case (Cons r rs)
  then have "map_of rs (fst r) = None" by (simp add: map_of_eq_None_iff)
  with Cons.IH [of "set_field (fst r) (CFun (snd r)) t"] Cons.prems show ?case
    by (cases r) (auto simp: set_all_def set_field_def update_conv' split: option.split)
qed (simp add: set_all_def)

lemma has_class_register:
  "class_ok (name, index, rs) \<Longrightarrow> has_class (register_class set_all name index rs reg) (name, index, rs)"
  by (auto simp: class_ok_def has_class_def register_class_def update_conv' map_of_set_all set_field_def list_all_iff
      split: option.splits) (auto simp: rev_image_eqI dest: map_of_SomeD)

lemma register_other: "name' \<noteq> name \<Longrightarrow> map_of (register_class set_all name index rs reg) name' = map_of reg name'"
  by (simp add: register_class_def update_conv')

lemma register_all_other: "name \<notin> fst ` set cs \<Longrightarrow> map_of (register_all cs reg) name = map_of reg name"
  by (induction cs arbitrary: reg) (auto simp: register_other)

lemma register_all_has: "distinct (map fst cs) \<Longrightarrow> list_all class_ok cs \<Longrightarrow> list_all (has_class (register_all cs reg)) cs"
proof (induction cs arbitrary: reg)
  case (Cons c cs)
  obtain name index rs where c: "c = (name, index, rs)" by (cases c)
  from Cons.prems have "map_of (register_all cs (register_class set_all name index rs reg)) name =
      map_of (register_class set_all name index rs reg) name" by (intro register_all_other) (simp add: c)
  with has_class_register [of name index rs reg] Cons show ?case by (simp add: c has_class_def)
qed simp

lemma set_all_again: "list_all (\<lambda>(m, f). map_of t m = Some (CFun f)) rs \<Longrightarrow> set_all rs t = t"
  unfolding set_all_def by (induction rs) (auto simp: set_field_def update_triv)

lemma register_again: "has_class reg (name, index, rs) \<Longrightarrow> register_class set_all name index rs reg = reg"
  by (auto simp: has_class_def register_class_def newmetatable_def set_field_def set_all_again update_triv split: option.splits)

lemma register_all_again: "list_all (has_class reg) cs \<Longrightarrow> register_all cs reg = reg"
  by (induction cs) (auto simp: register_again)

text \<open>
  Loading the library into any Lua state binds the methods of every class to its functions, leaves the metatables of others alone and ignores
  \<open>SIGPIPE\<close>, so that a write to a closed socket is an error and not the end of the process. Loading it again, as each new thread may, changes nothing.
\<close>

theorem libipc_loaded:
  assumes "setfuncs_ok luaT_setfuncs" and "luaopen_libipc luaT_setfuncs (reg, sigs) = ((reg', sigs'), m)"
  shows "list_all (has_class reg') classes \<and> (\<forall>name. name \<notin> fst ` set classes \<longrightarrow> map_of reg' name = map_of reg name) \<and>
    sigs' = sigs(SIGPIPE := SigIgn) \<and> luaopen_libipc luaT_setfuncs (reg', sigs') = ((reg', sigs'), m)"
proof -
  have eq: "reg' = register_all classes reg" "sigs' = sigs(SIGPIPE := SigIgn)" "m = set_channel_table (set_all ipc_routines [])"
    using assms(2) by (simp_all add: setfuncs_ok_eq [OF assms(1)] luaopen_classes)
  have "distinct (map fst classes)" "list_all class_ok classes" by code_simp+
  from register_all_has [OF this, of reg] have has: "list_all (has_class reg') classes" by (simp add: eq)
  then show ?thesis
    using register_all_again [OF has] by (simp add: eq register_all_other setfuncs_ok_eq [OF assms(1)] luaopen_classes)
qed

end
