(* ===== verification/Tensor.thy ===== *)
theory Tensor
  imports Cliser
begin

text \<open>
  Storages and tensors over a socket, \<^verbatim>\<open>src/generic/cliser.c\<close>. The file is compiled once for each element type; here the size \<open>es\<close> of an element in bytes is an
  argument, and so is the transfer of a block of elements, which is another one for the memory of a GPU (\<open>TensorCuda\<close>). A tensor that is not contiguous is sent in
  blocks, which the code makes as long as it can; the contract is that the elements arrive in the order of their indices, however they are cut into
  blocks.
\<close>

section \<open>Model\<close>

text \<open>
  A storage is its number of elements and their bytes; a tensor has the sizes and strides of its dimensions, a storage or none, and the number of the
  first element in it. Sizes, strides and offsets are of type \<open>long\<close>; a product of them is at most the size of a storage where the code
  computes one.
\<close>

record storage =
  st_size :: int
  st_data :: "byte list"

record tensor =
  dims :: "(int \<times> int) list"
  storage_offset :: int
  t_storage :: "storage option"

text \<open>\<open>THTensor_(isContiguous)\<close> and \<open>THTensor_(nElement)\<close> are functions of torch.\<close>

record th_tensor =
  isContiguous :: "(int \<times> int) list \<Rightarrow> bool"
  nElement :: "(int \<times> int) list \<Rightarrow> int"

type_synonym 'a transfer_result = "(copy_context \<times> os, 'a) net_result"

text \<open>The bytes of \<open>cnt\<close> elements at the pointer \<open>ptr\<close> into the data of a storage, and storing such bytes.\<close>

definition in_bounds :: "nat \<Rightarrow> byte list \<Rightarrow> int \<Rightarrow> int \<Rightarrow> bool" where
  "in_bounds es data ptr cnt \<longleftrightarrow> 0 \<le> ptr \<and> 0 \<le> cnt \<and> (ptr + cnt) * int es \<le> int (length data)"

definition elems :: "nat \<Rightarrow> byte list \<Rightarrow> int \<Rightarrow> int \<Rightarrow> byte list" where
  "elems es data ptr cnt = take (nat cnt * es) (drop (nat ptr * es) data)"

definition store_bytes :: "byte list \<Rightarrow> nat \<Rightarrow> byte list \<Rightarrow> byte list" where
  "store_bytes data pos bs = take pos data @ bs @ drop (pos + length bs) data"

definition write_contiguous :: "kernel \<Rightarrow> nat \<Rightarrow> cint \<Rightarrow> byte list \<Rightarrow> int \<Rightarrow> int \<Rightarrow> copy_context \<times> os \<Rightarrow> unit transfer_result" where
  "write_contiguous K es sock data ptr cnt cs =
     (if in_bounds es data ptr cnt then sock_send_raw K sock (elems es data ptr cnt) cs else Some (Abort OutOfBounds))"

text \<open>Reading changes the data, which are part of the state.\<close>

type_synonym read_state = "byte list \<times> copy_context \<times> os"

definition read_contiguous :: "kernel \<Rightarrow> nat \<Rightarrow> cint \<Rightarrow> int \<Rightarrow> int \<Rightarrow> read_state \<Rightarrow> (read_state, unit) net_result" where
  "read_contiguous K es sock ptr cnt = (\<lambda>(data, cs).
     (if in_bounds es data ptr cnt then
        (case sock_recv_raw K sock (of_nat (nat cnt * es)) cs of
           None \<Rightarrow> None
         | Some (Ret bs cs) \<Rightarrow> Some (Ret () (store_bytes data (nat ptr * es) bs, cs))
         | Some (Raise e cs) \<Rightarrow> Some (Raise e (data, cs))
         | Some (Abort f) \<Rightarrow> Some (Abort f))
      else Some (Abort OutOfBounds)))"

text \<open>
  What the rest of the code uses of a connection: sending and receiving bytes, the flag of the copy context, and the transfer of elements that lie one after the other, which has
  another body in the instance of the file for CUDA.
\<close>

record 's transport =
  send_raw :: "byte list \<Rightarrow> 's \<Rightarrow> ('s, unit) net_result"
  recv_raw :: "size_t \<Rightarrow> 's \<Rightarrow> ('s, byte list) net_result"
  fastpath :: "'s \<Rightarrow> cint"
  write_block :: "byte list \<Rightarrow> int \<Rightarrow> int \<Rightarrow> 's \<Rightarrow> ('s, unit) net_result"
  read_block :: "int \<Rightarrow> int \<Rightarrow> byte list \<times> 's \<Rightarrow> (byte list \<times> 's, unit) net_result"

definition host_transport :: "kernel \<Rightarrow> nat \<Rightarrow> cint \<Rightarrow> (copy_context \<times> os) transport" where
  "host_transport K es sock =
     \<lparr>send_raw = sock_send_raw K sock, recv_raw = sock_recv_raw K sock, fastpath = (\<lambda>(cc, s). use_fastpath cc),
      write_block = write_contiguous K es sock, read_block = read_contiguous K es sock\<rparr>"

definition long_bytes :: "int list \<Rightarrow> byte list" where
  "long_bytes xs = concat (map (\<lambda>x. le_bytes 8 (of_int x :: 64 word)) xs)"

text \<open>The \<open>i\<close>-th number of a header.\<close>

definition long_at :: "byte list \<Rightarrow> nat \<Rightarrow> int" where
  "long_at header i = sint (le_word (take 8 (drop (8 * i) header)) :: 64 word)"

definition storage_write :: "'s transport \<Rightarrow> nat \<Rightarrow> storage \<Rightarrow> 's \<Rightarrow> ('s, unit) net_result" where
  "storage_write T es st s =
     (case send_raw T (long_bytes [int es, st_size st]) s of
        Some (Ret _ s) \<Rightarrow> write_block T (st_data st) 0 (st_size st) s
      | r \<Rightarrow> r)"

text \<open>The texts of the errors are given without the numbers in them.\<close>

definition storage_read :: "'s transport \<Rightarrow> nat \<Rightarrow> int \<Rightarrow> byte list \<times> 's \<Rightarrow> (byte list \<times> 's, unit) net_result" where
  "storage_read T es len = (\<lambda>(data, s).
     (case recv_raw T 16 s of
        None \<Rightarrow> None
      | Some (Raise e s) \<Rightarrow> Some (Raise e (data, s))
      | Some (Abort f) \<Rightarrow> Some (Abort f)
      | Some (Ret header s) \<Rightarrow>
          if long_at header 0 \<noteq> int es then Some (Raise (LuaErrStr ''storage ELEMENT_SIZE do not match'') (data, s))
          else if long_at header 1 \<noteq> len then Some (Raise (LuaErrStr ''storage size do not match'') (data, s))
          else read_block T 0 len (data, s)))"

text \<open>
  The recursion over the outer dimensions: \<open>ds\<close> are the sizes and strides of the dimensions \<open>dim\<close> to \<open>nDim\<close>, of which the last has nothing
  in \<open>ds\<close> after it, and the loop over one dimension has \<open>n\<close> rounds to go.
\<close>

function tensor_write_noncontiguous_rcsv ::
    "'s transport \<Rightarrow> byte list \<Rightarrow> int \<Rightarrow> (int \<times> int) list \<Rightarrow> int \<Rightarrow> 's \<Rightarrow> ('s, unit) net_result"
  and write_dim ::
    "'s transport \<Rightarrow> byte list \<Rightarrow> int \<Rightarrow> nat \<Rightarrow> int \<Rightarrow> (int \<times> int) list \<Rightarrow> int \<Rightarrow> 's \<Rightarrow> ('s, unit) net_result" where
  "tensor_write_noncontiguous_rcsv T data nDimStride [] ptr s = Some (Ret () s)"
| "tensor_write_noncontiguous_rcsv T data nDimStride ((sz, stride) # ds) ptr s =
     write_dim T data nDimStride (nat sz) stride ds ptr s"
| "write_dim T data nDimStride 0 stride ds ptr s = Some (Ret () s)"
| "write_dim T data nDimStride (Suc n) stride ds ptr s =
     (case (if ds = [] then write_block T data ptr nDimStride s
            else tensor_write_noncontiguous_rcsv T data nDimStride ds ptr s) of
        Some (Ret _ s) \<Rightarrow> write_dim T data nDimStride n stride ds (ptr + stride) s
      | r \<Rightarrow> r)"
  by pat_completeness auto
termination
  by (relation "measures [case_sum (\<lambda>(T, data, b, ds, _). length ds) (\<lambda>(T, data, b, n, st, ds, _). length ds),
      case_sum (\<lambda>_. 0) (\<lambda>(T, data, b, n, st, ds, _). n + 1)]") auto

function tensor_read_noncontiguous_rcsv ::
    "'s transport \<Rightarrow> int \<Rightarrow> (int \<times> int) list \<Rightarrow> int \<Rightarrow> byte list \<times> 's \<Rightarrow> (byte list \<times> 's, unit) net_result"
  and read_dim ::
    "'s transport \<Rightarrow> int \<Rightarrow> nat \<Rightarrow> int \<Rightarrow> (int \<times> int) list \<Rightarrow> int \<Rightarrow> byte list \<times> 's \<Rightarrow> (byte list \<times> 's, unit) net_result" where
  "tensor_read_noncontiguous_rcsv T nDimStride [] ptr rs = Some (Ret () rs)"
| "tensor_read_noncontiguous_rcsv T nDimStride ((sz, stride) # ds) ptr rs =
     read_dim T nDimStride (nat sz) stride ds ptr rs"
| "read_dim T nDimStride 0 stride ds ptr rs = Some (Ret () rs)"
| "read_dim T nDimStride (Suc n) stride ds ptr rs =
     (case (if ds = [] then read_block T ptr nDimStride rs
            else tensor_read_noncontiguous_rcsv T nDimStride ds ptr rs) of
        Some (Ret _ rs) \<Rightarrow> read_dim T nDimStride n stride ds (ptr + stride) rs
      | r \<Rightarrow> r)"
  by pat_completeness auto
termination
  by (relation "measures [case_sum (\<lambda>(T, b, ds, _). length ds) (\<lambda>(T, b, n, st, ds, _). length ds),
      case_sum (\<lambda>_. 0) (\<lambda>(T, b, n, st, ds, _). n + 1)]") auto

text \<open>
  The loop that joins inner dimensions as long as they lie one after the other: \<open>rds\<close> are the dimensions from \<open>i\<close> down to 0. The
  result is the number of elements of a block and the dimensions that are left.
\<close>

fun merge_dims :: "int \<Rightarrow> (int \<times> int) list \<Rightarrow> int \<times> (int \<times> int) list" where
  "merge_dims bc [] = (bc, [])"
| "merge_dims bc ((sz, stride) # rds) = (if bc = stride then merge_dims (bc * sz) rds else (bc, (sz, stride) # rds))"

text \<open>The plan of a transfer that is not contiguous: an error, or the length of the blocks and the outer dimensions.\<close>

definition blocks_of :: "(int \<times> int) list \<Rightarrow> string + int \<times> (int \<times> int) list" where
  "blocks_of ds =
     (if length ds < 2 then Inl ''not implemented''
      else if snd (last ds) \<noteq> 1 then Inl ''not implemented''
      else (case merge_dims (fst (last ds)) (rev (butlast ds)) of (bc, rds) \<Rightarrow>
        if rds = [] then Inl ''unreachable'' else Inr (bc, rev rds)))"

definition tensor_flags :: "nat \<Rightarrow> bool \<Rightarrow> cint \<Rightarrow> 64 word" where
  "tensor_flags es bc fast =
     or (or (and (if bc then 1 else 0) 1) (and (scast (push_bit 1 fast)) 2)) (and (push_bit 4 (of_nat es)) 0xF0)"

definition tensor_header :: "nat \<Rightarrow> bool \<Rightarrow> cint \<Rightarrow> (int \<times> int) list \<Rightarrow> byte list" where
  "tensor_header es bc fast ds =
     le_bytes 8 (tensor_flags es bc fast) @ long_bytes (concat (map (\<lambda>(sz, stride). [sz, stride]) ds))"

definition tensor_write :: "'s transport \<Rightarrow> th_tensor \<Rightarrow> nat \<Rightarrow> tensor \<Rightarrow> 's \<Rightarrow> ('s, unit) net_result" where
  "tensor_write T TH es t s =
     (let bc = isContiguous TH (dims t); ne = nElement TH (dims t) in
      (case send_raw T (tensor_header es bc (fastpath T s) (dims t)) s of
         Some (Ret _ s) \<Rightarrow>
           if bc then
             (case t_storage t of
                Some st \<Rightarrow> write_block T (st_data st) (storage_offset t) ne s
              | None \<Rightarrow> Some (Ret () s))
           else (case blocks_of (dims t) of
               Inl e \<Rightarrow> Some (Raise (LuaErrStr e) s)
             | Inr (bc, ds) \<Rightarrow>
                 (case t_storage t of
                    Some st \<Rightarrow> tensor_write_noncontiguous_rcsv T (st_data st) bc ds (storage_offset t) s
                  | None \<Rightarrow> Some (Abort OutOfBounds)))
       | r \<Rightarrow> r))"

text \<open>The comparison of the header with the own tensor, up to the first difference.\<close>

fun check_dims :: "byte list \<Rightarrow> nat \<Rightarrow> (int \<times> int) list \<Rightarrow> string option" where
  "check_dims header i [] = None"
| "check_dims header i ((sz, stride) # ds) =
     (if long_at header (2 * i + 1) \<noteq> sz then Some ''size of dimension mismatch''
      else if long_at header (2 * i + 2) \<noteq> stride then Some ''stride of dimension mismatch''
      else check_dims header (i + 1) ds)"

definition check_header :: "nat \<Rightarrow> bool \<Rightarrow> cint \<Rightarrow> (int \<times> int) list \<Rightarrow> byte list \<Rightarrow> string option" where
  "check_header es bc fast ds header =
     (let flags = of_int (long_at header 0) :: 64 word in
      if and flags 1 \<noteq> (if bc then 1 else 0) then Some ''isContiguous mismatch''
      else if drop_bit 1 (and flags 2) \<noteq> scast fast then Some ''use_fastpath mismatch''
      else if drop_bit 4 (and flags 0xF0) \<noteq> of_nat es then Some ''ELEMENT_SIZE mismatch''
      else check_dims header 0 ds)"

text \<open>Reading a tensor gives it new data in its storage.\<close>

definition with_data :: "byte list \<Rightarrow> tensor \<Rightarrow> tensor" where
  "with_data data t = t\<lparr>t_storage := map_option (\<lambda>st. st\<lparr>st_data := data\<rparr>) (t_storage t)\<rparr>"

definition put_data :: "tensor \<Rightarrow> (byte list \<times> 's, unit) net_result \<Rightarrow> (tensor \<times> 's, unit) net_result" where
  "put_data t r = (case r of
      None \<Rightarrow> None
    | Some (Ret u (data, s)) \<Rightarrow> Some (Ret u (with_data data t, s))
    | Some (Raise e (data, s)) \<Rightarrow> Some (Raise e (with_data data t, s))
    | Some (Abort f) \<Rightarrow> Some (Abort f))"

definition tensor_read :: "'s transport \<Rightarrow> th_tensor \<Rightarrow> nat \<Rightarrow> tensor \<times> 's \<Rightarrow> (tensor \<times> 's, unit) net_result" where
  "tensor_read T TH es = (\<lambda>(t, s).
     (let bc = isContiguous TH (dims t); ne = nElement TH (dims t) in
      (case recv_raw T (of_nat (8 * (2 * length (dims t) + 1))) s of
         None \<Rightarrow> None
       | Some (Raise e s) \<Rightarrow> Some (Raise e (t, s))
       | Some (Abort f) \<Rightarrow> Some (Abort f)
       | Some (Ret header s) \<Rightarrow>
           (case check_header es bc (fastpath T s) (dims t) header of
              Some e \<Rightarrow> Some (Raise (LuaErrStr e) (t, s))
            | None \<Rightarrow>
                if bc then
                  (case t_storage t of
                     Some st \<Rightarrow> put_data t (read_block T (storage_offset t) ne (st_data st, s))
                   | None \<Rightarrow> Some (Ret () (t, s)))
                else (case blocks_of (dims t) of
                    Inl e \<Rightarrow> Some (Raise (LuaErrStr e) (t, s))
                  | Inr (bc, ds) \<Rightarrow>
                      (case t_storage t of
                         Some st \<Rightarrow> put_data t (tensor_read_noncontiguous_rcsv T bc ds (storage_offset t) (st_data st, s))
                       | None \<Rightarrow> Some (Abort OutOfBounds)))))))"

text \<open>
  \<open>Lcliser_(Init)\<close> for the seven element types: the methods \<open>_cliser_write\<close> and \<open>_cliser_read\<close> of the storages and tensors of a type, where torch has
  registered the class. The objects of a process are found by the pointer of their userdata; \<open>luaT_checkudata\<close> raises an error for an object of
  another class.
\<close>

datatype torch_obj = TorchStorage storage | TorchTensor tensor

type_synonym torch_heap = "pointer \<Rightarrow> torch_obj option"

definition ascii :: "string \<Rightarrow> byte list" where
  "ascii = map of_char"

definition element_types :: "(byte list \<times> nat) list" where
  "element_types = [(ascii ''Char'', 1), (ascii ''Byte'', 1), (ascii ''Short'', 2), (ascii ''Int'', 4), (ascii ''Long'', 8), (ascii ''Float'', 4),
     (ascii ''Double'', 8)]"

text \<open>The class of a name: the size of an element, and whether it is a tensor.\<close>

definition class_table :: "(byte list \<times> nat \<times> bool) list" where
  "class_table = concat (map (\<lambda>(n, es). [(ascii ''torch.'' @ n @ ascii ''Storage'', es, False), (ascii ''torch.'' @ n @ ascii ''Tensor'', es, True)])
     element_types)"

definition put_object :: "pointer \<Rightarrow> torch_heap \<Rightarrow> (torch_obj \<times> copy_context \<times> os, unit) net_result \<Rightarrow> (torch_heap transfer_state, unit) net_result" where
  "put_object p h r = map_option (\<lambda>r. case r of
      Ret u (obj, cc, s) \<Rightarrow> Ret u (cc, s, h(p \<mapsto> obj))
    | Raise e (obj, cc, s) \<Rightarrow> Raise e (cc, s, h(p \<mapsto> obj))
    | Abort f \<Rightarrow> Abort f) r"

definition with_object :: "torch_obj \<Rightarrow> 'a transfer_result \<Rightarrow> (torch_obj \<times> copy_context \<times> os, 'a) net_result" where
  "with_object obj r = map_option (\<lambda>r. case r of
      Ret u cs \<Rightarrow> Ret u (obj, cs) | Raise e cs \<Rightarrow> Raise e (obj, cs) | Abort f \<Rightarrow> Abort f) r"

definition as_tensor :: "(tensor \<times> copy_context \<times> os, unit) net_result \<Rightarrow> (torch_obj \<times> copy_context \<times> os, unit) net_result" where
  "as_tensor r = map_option (\<lambda>r. case r of
      Ret u (t, cs) \<Rightarrow> Ret u (TorchTensor t, cs) | Raise e (t, cs) \<Rightarrow> Raise e (TorchTensor t, cs) | Abort f \<Rightarrow> Abort f) r"

definition as_storage :: "storage \<Rightarrow> (read_state, unit) net_result \<Rightarrow> (torch_obj \<times> copy_context \<times> os, unit) net_result" where
  "as_storage st r = map_option (\<lambda>r. case r of
      Ret u (data, cs) \<Rightarrow> Ret u (TorchStorage (st\<lparr>st_data := data\<rparr>), cs)
    | Raise e (data, cs) \<Rightarrow> Raise e (TorchStorage (st\<lparr>st_data := data\<rparr>), cs)
    | Abort f \<Rightarrow> Abort f) r"

definition write_method :: "kernel \<Rightarrow> th_tensor \<Rightarrow> nat \<Rightarrow> bool \<Rightarrow> pointer \<Rightarrow> torch_heap transfer" where
  "write_method K TH es is_tensor p x sock = (\<lambda>(cc, s, h).
     (case (is_tensor, h p) of
        (False, Some (TorchStorage st)) \<Rightarrow> put_object p h (with_object (TorchStorage st) (storage_write (host_transport K es sock) es st (cc, s)))
      | (True, Some (TorchTensor t)) \<Rightarrow> put_object p h (with_object (TorchTensor t) (tensor_write (host_transport K es sock) TH es t (cc, s)))
      | _ \<Rightarrow> Some (Raise (LuaErrStr ''bad argument'') (cc, s, h))))"

definition read_method :: "kernel \<Rightarrow> th_tensor \<Rightarrow> nat \<Rightarrow> bool \<Rightarrow> pointer \<Rightarrow> torch_heap transfer" where
  "read_method K TH es is_tensor p x sock = (\<lambda>(cc, s, h).
     (case (is_tensor, h p) of
        (False, Some (TorchStorage st)) \<Rightarrow> put_object p h (as_storage st (storage_read (host_transport K es sock) es (st_size st) (st_data st, cc, s)))
      | (True, Some (TorchTensor t)) \<Rightarrow> put_object p h (as_tensor (tensor_read (host_transport K es sock) TH es (t, cc, s)))
      | _ \<Rightarrow> Some (Raise (LuaErrStr ''bad argument'') (cc, s, h))))"

definition Lcliser_Init :: "kernel \<Rightarrow> th_tensor \<Rightarrow> (byte list \<Rightarrow> bool) \<Rightarrow> torch_heap methods" where
  "Lcliser_Init K TH registered =
     (let find = (\<lambda>f v. case v of
          LUserdata (TorchClass n) p \<Rightarrow>
            (case map_of class_table n of Some (es, is_tensor) \<Rightarrow> if registered n then Some (f es is_tensor p) else None | None \<Rightarrow> None)
        | _ \<Rightarrow> None) in
      \<lparr>m_write = find (write_method K TH), m_read = find (read_method K TH)\<rparr>)"

section \<open>The order of the elements\<close>

text \<open>The elements of a tensor in the order of their indices, the last one running fastest, from the first element at \<open>p\<close>.\<close>

fun offsets :: "(int \<times> int) list \<Rightarrow> int \<Rightarrow> int list" where
  "offsets [] p = [p]"
| "offsets ((sz, stride) # ds) p = concat (map (\<lambda>i. offsets ds (p + int i * stride)) [0..<nat sz])"

fun elements :: "(int \<times> int) list \<Rightarrow> int" where
  "elements [] = 1"
| "elements ((sz, stride) # ds) = sz * elements ds"

definition run :: "int \<Rightarrow> int \<Rightarrow> int list" where
  "run p n = map (\<lambda>i. p + int i) [0..<nat n]"

lemma concat_map_concat: "concat (map f (concat xss)) = concat (map (\<lambda>xs. concat (map f xs)) xss)"
  by (induction xss) auto

lemma offsets_append: "offsets (ds @ es) p = concat (map (offsets es) (offsets ds p))"
proof (induction ds arbitrary: p)
  case (Cons d ds)
  obtain sz stride where d: "d = (sz, stride)" by (cases d)
  show ?case using Cons by (simp add: d concat_map_concat comp_def)
qed simp

lemma offsets_shift: "offsets ds (p + q) = map (\<lambda>r. p + r) (offsets ds q)"
proof (induction ds arbitrary: q)
  case (Cons d ds)
  obtain sz stride where d: "d = (sz, stride)" by (cases d)
  show ?case using Cons.IH by (simp add: d map_concat comp_def add.assoc)
qed simp

text \<open>A tensor is packed when the elements lie one after the other in their order; dimensions of size one do not matter.\<close>

fun packed :: "(int \<times> int) list \<Rightarrow> bool" where
  "packed [] = True"
| "packed ((sz, stride) # ds) \<longleftrightarrow> packed ds \<and> (sz = 1 \<or> stride = elements ds)"

definition sizes_ok :: "(int \<times> int) list \<Rightarrow> bool" where
  "sizes_ok ds \<longleftrightarrow> list_all (\<lambda>d. 0 < fst d) ds"

lemma elements_pos: "sizes_ok ds \<Longrightarrow> 0 < elements ds"
  by (induction ds rule: elements.induct) (auto simp: sizes_ok_def)

lemma run_add:
  assumes "0 \<le> a" and "0 \<le> b"
  shows "run p (a + b) = run p a @ run (p + a) b"
proof -
  have "[0..<nat (a + b)] = [0..<nat a] @ map (\<lambda>i. i + nat a) [0..<nat b]"
    using assms upt_add_eq_append [of 0 "nat a" "nat b"] by (simp add: nat_add_distrib map_add_upt add.commute)
  then show ?thesis using assms by (simp only: run_def map_append map_map) (simp add: comp_def add.assoc add.commute)
qed

lemma concat_runs: "0 < c \<Longrightarrow> concat (map (\<lambda>i. run (p + int i * c) c) [0..<n]) = run p (int n * c)"
proof (induction n)
  case 0
  then show ?case by (simp add: run_def)
next
  case (Suc n)
  have "run p (int n * c + c) = run p (int n * c) @ run (p + int n * c) c" using Suc.prems by (intro run_add) auto
  with Suc show ?case by (simp add: distrib_right add.commute)
qed

lemma packed_offsets: "packed ds \<Longrightarrow> sizes_ok ds \<Longrightarrow> offsets ds p = run p (elements ds)"
proof (induction ds arbitrary: p)
  case Nil
  then show ?case by (simp add: run_def)
next
  case (Cons d ds)
  obtain sz stride where d: "d = (sz, stride)" by (cases d)
  have "sizes_ok ds" "0 < sz" using Cons.prems(2) by (auto simp: sizes_ok_def d)
  then have off: "offsets ds q = run q (elements ds)" for q using Cons by (simp add: d)
  show ?case
  proof (cases "sz = 1")
    case True
    then show ?thesis by (simp add: d off)
  next
    case False
    then have "stride = elements ds" using Cons.prems(1) by (simp add: d)
    then show ?thesis
      using concat_runs [OF elements_pos [OF \<open>sizes_ok ds\<close>], of p "nat sz"] \<open>0 < sz\<close> by (simp add: d off)
  qed
qed

lemma elements_append: "elements (ds @ es) = elements ds * elements es"
  by (induction ds rule: elements.induct) auto

text \<open>The joined dimensions are packed; what is left is outside of them.\<close>

lemma merge_dims_spec:
  "merge_dims bc rds = (bc', rds') \<Longrightarrow> packed inner \<Longrightarrow> elements inner = bc \<Longrightarrow>
     \<exists>inner'. rev rds @ inner = rev rds' @ inner' \<and> packed inner' \<and> elements inner' = bc'"
proof (induction bc rds arbitrary: inner rule: merge_dims.induct)
  case (2 bc sz stride rds)
  show ?case
  proof (cases "bc = stride")
    case True
    then show ?thesis using 2 by (auto simp: mult.commute intro!: "2.IH" [of "(sz, stride) # inner", simplified])
  next
    case False
    then show ?thesis using 2 by auto
  qed
qed auto

lemma blocks_of_spec:
  assumes "2 \<le> length ds" and "snd (last ds) = 1" and "\<not> packed ds"
  obtains bc outer inner where "blocks_of ds = Inr (bc, outer)" and "outer \<noteq> []" and "ds = outer @ inner" and "packed inner" and "elements inner = bc"
proof -
  obtain sz where l: "last ds = (sz, 1)" using assms(2) by (cases "last ds") auto
  obtain bc rds where m: "merge_dims sz (rev (butlast ds)) = (bc, rds)" by (cases "merge_dims sz (rev (butlast ds))")
  have ds: "butlast ds @ [(sz, 1)] = ds" using assms(1) l by (metis append_butlast_last_id length_0_conv not_numeral_le_zero)
  from merge_dims_spec [OF m, of "[(sz, 1)]"] obtain inner where
      i: "ds = rev rds @ inner" "packed inner" "elements inner = bc" using ds by auto
  then have "rds \<noteq> []" using assms(3) by auto
  with m i assms(1,2) l show thesis by (intro that [of bc "rev rds" inner]) (simp_all add: blocks_of_def)
qed

text \<open>The plan of a transfer: where its blocks begin, from an offset of 0, and how long they are.\<close>

definition plan :: "(int \<times> int) list \<Rightarrow> int list \<times> int" where
  "plan ds = (if packed ds then ([0], elements ds) else (case blocks_of ds of Inr (bc, outer) \<Rightarrow> (offsets outer 0, bc) | Inl e \<Rightarrow> ([], 0)))"

definition sendable_shape :: "(int \<times> int) list \<Rightarrow> bool" where
  "sendable_shape ds \<longleftrightarrow> ds \<noteq> [] \<and> sizes_ok ds \<and> (packed ds \<or> 2 \<le> length ds \<and> snd (last ds) = 1)"

lemma plan_offsets:
  assumes "sendable_shape ds" and "plan ds = (ps, bc)"
  shows "offsets ds 0 = concat (map (\<lambda>p. run p bc) ps)" and "0 < bc" and "bc \<le> elements ds"
proof -
  have pos: "sizes_ok ds" using assms(1) by (simp add: sendable_shape_def)
  have "offsets ds 0 = concat (map (\<lambda>p. run p bc) ps) \<and> 0 < bc \<and> bc \<le> elements ds"
  proof (cases "packed ds")
    case True
    then show ?thesis using packed_offsets [OF True pos, of 0] elements_pos [OF pos] assms(2) by (auto simp: plan_def)
  next
    case False
    then have "2 \<le> length ds" "snd (last ds) = 1" using assms(1) by (auto simp: sendable_shape_def)
    then obtain b outer inner where b: "blocks_of ds = Inr (b, outer)" "ds = outer @ inner" "packed inner" "elements inner = b"
      using blocks_of_spec [OF _ _ False] by metis
    have "sizes_ok inner" "sizes_ok outer" using pos b(2) by (simp_all add: sizes_ok_def)
    then have "offsets inner = (\<lambda>q. run q b)" "0 < b" using packed_offsets [OF b(3)] b(4) elements_pos by auto
    moreover have "ps = offsets outer 0" "bc = b" using assms(2) False b(1) by (simp_all add: plan_def)
    moreover have "offsets ds 0 = concat (map (offsets inner) (offsets outer 0))" by (simp add: b(2) offsets_append)
    moreover have "b \<le> elements ds"
      using elements_pos [OF \<open>sizes_ok outer\<close>] elements_pos [OF \<open>sizes_ok inner\<close>] b(2,4) by (simp add: elements_append mult_le_cancel_right1)
    ultimately show ?thesis by simp
  qed
  then show "offsets ds 0 = concat (map (\<lambda>p. run p bc) ps)" and "0 < bc" and "bc \<le> elements ds" by auto
qed

section \<open>Visiting the blocks\<close>

text \<open>
  The two recursions over the outer dimensions differ only in what they do with a block. Their contract is that they visit the blocks in the order of
  the indices and stop at the first that fails.
\<close>

locale block_walk =
  fixes visit :: "int \<Rightarrow> 's \<Rightarrow> ('s, unit) net_result"
    and rcsv :: "(int \<times> int) list \<Rightarrow> int \<Rightarrow> 's \<Rightarrow> ('s, unit) net_result"
    and dim :: "nat \<Rightarrow> int \<Rightarrow> (int \<times> int) list \<Rightarrow> int \<Rightarrow> 's \<Rightarrow> ('s, unit) net_result"
  assumes rcsv_dim: "rcsv ((sz, stride) # ds) p s = dim (nat sz) stride ds p s"
    and dim_done: "dim 0 stride ds p s = Some (Ret () s)"
    and dim_step: "dim (Suc n) stride ds p s =
      (case (if ds = [] then visit p s else rcsv ds p s) of Some (Ret _ s) \<Rightarrow> dim n stride ds (p + stride) s | r \<Rightarrow> r)"
begin

fun visits :: "int list \<Rightarrow> 's \<Rightarrow> ('s, unit) net_result" where
  "visits [] s = Some (Ret () s)"
| "visits (p # ps) s = (case visit p s of Some (Ret _ s) \<Rightarrow> visits ps s | r \<Rightarrow> r)"

lemma visits_append: "visits (ps @ qs) s = (case visits ps s of Some (Ret _ s) \<Rightarrow> visits qs s | r \<Rightarrow> r)"
  by (induction ps arbitrary: s) (auto split: option.splits lres.splits)

lemma visits_single: "visits [p] s = visit p s"
  by (auto split: option.splits lres.splits)

lemma walk: "ds \<noteq> [] \<Longrightarrow> rcsv ds p s = visits (offsets ds p) s"
proof (induction ds arbitrary: p s)
  case (Cons d ds)
  obtain sz stride where d: "d = (sz, stride)" by (cases d)
  have inner: "(if ds = [] then visit p s else rcsv ds p s) = visits (offsets ds p) s" for p s
    using Cons.IH visits_single by auto
  have "dim n stride ds p s = visits (concat (map (\<lambda>i. offsets ds (p + int i * stride)) [0..<n])) s" for n
  proof (induction n arbitrary: p s)
    case 0
    then show ?case by (simp add: dim_done)
  next
    case (Suc n)
    have "concat (map (\<lambda>i. offsets ds (p + int i * stride)) [0..<Suc n]) =
        offsets ds p @ concat (map (\<lambda>i. offsets ds (p + stride + int i * stride)) [0..<n])"
      unfolding map_upt_Suc by (simp add: algebra_simps)
    then show ?case
      using Suc.IH inner by (simp only: dim_step visits_append)
  qed
  then show ?case by (simp add: d rcsv_dim)
qed simp

end

interpretation writing: block_walk "\<lambda>p. write_block T data p bc"
  "tensor_write_noncontiguous_rcsv T data bc" "write_dim T data bc" for T data bc
  by unfold_locales simp_all

interpretation reading: block_walk "\<lambda>p. read_block T p bc"
  "tensor_read_noncontiguous_rcsv T bc" "read_dim T bc" for T bc
  by unfold_locales simp_all

text \<open>What torch says of its two functions.\<close>

definition th_tensor_ok :: "th_tensor \<Rightarrow> bool" where
  "th_tensor_ok TH \<longleftrightarrow> (\<forall>ds. isContiguous TH ds = packed ds \<and> nElement TH ds = (if ds = [] then 0 else elements ds))"

lemma offsets_from: "offsets ds p = map (\<lambda>r. p + r) (offsets ds 0)"
  using offsets_shift [of ds p 0] by simp

text \<open>After the header both directions follow the plan.\<close>

lemma tensor_write_plan:
  assumes "th_tensor_ok TH" and "sendable_shape (dims t)" and "plan (dims t) = (ps, bc)" and "t_storage t = Some st"
    and "send_raw T (tensor_header es (packed (dims t)) (fastpath T s) (dims t)) s = Some (Ret () s')"
  shows "tensor_write T TH es t s = writing.visits T (st_data st) bc (map (\<lambda>r. storage_offset t + r) ps) s'"
proof (cases "packed (dims t)")
  case True
  then show ?thesis
    using assms by (auto simp: tensor_write_def th_tensor_ok_def plan_def sendable_shape_def writing.visits_single simp del: writing.visits.simps)
next
  case False
  then have "2 \<le> length (dims t)" "snd (last (dims t)) = 1" using assms(2) by (auto simp: sendable_shape_def)
  then obtain b outer where b: "blocks_of (dims t) = Inr (b, outer)" "outer \<noteq> []" using blocks_of_spec [OF _ _ False] by metis
  then show ?thesis
    using assms False writing.walk [OF b(2), of T "st_data st" b "storage_offset t" s'] offsets_from [of outer "storage_offset t"]
    by (simp add: tensor_write_def th_tensor_ok_def plan_def Let_def)
qed

lemma tensor_read_plan:
  assumes "th_tensor_ok TH" and "sendable_shape (dims t)" and "plan (dims t) = (ps, bc)" and "t_storage t = Some st"
    and "recv_raw T (of_nat (8 * (2 * length (dims t) + 1))) s = Some (Ret header s')"
    and "check_header es (packed (dims t)) (fastpath T s') (dims t) header = None"
  shows "tensor_read T TH es (t, s) = put_data t (reading.visits T bc (map (\<lambda>r. storage_offset t + r) ps) (st_data st, s'))"
proof (cases "packed (dims t)")
  case True
  then show ?thesis
    using assms by (auto simp: tensor_read_def th_tensor_ok_def plan_def sendable_shape_def reading.visits_single simp del: reading.visits.simps)
next
  case False
  then have "2 \<le> length (dims t)" "snd (last (dims t)) = 1" using assms(2) by (auto simp: sendable_shape_def)
  then obtain b outer where b: "blocks_of (dims t) = Inr (b, outer)" "outer \<noteq> []" using blocks_of_spec [OF _ _ False] by metis
  then show ?thesis
    using assms False reading.walk [OF b(2), of T b "storage_offset t" "(st_data st, s')"] offsets_from [of outer "storage_offset t"]
    by (simp add: tensor_read_def th_tensor_ok_def plan_def Let_def)
qed

section \<open>Bytes on the way\<close>

lemma sock_send_raw_ok:
  assumes "streams_ok K" and "length bs < 2 ^ 31"
  shows "\<exists>st s'. sock_send_raw K sock bs (cc, s) = Some (Ret () (cc\<lparr>tx := st\<rparr>, s')) \<and> wrote sock bs s s'"
proof -
  have len: "unat (of_nat (length bs) :: size_t) < 2 ^ 31" using assms(2) by (simp add: unat_of_nat_size)
  obtain st' s' where "send_loop K sock bs (tx cc) s = Some (True, st', s')" "wrote sock bs s s'"
    using send_loop_ok [OF assms(1)] by blast
  then show ?thesis by (auto simp: sock_send_raw_def sock_send_def checked_ok [OF len])
qed

lemma sock_recv_raw_ok:
  assumes "streams_ok K" and "length bs < 2 ^ 31" and "incoming s sock = bs @ rest"
  shows "\<exists>st s'. sock_recv_raw K sock (of_nat (length bs)) (cc, s) = Some (Ret bs (cc\<lparr>rx := st\<rparr>, s')) \<and> took sock bs s s'"
proof -
  have len: "unat (of_nat (length bs) :: size_t) = length bs" using assms(2) by (simp add: unat_of_nat_size)
  obtain st' s' where "recv_loop K sock (length bs) [] (rx cc) s = Some (True, bs, st', s')" "took sock bs s s'"
    using recv_loop_ok [OF assms(1,3), of "[]" "rx cc"] by auto
  then show ?thesis using assms(2) by (auto simp: sock_recv_raw_def sock_recv_def len checked_ok)
qed

lemma in_bounds_nat: "in_bounds es data p n \<Longrightarrow> nat p * es + nat n * es \<le> length data"
proof -
  assume "in_bounds es data p n"
  then have "int (nat p * es + nat n * es) \<le> int (length data)" by (simp add: in_bounds_def distrib_right)
  then show ?thesis by linarith
qed

lemma length_elems [simp]: "in_bounds es data p n \<Longrightarrow> length (elems es data p n) = nat n * es"
  using in_bounds_nat [of es data p n] by (simp add: elems_def)

text \<open>Receiving blocks: the data are those of the sender at the same places, from another offset.\<close>

fun put_blocks :: "nat \<Rightarrow> byte list \<Rightarrow> int \<Rightarrow> int \<Rightarrow> int \<Rightarrow> int list \<Rightarrow> byte list \<Rightarrow> byte list" where
  "put_blocks es src from to bc [] data = data"
| "put_blocks es src from to bc (p # ps) data =
     put_blocks es src from to bc ps (store_bytes data (nat (to + p) * es) (elems es src (from + p) bc))"

lemma length_store_bytes [simp]: "pos + length bs \<le> length data \<Longrightarrow> length (store_bytes data pos bs) = length data"
  by (simp add: store_bytes_def)

text \<open>What the blocks leave in the data, byte by byte: byte \<open>k\<close> belongs to element \<open>k div es\<close>.\<close>

lemma in_block:
  assumes "0 < es" and "0 \<le> q" and "0 \<le> n"
  shows "nat q * es \<le> k \<and> k < nat q * es + nat n * es \<longleftrightarrow> q \<le> int k div int es \<and> int k div int es < q + n"
proof -
  have le: "m \<le> int k div int es \<longleftrightarrow> m * int es \<le> int k" for m
  proof
    assume "m \<le> int k div int es"
    then have "m * int es \<le> int k div int es * int es" by (simp add: mult_right_mono)
    also have "\<dots> \<le> int k" using assms(1) by (simp add: div_times_less_eq_dividend flip: zdiv_int of_nat_mult)
    finally show "m * int es \<le> int k" .
  next
    assume "m * int es \<le> int k"
    then have "m * int es div int es \<le> int k div int es" using assms(1) by (intro zdiv_mono1) simp_all
    then show "m \<le> int k div int es" using assms(1) by simp
  qed
  have "q \<le> int k div int es \<longleftrightarrow> q * int es \<le> int k" by (rule le)
  moreover have "int k div int es < q + n \<longleftrightarrow> int k < (q + n) * int es" using le [of "q + n"] by linarith
  moreover have "nat q * es \<le> k \<longleftrightarrow> q * int es \<le> int k" using assms(2) by (metis int_nat_eq of_nat_le_iff of_nat_mult)
  moreover have "k < nat q * es + nat n * es \<longleftrightarrow> int k < (q + n) * int es"
    using assms(2,3) by (metis int_nat_eq nat_add_distrib add_nonneg_nonneg distrib_right of_nat_less_iff of_nat_mult)
  ultimately show ?thesis by blast
qed

lemma nth_store:
  assumes "in_bounds es data q n" and "length bs = nat n * es" and "k < length data"
  shows "store_bytes data (nat q * es) bs ! k = (if nat q * es \<le> k \<and> k < nat q * es + nat n * es then bs ! (k - nat q * es) else data ! k)"
  using in_bounds_nat [OF assms(1)] assms(2,3) by (auto simp: store_bytes_def nth_append)

lemma put_blocks_nth:
  assumes "0 < es"
  shows "list_all (\<lambda>p. in_bounds es src (from + p) bc \<and> in_bounds es data (to + p) bc) ps \<Longrightarrow>
    length (put_blocks es src from to bc ps data) = length data \<and>
    (\<forall>k<length data. put_blocks es src from to bc ps data ! k =
      (if \<exists>p\<in>set ps. to + p \<le> int k div int es \<and> int k div int es < to + p + bc then src ! nat (int k + (from - to) * int es) else data ! k))"
proof (induction ps arbitrary: data)
  case (Cons p ps)
  let ?bs = "elems es src (from + p) bc"
  let ?data = "store_bytes data (nat (to + p) * es) ?bs"
  have b: "in_bounds es src (from + p) bc" "in_bounds es data (to + p) bc" using Cons.prems by simp_all
  have len: "length ?data = length data" using in_bounds_nat [OF b(2)] length_elems [OF b(1)] by simp
  have one: "?data ! k = (if to + p \<le> int k div int es \<and> int k div int es < to + p + bc then src ! nat (int k + (from - to) * int es) else data ! k)"
    if k: "k < length data" for k
  proof (cases "to + p \<le> int k div int es \<and> int k div int es < to + p + bc")
    case True
    then have i: "nat (to + p) * es \<le> k" "k < nat (to + p) * es + nat bc * es"
      using in_block [OF assms, of "to + p" bc k] b(2) by (auto simp: in_bounds_def)
    have "?data ! k = src ! (nat (from + p) * es + (k - nat (to + p) * es))"
      using nth_store [OF b(2) length_elems [OF b(1)] k] i in_bounds_nat [OF b(1)] by (simp add: elems_def)
    moreover have "int (nat (from + p) * es + (k - nat (to + p) * es)) = int k + (from - to) * int es"
      using i(1) b by (simp add: in_bounds_def of_nat_diff algebra_simps)
    ultimately show ?thesis using True by (metis nat_int)
  next
    case False
    then have "\<not> (nat (to + p) * es \<le> k \<and> k < nat (to + p) * es + nat bc * es)"
      using in_block [OF assms, of "to + p" bc k] b(2) by (auto simp: in_bounds_def)
    with False nth_store [OF b(2) length_elems [OF b(1)] k] show ?thesis by auto
  qed
  have "list_all (\<lambda>p. in_bounds es src (from + p) bc \<and> in_bounds es ?data (to + p) bc) ps"
    using Cons.prems by (auto simp: in_bounds_def len list_all_iff)
  from Cons.IH [OF this] one len show ?case by auto
qed simp

section \<open>Headers\<close>

definition fits_long :: "int \<Rightarrow> bool" where
  "fits_long x \<longleftrightarrow> - (2 ^ 63) \<le> x \<and> x < 2 ^ 63"

lemma sint_of_long: "fits_long x \<Longrightarrow> sint (of_int x :: 64 word) = x"
  by (simp add: fits_long_def sint_sbintrunc' signed_take_bit_int_eq_self)

lemma length_long_bytes [simp]: "length (long_bytes xs) = 8 * length xs"
  by (induction xs) (simp_all add: long_bytes_def)

lemma long_bytes_Cons: "long_bytes (x # xs) = le_bytes 8 (of_int x :: 64 word) @ long_bytes xs"
  by (simp add: long_bytes_def)

lemma long_at_bytes: "i < length xs \<Longrightarrow> long_at (long_bytes xs) i = sint (of_int (xs ! i) :: 64 word)"
proof (induction xs arbitrary: i)
  case (Cons x xs)
  show ?case
  proof (cases i)
    case 0
    then show ?thesis by (simp add: long_at_def long_bytes_Cons)
  next
    case (Suc j)
    then show ?thesis using Cons by (simp add: long_at_def long_bytes_Cons)
  qed
qed simp

definition dims_fit :: "(int \<times> int) list \<Rightarrow> bool" where
  "dims_fit ds \<longleftrightarrow> list_all (\<lambda>(sz, stride). fits_long sz \<and> fits_long stride) ds"

definition dims_longs :: "(int \<times> int) list \<Rightarrow> int list" where
  "dims_longs ds = concat (map (\<lambda>(sz, stride). [sz, stride]) ds)"

lemma length_dims_longs [simp]: "length (dims_longs ds) = 2 * length ds"
  by (induction ds) (auto simp: dims_longs_def)

lemma dims_longs_Cons: "dims_longs ((sz, stride) # ds) = sz # stride # dims_longs ds"
  by (simp add: dims_longs_def)

lemma check_dims_iff:
  "dims_fit ds \<Longrightarrow> length pre = 2 * i + 1 \<Longrightarrow> length ds' = length ds \<Longrightarrow>
     check_dims (long_bytes (pre @ dims_longs ds)) i ds' = None \<longleftrightarrow> ds' = ds"
proof (induction ds arbitrary: pre i ds')
  case (Cons d ds)
  obtain sz stride where d: "d = (sz, stride)" by (cases d)
  obtain sz' stride' es where ds': "ds' = (sz', stride') # es" "length es = length ds" using Cons.prems(3) by (cases ds') auto
  have fit: "fits_long sz" "fits_long stride" "dims_fit ds" using Cons.prems(1) by (simp_all add: dims_fit_def d)
  let ?xs = "pre @ dims_longs (d # ds)"
  have "long_at (long_bytes ?xs) (2 * i + 1) = sz" "long_at (long_bytes ?xs) (2 * i + 2) = stride"
    using long_at_bytes [of "2 * i + 1" ?xs] long_at_bytes [of "2 * i + 2" ?xs] Cons.prems(2) fit
    by (simp_all add: d dims_longs_Cons nth_append sint_of_long)
  moreover have "?xs = (pre @ [sz, stride]) @ dims_longs ds" by (simp add: d dims_longs_Cons)
  then have "check_dims (long_bytes ?xs) (i + 1) es = None \<longleftrightarrow> es = ds"
    using Cons.IH [of "pre @ [sz, stride]" "i + 1" es] fit(3) Cons.prems(2) ds'(2) by simp
  ultimately show ?case by (auto simp: d ds'(1))
qed simp

lemma flags_fields:
  assumes "es \<in> {1, 2, 4, 8}" and "fast \<in> {0, 1}"
  shows "and (tensor_flags es bc fast) 1 = (if bc then 1 else 0)" and "drop_bit 1 (and (tensor_flags es bc fast) 2) = scast fast"
    and "drop_bit 4 (and (tensor_flags es bc fast) 0xF0) = of_nat es"
  using assms by (cases bc; auto simp: tensor_flags_def)+

lemma tensor_header_longs: "tensor_header es bc fast ds = long_bytes (sint (tensor_flags es bc fast) # dims_longs ds)"
  by (simp add: tensor_header_def long_bytes_Cons dims_longs_def)

text \<open>The header is accepted exactly by tensors like the one it comes from, of those with as many dimensions, and when both ends use the fast path or both do not.\<close>

lemma check_header_iff:
  assumes "es \<in> {1, 2, 4, 8}" and "es' \<in> {1, 2, 4, 8}" and "dims_fit ds" and "length ds' = length ds" and "fast \<in> {0, 1}" and "fast' \<in> {0, 1}"
  shows "check_header es' bc' fast' ds' (tensor_header es bc fast ds) = None \<longleftrightarrow> es' = es \<and> bc' = bc \<and> fast' = fast \<and> ds' = ds"
proof -
  have "long_at (tensor_header es bc fast ds) 0 = sint (tensor_flags es bc fast)"
    using long_at_bytes [of 0 "sint (tensor_flags es bc fast) # dims_longs ds"] by (simp add: tensor_header_longs)
  moreover have "check_dims (tensor_header es bc fast ds) 0 ds' = None \<longleftrightarrow> ds' = ds"
    using check_dims_iff [OF assms(3) _ assms(4), of "[sint (tensor_flags es bc fast)]" 0] by (simp add: tensor_header_longs)
  moreover have "(of_nat es :: 64 word) = of_nat es' \<longleftrightarrow> es = es'" using assms(1,2) by auto
  moreover have "(scast fast :: 64 word) = scast fast' \<longleftrightarrow> fast = fast'" using assms(5,6) by auto
  ultimately show ?thesis using flags_fields [OF assms(1,5), of bc] by (auto simp: check_header_def Let_def)
qed

section \<open>Elements and blocks\<close>

definition elem :: "nat \<Rightarrow> byte list \<Rightarrow> int \<Rightarrow> byte list" where
  "elem es data x = elems es data x 1"

lemma set_run [simp]: "x \<in> set (run p n) \<longleftrightarrow> p \<le> x \<and> x < p + n"
proof
  assume "p \<le> x \<and> x < p + n"
  then have "x = p + int (nat (x - p))" "nat (x - p) \<in> {0..<nat n}" by auto
  then show "x \<in> set (run p n)" unfolding run_def set_map set_upt by (rule image_eqI)
qed (auto simp: run_def)

lemma elems_run: "0 \<le> p \<Longrightarrow> elems es data p (int n) = concat (map (elem es data) (run p (int n)))"
proof (induction n)
  case 0
  then show ?case by (simp add: elems_def run_def)
next
  case (Suc n)
  have "elems es data p (int n + 1) = elems es data p (int n) @ elem es data (p + int n)"
  proof -
    have "elems es data p (int n + 1) = take (n * es + es) (drop (nat p * es) data)"
      by (simp add: elems_def nat_add_distrib add.commute)
    also have "\<dots> = take (n * es) (drop (nat p * es) data) @ take es (drop (n * es) (drop (nat p * es) data))" by (rule take_add)
    also have "drop (n * es) (drop (nat p * es) data) = drop (nat (p + int n) * es) data"
      using Suc.prems by (simp add: nat_add_distrib distrib_right add.commute)
    finally show ?thesis by (simp add: elems_def elem_def)
  qed
  moreover have "run p (int n + 1) = run p (int n) @ [p + int n]" using run_add [of "int n" 1 p] by (simp add: run_def)
  ultimately show ?case using Suc by (simp add: add.commute)
qed

text \<open>All elements of the tensor are in its storage.\<close>

definition tensor_fits :: "nat \<Rightarrow> byte list \<Rightarrow> int \<Rightarrow> (int \<times> int) list \<Rightarrow> bool" where
  "tensor_fits es data off ds \<longleftrightarrow> list_all (\<lambda>x. in_bounds es data x 1) (offsets ds off)"

lemma plan_blocks:
  assumes "sendable_shape ds" and "plan ds = (ps, bc)" and "tensor_fits es data off ds"
  shows "list_all (\<lambda>p. in_bounds es data (off + p) bc) ps"
    and "concat (map (\<lambda>p. elems es data (off + p) bc) ps) = concat (map (elem es data) (offsets ds off))"
    and "nat bc * es \<le> nat (elements ds) * es"
proof -
  note pl = plan_offsets [OF assms(1,2)]
  have off: "offsets ds off = concat (map (\<lambda>p. run (off + p) bc) ps)"
    using offsets_from [of ds off] pl(1) by (simp add: map_concat comp_def run_def add.assoc)
  have inb: "in_bounds es data (off + p) bc" if p: "p \<in> set ps" for p
  proof -
    have "off + p \<in> set (offsets ds off)" "off + p + bc - 1 \<in> set (offsets ds off)"
      using p pl(2) unfolding off by (auto intro!: bexI [of _ p])
    then have "in_bounds es data (off + p) 1" "in_bounds es data (off + p + bc - 1) 1"
      using assms(3) by (auto simp: tensor_fits_def list_all_iff)
    then show ?thesis using pl(2) by (simp add: in_bounds_def)
  qed
  then show "list_all (\<lambda>p. in_bounds es data (off + p) bc) ps" by (simp add: list_all_iff)
  show "nat bc * es \<le> nat (elements ds) * es" using pl(3) by (simp add: nat_mono)
  have "elems es data (off + p) bc = concat (map (elem es data) (run (off + p) bc))" if p: "p \<in> set ps" for p
    using elems_run [of "off + p" es data "nat bc"] inb [OF p] pl(2) by (simp add: in_bounds_def)
  then show "concat (map (\<lambda>p. elems es data (off + p) bc) ps) = concat (map (elem es data) (offsets ds off))"
    by (simp add: off concat_map_concat comp_def cong: map_cong)
qed

section \<open>Whole tensors\<close>

text \<open>
  The bytes of a tensor on the wire: the header, and the elements one by one in the order of their indices.
\<close>

definition tensor_bytes :: "nat \<Rightarrow> byte list \<Rightarrow> int \<Rightarrow> (int \<times> int) list \<Rightarrow> byte list" where
  "tensor_bytes es data off ds = tensor_header es (packed ds) 0 ds @ concat (map (elem es data) (offsets ds off))"

text \<open>
  What the theorems ask of a tensor: an element size of one of torch's types, a shape the code can send, sizes and strides that are \<open>long\<close>s, and elements
  inside the storage.
\<close>

definition tensor_ok :: "nat \<Rightarrow> byte list \<Rightarrow> int \<Rightarrow> (int \<times> int) list \<Rightarrow> bool" where
  "tensor_ok es data off ds \<longleftrightarrow> es \<in> {1, 2, 4, 8} \<and> sendable_shape ds \<and> dims_fit ds \<and> tensor_fits es data off ds \<and>
     8 * (2 * length ds + 1) < (2 ^ 31 :: nat)"

lemma length_tensor_header: "length (tensor_header es bc fast ds) = 8 * (2 * length ds + 1)"
  by (simp add: tensor_header_longs)

text \<open>
  What reading makes of the old data of the receiver's storage: each element of the tensor has the bytes of the sender's element with the same index, and
  every other byte is as it was. Byte \<open>k\<close> belongs to element \<open>k div es\<close> of the storage.
\<close>

definition copied :: "nat \<Rightarrow> (int \<times> int) list \<Rightarrow> byte list \<Rightarrow> int \<Rightarrow> byte list \<Rightarrow> int \<Rightarrow> byte list \<Rightarrow> bool" where
  "copied es ds src off old off' data \<longleftrightarrow> length data = length old \<and>
     (\<forall>k<length data. data ! k =
       (if int k div int es - off' \<in> set (offsets ds 0) then src ! nat (int k + (off - off') * int es) else old ! k))"

text \<open>Storages: all of their bytes.\<close>

definition storage_ok :: "nat \<Rightarrow> storage \<Rightarrow> bool" where
  "storage_ok es st \<longleftrightarrow> es \<in> {1, 2, 4, 8} \<and> 0 \<le> st_size st \<and> int (length (st_data st)) = st_size st * int es \<and> fits_long (st_size st)"

definition storage_bytes :: "nat \<Rightarrow> storage \<Rightarrow> byte list" where
  "storage_bytes es st = long_bytes [int es, st_size st] @ st_data st"

lemma storage_elems:
  assumes "storage_ok es st"
  shows "in_bounds es (st_data st) 0 (st_size st)" and "elems es (st_data st) 0 (st_size st) = st_data st"
    and "nat (st_size st) * es = length (st_data st)"
proof -
  show "in_bounds es (st_data st) 0 (st_size st)" using assms by (simp add: storage_ok_def in_bounds_def)
  have "int (nat (st_size st) * es) = int (length (st_data st))" using assms by (simp add: storage_ok_def)
  then show len: "nat (st_size st) * es = length (st_data st)" unfolding of_nat_eq_iff .
  show "elems es (st_data st) 0 (st_size st) = st_data st" by (simp add: elems_def len)
qed

lemma storage_header:
  assumes "storage_ok es st"
  shows "long_at (long_bytes [int es, st_size st]) 0 = int es" and "long_at (long_bytes [int es, st_size st]) 1 = st_size st"
proof -
  have "fits_long (int es)" "fits_long (st_size st)" using assms by (auto simp: storage_ok_def fits_long_def)
  then show "long_at (long_bytes [int es, st_size st]) 0 = int es" and "long_at (long_bytes [int es, st_size st]) 1 = st_size st"
    using long_at_bytes [of 0 "[int es, st_size st]"] long_at_bytes [of 1 "[int es, st_size st]"] sint_of_long [of "int es"]
      sint_of_long [of "st_size st"] by simp_all
qed

text \<open>
  The contract of a transport that is \<open>ready\<close>: bytes go out and come in as they are, and so do blocks of elements when their number of bytes
  \<open>fits\<close>. With it tensors and storages are transferred as a whole, however the blocks are.
\<close>

locale byte_transport =
  fixes T :: "'s transport" and es :: nat and sock :: cint and ready :: "'s \<Rightarrow> bool" and fits :: "nat \<Rightarrow> bool" and os_of :: "'s \<Rightarrow> os"
  assumes fits_mono: "fits k \<Longrightarrow> m \<le> k \<Longrightarrow> fits m"
    and no_fastpath: "ready s \<Longrightarrow> fastpath T s = 0"
    and send_ok: "ready s \<Longrightarrow> length bs < 2 ^ 31 \<Longrightarrow>
      \<exists>s'. send_raw T bs s = Some (Ret () s') \<and> ready s' \<and> wrote sock bs (os_of s) (os_of s')"
    and recv_ok: "ready s \<Longrightarrow> length bs < 2 ^ 31 \<Longrightarrow> incoming (os_of s) sock = bs @ rest \<Longrightarrow>
      \<exists>s'. recv_raw T (of_nat (length bs)) s = Some (Ret bs s') \<and> ready s' \<and> took sock bs (os_of s) (os_of s')"
    and write_ok: "ready s \<Longrightarrow> in_bounds es data p n \<Longrightarrow> fits (nat n * es) \<Longrightarrow>
      \<exists>s'. write_block T data p n s = Some (Ret () s') \<and> ready s' \<and> wrote sock (elems es data p n) (os_of s) (os_of s')"
    and read_ok: "ready s \<Longrightarrow> in_bounds es data p n \<Longrightarrow> fits (nat n * es) \<Longrightarrow> length bs = nat n * es \<Longrightarrow>
      incoming (os_of s) sock = bs @ rest \<Longrightarrow>
      \<exists>s'. read_block T p n (data, s) = Some (Ret () (store_bytes data (nat p * es) bs, s')) \<and> ready s' \<and> took sock bs (os_of s) (os_of s')"
begin

lemma write_blocks:
  "ready s \<Longrightarrow> fits (nat bc * es) \<Longrightarrow> list_all (\<lambda>p. in_bounds es data p bc) ps \<Longrightarrow>
    \<exists>s'. writing.visits T data bc ps s = Some (Ret () s') \<and> ready s' \<and>
      wrote sock (concat (map (\<lambda>p. elems es data p bc) ps)) (os_of s) (os_of s')"
proof (induction ps arbitrary: s)
  case Nil
  then show ?case by (simp add: wrote_def)
next
  case (Cons p ps)
  then obtain s1 where s1: "write_block T data p bc s = Some (Ret () s1)" "ready s1" "wrote sock (elems es data p bc) (os_of s) (os_of s1)"
    using write_ok [of s data p bc] by auto
  with Cons.IH [of s1] Cons.prems obtain s' where
      "writing.visits T data bc ps s1 = Some (Ret () s')" "ready s'" "wrote sock (concat (map (\<lambda>p. elems es data p bc) ps)) (os_of s1) (os_of s')"
    by auto
  with s1 wrote_trans show ?case by fastforce
qed

lemma read_blocks:
  "ready s \<Longrightarrow> fits (nat bc * es) \<Longrightarrow> list_all (\<lambda>p. in_bounds es src (from + p) bc \<and> in_bounds es data (to + p) bc) ps \<Longrightarrow>
    incoming (os_of s) sock = concat (map (\<lambda>p. elems es src (from + p) bc) ps) @ rest \<Longrightarrow>
    \<exists>s'. reading.visits T bc (map (\<lambda>p. to + p) ps) (data, s) = Some (Ret () (put_blocks es src from to bc ps data, s')) \<and> ready s' \<and>
      took sock (concat (map (\<lambda>p. elems es src (from + p) bc) ps)) (os_of s) (os_of s')"
proof (induction ps arbitrary: data s)
  case Nil
  then show ?case by (simp add: took_def)
next
  case (Cons p ps)
  let ?bs = "elems es src (from + p) bc" and ?rest = "concat (map (\<lambda>p. elems es src (from + p) bc) ps) @ rest"
  let ?data = "store_bytes data (nat (to + p) * es) ?bs"
  have b: "in_bounds es src (from + p) bc" "in_bounds es data (to + p) bc" "incoming (os_of s) sock = ?bs @ ?rest"
    using Cons.prems(3,4) by simp_all
  from read_ok [OF Cons.prems(1) b(2) Cons.prems(2) length_elems [OF b(1)] b(3)] obtain s1 where
      s1: "read_block T (to + p) bc (data, s) = Some (Ret () (?data, s1))" "ready s1" "took sock ?bs (os_of s) (os_of s1)" by blast
  have len: "length ?data = length data" using in_bounds_nat [OF b(2)] length_elems [OF b(1)] by simp
  have "incoming (os_of s1) sock = ?rest" using s1(3) b(3) by (auto simp: took_def)
  moreover have "list_all (\<lambda>p. in_bounds es src (from + p) bc \<and> in_bounds es ?data (to + p) bc) ps"
    using Cons.prems(3) by (auto simp: in_bounds_def len list_all_iff)
  ultimately obtain s' where s': "reading.visits T bc (map (\<lambda>p. to + p) ps) (?data, s1) = Some (Ret () (put_blocks es src from to bc ps ?data, s'))"
      "ready s'" "took sock (concat (map (\<lambda>p. elems es src (from + p) bc) ps)) (os_of s1) (os_of s')"
    using Cons.IH [OF s1(2) Cons.prems(2), of ?data] by blast
  with s1(1) took_trans [OF s1(3) s'(3)] show ?case by simp
qed

lemma writes_tensor:
  assumes "ready s" and "th_tensor_ok TH" and "t_storage t = Some st" and "tensor_ok es (st_data st) (storage_offset t) (dims t)"
    and "fits (nat (elements (dims t)) * es)"
  shows "\<exists>s'. tensor_write T TH es t s = Some (Ret () s') \<and> ready s' \<and>
    wrote sock (tensor_bytes es (st_data st) (storage_offset t) (dims t)) (os_of s) (os_of s')"
proof -
  let ?h = "tensor_header es (packed (dims t)) 0 (dims t)"
  have ok: "sendable_shape (dims t)" "tensor_fits es (st_data st) (storage_offset t) (dims t)" "length ?h < 2 ^ 31"
    using assms(4) by (simp_all add: tensor_ok_def length_tensor_header)
  obtain ps bc where plan: "plan (dims t) = (ps, bc)" by (cases "plan (dims t)")
  note pb = plan_blocks [OF ok(1) plan ok(2)]
  obtain s1 where s1: "send_raw T ?h s = Some (Ret () s1)" "ready s1" "wrote sock ?h (os_of s) (os_of s1)"
    using send_ok [OF assms(1) ok(3)] by blast
  have "list_all (\<lambda>p. in_bounds es (st_data st) p bc) (map (\<lambda>p. storage_offset t + p) ps)" using pb(1) by (simp add: list_all_iff)
  from write_blocks [OF s1(2) fits_mono [OF assms(5) pb(3)] this] obtain s' where
      s': "writing.visits T (st_data st) bc (map (\<lambda>p. storage_offset t + p) ps) s1 = Some (Ret () s')" "ready s'"
        "wrote sock (concat (map (elem es (st_data st)) (offsets (dims t) (storage_offset t)))) (os_of s1) (os_of s')"
    using pb(2) by (auto simp: comp_def)
  have "tensor_write T TH es t s = Some (Ret () s')"
    using tensor_write_plan [OF assms(2) ok(1) plan assms(3), of T es s s1] s1(1) s'(1) no_fastpath [OF assms(1)] by simp
  with wrote_trans [OF s1(3) s'(3)] s'(2) show ?thesis by (simp add: tensor_bytes_def)
qed

lemma receives_header:
  assumes "ready s" and "8 * (2 * length ds + 1) < (2 ^ 31 :: nat)" and "incoming (os_of s) sock = tensor_header es' bc 0 ds @ rest"
  shows "\<exists>s'. recv_raw T (of_nat (8 * (2 * length ds + 1))) s = Some (Ret (tensor_header es' bc 0 ds) s') \<and> ready s' \<and>
    took sock (tensor_header es' bc 0 ds) (os_of s) (os_of s')"
  using recv_ok [OF assms(1) _ assms(3)] assms(2) by (simp add: length_tensor_header)

lemma reads_tensor:
  assumes "ready s" and "th_tensor_ok TH" and "dims t' = dims t"
    and "t_storage t = Some st" and "tensor_ok es (st_data st) (storage_offset t) (dims t)"
    and "t_storage t' = Some st'" and "tensor_ok es (st_data st') (storage_offset t') (dims t')"
    and "fits (nat (elements (dims t)) * es)" and "incoming (os_of s) sock = tensor_bytes es (st_data st) (storage_offset t) (dims t) @ rest"
  shows "\<exists>data s'. tensor_read T TH es (t', s) = Some (Ret () (with_data data t', s')) \<and> ready s' \<and> incoming (os_of s') sock = rest \<and>
    copied es (dims t) (st_data st) (storage_offset t) (st_data st') (storage_offset t') data"
proof -
  let ?ds = "dims t" and ?h = "tensor_header es (packed (dims t)) 0 (dims t)"
  have ok: "sendable_shape ?ds" "8 * (2 * length ?ds + 1) < (2 ^ 31 :: nat)" "es \<in> {1, 2, 4, 8}" "dims_fit ?ds" "0 < es"
      "tensor_fits es (st_data st) (storage_offset t) ?ds" "tensor_fits es (st_data st') (storage_offset t') ?ds"
    using assms(3,5,7) by (auto simp: tensor_ok_def)
  obtain ps bc where plan: "plan ?ds = (ps, bc)" by (cases "plan ?ds")
  note pl = plan_offsets [OF ok(1) plan]
  note from_ok = plan_blocks [OF ok(1) plan ok(6)] and to_ok = plan_blocks(1) [OF ok(1) plan ok(7)]
  let ?bs = "concat (map (\<lambda>p. elems es (st_data st) (storage_offset t + p) bc) ps)"
  have "incoming (os_of s) sock = ?h @ ?bs @ rest" using assms(9) from_ok(2) by (simp add: tensor_bytes_def)
  with receives_header [OF assms(1) ok(2) this] obtain s1 where
      s1: "recv_raw T (of_nat (8 * (2 * length ?ds + 1))) s = Some (Ret ?h s1)" "ready s1" and in1: "incoming (os_of s1) sock = ?bs @ rest"
    by (auto simp: took_def)
  have blocks: "list_all (\<lambda>p. in_bounds es (st_data st) (storage_offset t + p) bc \<and> in_bounds es (st_data st') (storage_offset t' + p) bc) ps"
    using from_ok(1) to_ok by (simp add: list_all_iff)
  define data where "data = put_blocks es (st_data st) (storage_offset t) (storage_offset t') bc ps (st_data st')"
  from read_blocks [OF s1(2) fits_mono [OF assms(8) from_ok(3)] blocks in1] obtain s' where
      s': "reading.visits T bc (map (\<lambda>p. storage_offset t' + p) ps) (st_data st', s1) = Some (Ret () (data, s'))" "ready s'"
        "took sock ?bs (os_of s1) (os_of s')"
    by (auto simp: data_def)
  have "tensor_read T TH es (t', s) = put_data t' (Some (Ret () (data, s')))"
    using tensor_read_plan [OF assms(2), of t' ps bc st' T s ?h s1 es] s1 s'(1) assms(3,6) ok(1) plan no_fastpath [OF s1(2)]
      check_header_iff [OF ok(3,3,4) refl, of 0 0 "packed ?ds" "packed ?ds"] by simp
  moreover have "incoming (os_of s') sock = rest" using s'(3) in1 by (simp add: took_def)
  moreover have "(\<exists>p\<in>set ps. storage_offset t' + p \<le> x \<and> x < storage_offset t' + p + bc) \<longleftrightarrow> x - storage_offset t' \<in> set (offsets ?ds 0)" for x
    unfolding pl(1) by (auto simp: algebra_simps)
  ultimately show ?thesis
    using put_blocks_nth [OF ok(5) blocks] s'(2) by (auto simp: put_data_def data_def copied_def)
qed

lemma refuses_tensor:
  assumes "ready s" and "th_tensor_ok TH" and "es \<in> {1, 2, 4, 8}" and "es' \<in> {1, 2, 4, 8}" and "dims_fit ds"
    and "8 * (2 * length ds + 1) < (2 ^ 31 :: nat)" and "length (dims t') = length ds" and "es' \<noteq> es \<or> dims t' \<noteq> ds"
    and "incoming (os_of s) sock = tensor_bytes es' data off ds @ rest"
  shows "\<exists>e s'. tensor_read T TH es (t', s) = Some (Raise e (t', s'))"
proof -
  let ?h = "tensor_header es' (packed ds) 0 ds"
  have "incoming (os_of s) sock = ?h @ concat (map (elem es' data) (offsets ds off)) @ rest" using assms(9) by (simp add: tensor_bytes_def)
  from receives_header [OF assms(1,6) this] obtain s1 where
      s1: "recv_raw T (of_nat (8 * (2 * length (dims t') + 1))) s = Some (Ret ?h s1)" "ready s1"
    using assms(7) by auto
  obtain e where "check_header es (packed (dims t')) 0 (dims t') ?h = Some e"
    using check_header_iff [OF assms(4,3,5,7), of 0 0 "packed (dims t')" "packed ds"] assms(8) by auto
  then show ?thesis using s1(1) no_fastpath [OF s1(2)] assms(2) by (auto simp: tensor_read_def th_tensor_ok_def Let_def)
qed

lemma writes_storage:
  assumes "ready s" and "storage_ok es st" and "fits (length (st_data st))"
  shows "\<exists>s'. storage_write T es st s = Some (Ret () s') \<and> ready s' \<and> wrote sock (storage_bytes es st) (os_of s) (os_of s')"
proof -
  let ?h = "long_bytes [int es, st_size st]"
  obtain s1 where s1: "send_raw T ?h s = Some (Ret () s1)" "ready s1" "wrote sock ?h (os_of s) (os_of s1)"
    using send_ok [OF assms(1), of ?h] by auto
  then obtain s' where "write_block T (st_data st) 0 (st_size st) s1 = Some (Ret () s')" "ready s'" "wrote sock (st_data st) (os_of s1) (os_of s')"
    using write_ok [OF s1(2), of "st_data st" 0 "st_size st"] storage_elems [OF assms(2)] assms(3) by auto
  with s1 wrote_trans [OF s1(3)] show ?thesis by (auto simp: storage_write_def storage_bytes_def)
qed

lemma reads_storage:
  assumes "ready s" and "storage_ok es st" and "storage_ok es st'" and "st_size st' = st_size st" and "fits (length (st_data st))"
    and "incoming (os_of s) sock = storage_bytes es st @ rest"
  shows "\<exists>s'. storage_read T es (st_size st') (st_data st', s) = Some (Ret () (st_data st, s')) \<and> ready s' \<and> incoming (os_of s') sock = rest"
proof -
  let ?h = "long_bytes [int es, st_size st]"
  have len: "length (st_data st') = length (st_data st)" using storage_elems(3) [OF assms(2)] storage_elems(3) [OF assms(3)] assms(4) by simp
  obtain s1 where s1: "recv_raw T 16 s = Some (Ret ?h s1)" "ready s1" "took sock ?h (os_of s) (os_of s1)"
    using recv_ok [OF assms(1), of ?h "st_data st @ rest"] assms(6) by (auto simp: storage_bytes_def)
  have in1: "incoming (os_of s1) sock = st_data st @ rest" using s1(3) assms(6) by (simp add: took_def storage_bytes_def)
  have size: "length (st_data st) = nat (st_size st') * es" "fits (nat (st_size st') * es)"
    using storage_elems(3) [OF assms(3)] len assms(5) by simp_all
  have "store_bytes (st_data st') (nat 0 * es) (st_data st) = st_data st" using len by (simp add: store_bytes_def)
  with read_ok [OF s1(2) storage_elems(1) [OF assms(3)] size(2,1) in1] obtain s' where
      s': "read_block T 0 (st_size st') (st_data st', s1) = Some (Ret () (st_data st, s'))" "ready s'" "took sock (st_data st) (os_of s1) (os_of s')"
    by auto
  have "storage_read T es (st_size st') (st_data st', s) = Some (Ret () (st_data st, s'))"
    using s1(1) s'(1) storage_header [OF assms(2)] assms(4) by (simp add: storage_read_def)
  moreover have "incoming (os_of s') sock = rest" using s'(3) in1 by (simp add: took_def)
  ultimately show ?thesis using s'(2) by blast
qed

end

definition host_ready :: "kernel \<Rightarrow> copy_context \<times> os \<Rightarrow> bool" where
  "host_ready K = (\<lambda>(cc, s). streams_ok K \<and> use_fastpath cc = 0)"

text \<open>In the builds without CUDA a block has less than \<open>2 ^ 31\<close> bytes, because \<open>sock_send_raw\<close> keeps the number in an \<open>int\<close>.\<close>

interpretation host: byte_transport "host_transport K es sock" es sock "host_ready K" "\<lambda>n. n < 2 ^ 31" snd for K es sock
proof unfold_locales
  fix m n :: nat and s :: "copy_context \<times> os" and bs data rest :: "byte list" and p k :: int
  show "n < 2 ^ 31 \<Longrightarrow> m \<le> n \<Longrightarrow> m < 2 ^ 31" by simp
  show "host_ready K s \<Longrightarrow> fastpath (host_transport K es sock) s = 0" by (auto simp: host_ready_def host_transport_def)
  have send: "\<exists>s'. sock_send_raw K sock bs s = Some (Ret () s') \<and> host_ready K s' \<and> wrote sock bs (snd s) (snd s')"
    if r: "host_ready K s" "length bs < 2 ^ 31" for bs s
  proof -
    obtain cc w where s: "s = (cc, w)" by (cases s)
    obtain st w' where "sock_send_raw K sock bs (cc, w) = Some (Ret () (cc\<lparr>tx := st\<rparr>, w'))" "wrote sock bs w w'"
      using sock_send_raw_ok [of K bs sock cc w] r by (auto simp: host_ready_def s)
    then show ?thesis using r(1) by (simp add: host_ready_def s)
  qed
  have recv: "\<exists>s'. sock_recv_raw K sock (of_nat (length bs)) s = Some (Ret bs s') \<and> host_ready K s' \<and> took sock bs (snd s) (snd s')"
    if r: "host_ready K s" "length bs < 2 ^ 31" "incoming (snd s) sock = bs @ rest" for bs s rest
  proof -
    obtain cc w where s: "s = (cc, w)" by (cases s)
    obtain st w' where "sock_recv_raw K sock (of_nat (length bs)) (cc, w) = Some (Ret bs (cc\<lparr>rx := st\<rparr>, w'))" "took sock bs w w'"
      using sock_recv_raw_ok [of K bs w sock rest cc] r by (auto simp: host_ready_def s)
    then show ?thesis using r(1) by (simp add: host_ready_def s)
  qed
  show "host_ready K s \<Longrightarrow> length bs < 2 ^ 31 \<Longrightarrow>
      \<exists>s'. send_raw (host_transport K es sock) bs s = Some (Ret () s') \<and> host_ready K s' \<and> wrote sock bs (snd s) (snd s')"
    using send by (simp add: host_transport_def)
  show "host_ready K s \<Longrightarrow> length bs < 2 ^ 31 \<Longrightarrow> incoming (snd s) sock = bs @ rest \<Longrightarrow>
      \<exists>s'. recv_raw (host_transport K es sock) (of_nat (length bs)) s = Some (Ret bs s') \<and> host_ready K s' \<and> took sock bs (snd s) (snd s')"
    using recv by (simp add: host_transport_def)
  show "host_ready K s \<Longrightarrow> in_bounds es data p k \<Longrightarrow> nat k * es < 2 ^ 31 \<Longrightarrow>
      \<exists>s'. write_block (host_transport K es sock) data p k s = Some (Ret () s') \<and> host_ready K s' \<and> wrote sock (elems es data p k) (snd s) (snd s')"
    using send [of s "elems es data p k"] by (simp add: host_transport_def write_contiguous_def)
  show "host_ready K s \<Longrightarrow> in_bounds es data p k \<Longrightarrow> nat k * es < 2 ^ 31 \<Longrightarrow> length bs = nat k * es \<Longrightarrow> incoming (snd s) sock = bs @ rest \<Longrightarrow>
      \<exists>s'. read_block (host_transport K es sock) p k (data, s) = Some (Ret () (store_bytes data (nat p * es) bs, s')) \<and> host_ready K s' \<and>
        took sock bs (snd s) (snd s')"
    using recv [of s bs rest] by (auto simp: host_transport_def read_contiguous_def)
qed

section \<open>Properties\<close>

definition small_th :: th_tensor where
  "small_th = \<lparr>isContiguous = packed, nElement = (\<lambda>ds. if ds = [] then 0 else elements ds)\<rparr>"

lemma small_th_ok [simp]: "th_tensor_ok small_th"
  by (simp add: small_th_def th_tensor_ok_def)

text \<open>Two columns of a matrix of two rows and three columns, at an offset into the data.\<close>

definition small_tensor :: "int \<Rightarrow> byte list \<Rightarrow> tensor" where
  "small_tensor off data = \<lparr>dims = [(2, 3), (2, 1)], storage_offset = off, t_storage = Some \<lparr>st_size = 6, st_data = data\<rparr>\<rparr>"

lemma small_tensor_simps [simp]:
  "dims (small_tensor off data) = [(2, 3), (2, 1)]" "storage_offset (small_tensor off data) = off"
  "t_storage (small_tensor off data) = Some \<lparr>st_size = 6, st_data = data\<rparr>"
  by (simp_all add: small_tensor_def)

lemma small_tensor_ok: "0 \<le> off \<Longrightarrow> off + 5 \<le> int (length data) \<Longrightarrow> tensor_ok 1 data off [(2, 3), (2, 1)]"
  by (simp add: tensor_ok_def sendable_shape_def sizes_ok_def dims_fit_def fits_long_def tensor_fits_def in_bounds_def upt_rec)

text \<open>
  C12: Sending a tensor is equivalent to sending its elements one after the other in the order of their indices, whether it is contiguous or is sent in
  blocks, and however the dimensions are joined into blocks; in particular the branch marked as unreachable is.
\<close>

theorem tensor_write_row_major:
  assumes "streams_ok K" and "th_tensor_ok TH" and "t_storage t = Some st" and "tensor_ok es (st_data st) (storage_offset t) (dims t)"
    and "nat (elements (dims t)) * es < 2 ^ 31" and "use_fastpath cc = 0"
  shows "\<exists>cc' s'. tensor_write (host_transport K es sock) TH es t (cc, s) = Some (Ret () (cc', s')) \<and>
    outgoing s' = (outgoing s)(sock := outgoing s sock @ tensor_bytes es (st_data st) (storage_offset t) (dims t)) \<and> incoming s' = incoming s"
  using host.writes_tensor [of K "(cc, s)" TH t st es sock] assms by (auto simp: host_ready_def wrote_def)

theorem tensor_write_row_major_witness:
  "\<exists>cc' s'. tensor_write (host_transport small_kernel 1 9) small_th 1 (small_tensor 0 [1, 2, 3, 4, 5, 6]) (empty_context, small_os) =
      Some (Ret () (cc', s')) \<and>
    outgoing s' = (outgoing small_os)(9 := outgoing small_os 9 @ tensor_bytes 1 [1, 2, 3, 4, 5, 6] 0 [(2, 3), (2, 1)]) \<and>
    incoming s' = incoming small_os"
  using tensor_write_row_major [of small_kernel small_th "small_tensor 0 [1, 2, 3, 4, 5, 6]" "\<lparr>st_size = 6, st_data = [1, 2, 3, 4, 5, 6]\<rparr>" 1
      empty_context 9 small_os] small_tensor_ok [of 0 "[1, 2, 3, 4, 5, 6]"]
  by (simp add: empty_context_def)

text \<open>
  C36: A tensor is refused by a tensor of the same number of dimensions that has another element size, or another size or stride in some dimension: an error is
  raised and the receiving tensor is as it was. The number of dimensions and the type of the elements are not compared (\<open>tensor_rank_unchecked\<close>, \<open>tensor_type_unchecked\<close>).
\<close>

theorem tensor_read_refuses:
  assumes "streams_ok K" and "th_tensor_ok TH" and "es \<in> {1, 2, 4, 8}" and "es' \<in> {1, 2, 4, 8}" and "dims_fit ds"
    and "8 * (2 * length ds + 1) < (2 ^ 31 :: nat)" and "length (dims t') = length ds" and "es' \<noteq> es \<or> dims t' \<noteq> ds"
    and "use_fastpath cc = 0" and "incoming s sock = tensor_bytes es data off ds @ rest"
  shows "\<exists>e cc' s'. tensor_read (host_transport K es' sock) TH es' (t', cc, s) = Some (Raise e (t', cc', s'))"
  using host.refuses_tensor [of K "(cc, s)" TH es' es ds t' sock data off rest] assms by (auto simp: host_ready_def)

theorem tensor_read_refuses_witness:
  "\<exists>e cc' s'. tensor_read (host_transport small_kernel 1 9) small_th 1 (small_tensor 0 [1, 2, 3, 4, 5, 6], empty_context,
      small_os\<lparr>incoming := (\<lambda>_. tensor_bytes 1 [7, 8, 9] 0 [(1, 3), (3, 1)] @ [])\<rparr>) =
    Some (Raise e (small_tensor 0 [1, 2, 3, 4, 5, 6], cc', s'))"
  by (rule tensor_read_refuses [where es = 1 and ds = "[(1, 3), (3, 1)]" and data = "[7, 8, 9]" and off = 0 and rest = "[]"])
    (simp_all add: dims_fit_def fits_long_def empty_context_def)

text \<open>
  The number of dimensions is not part of the header: a tensor of one by one element is accepted by a tensor of one dimension with one element, which
  then has the bytes of the second dimension of the header instead of the element, and the rest of the message is taken for what follows.
\<close>

theorem tensor_rank_unchecked:
  "(case tensor_read (host_transport small_kernel 1 9) small_th 1 (\<lparr>dims = [(1, 1)], storage_offset = 0, t_storage = Some \<lparr>st_size = 1, st_data = [0]\<rparr>\<rparr>, empty_context,
      small_os\<lparr>incoming := (\<lambda>_. tensor_bytes 1 [42] 0 [(1, 1), (1, 1)])\<rparr>) of
      Some (Ret _ (t, _, s)) \<Rightarrow> map_option st_data (t_storage t) = Some [1] \<and> length (incoming s 9) = 16
    | _ \<Rightarrow> False)"
  by code_simp

text \<open>The two ends of a transfer: a client that sends a tensor of the class \<open>n\<close>, and a server that receives into one of the class \<open>n'\<close>.\<close>

lemma client_sends_tensor:
  assumes "streams_ok K" and "th_tensor_ok TH" and "map_of class_table n = Some (es, True)" and "registered n"
    and "a \<in> alive w" and "store w p = Some (TorchTensor t)" and "use_fastpath (cl_context (clients w a)) = 0"
    and "t_storage t = Some st" and "tensor_ok es (st_data st) (storage_offset t) (dims t)" and "nat (elements (dims t)) * es < 2 ^ 31"
  shows "\<exists>w1. cliser_client_send A K (Lcliser_Init K TH registered) (LUserdata (TorchClass n) p) None (Some a) w = Some (Ret [] w1) \<and>
    store w1 = store w \<and> outgoing (net w1) (cl_sock (clients w a)) =
      outgoing (net w) (cl_sock (clients w a)) @ tensor_bytes es (st_data st) (storage_offset t) (dims t)"
proof -
  let ?sock = "cl_sock (clients w a)"
  obtain cc1 s1 where s1: "tensor_write (host_transport K es ?sock) TH es t (cl_context (clients w a), net w) = Some (Ret () (cc1, s1))"
      "outgoing s1 = (outgoing (net w))(?sock := outgoing (net w) ?sock @ tensor_bytes es (st_data st) (storage_offset t) (dims t))"
    using host.writes_tensor [OF _ assms(2,8-10), of K "(cl_context (clients w a), net w)" ?sock] assms(1,7)
    by (auto simp: host_ready_def wrote_def)
  then show ?thesis
    using assms(3-6)
    by (simp add: cliser_client_send_def with_client_def send_value_def is_userdata_def sock_send_userdata_def Lcliser_Init_def write_method_def
        get_context_def put_object_def with_object_def put_transfer_def put_context_def count_tx_def map_upd_triv)
qed

lemma server_receives_tensor:
  assumes "streams_ok K'" and "th_tensor_ok TH" and "map_of class_table n' = Some (es, True)" and "registered n'"
    and "b \<in> alive w'" and "store w' p' = Some (TorchTensor t')" and "use_fastpath (cl_context (clients w' b)) = 0"
    and "t_storage t = Some st" and "tensor_ok es (st_data st) (storage_offset t) (dims t)"
    and "t_storage t' = Some st'" and "tensor_ok es (st_data st') (storage_offset t') (dims t')" and "dims t' = dims t"
    and "nat (elements (dims t)) * es < 2 ^ 31"
    and "incoming (net w') (cl_sock (clients w' b)) = tensor_bytes es (st_data st) (storage_offset t) (dims t) @ rest"
  shows "\<exists>w2 data. cliser_server_recv A K' (Lcliser_Init K' TH registered) d junk (Some (LUserdata (TorchClass n') p')) None (Some b) w' =
      Some (Ret [LUserdata (TorchClass n') p'] w2) \<and>
    store w2 = (store w')(p' \<mapsto> TorchTensor (with_data data t')) \<and> incoming (net w2) (cl_sock (clients w' b)) = rest \<and>
    copied es (dims t) (st_data st) (storage_offset t) (st_data st') (storage_offset t') data"
proof -
  let ?sock = "cl_sock (clients w' b)" and ?w = "share_fastpath (Some (LUserdata (TorchClass n') p')) b w'"
  have w: "sv_context (server ?w) = (sv_context (server w'))\<lparr>use_fastpath := 0\<rparr>" "clients ?w = clients w'" "net ?w = net w'" "store ?w = store w'"
    using assms(7) by (simp_all add: share_fastpath_def extra_arg_def is_userdata_def)
  obtain data cc2 s2 where s2: "tensor_read (host_transport K' es ?sock) TH es (t', sv_context (server ?w), net w') = Some (Ret () (with_data data t', cc2, s2))"
      "incoming s2 ?sock = rest" "copied es (dims t) (st_data st) (storage_offset t) (st_data st') (storage_offset t') data"
    using host.reads_tensor [OF _ assms(2,12,8-11,13), of K' "(sv_context (server ?w), net w')" ?sock rest] assms(1,14) w(1)
    by (auto simp: host_ready_def)
  then show ?thesis
    using assms(3-6) w
    by (simp add: cliser_server_recv_def with_handle_def recv_value_def extra_arg_def is_userdata_def sock_recv_userdata_def Lcliser_Init_def
        read_method_def get_context_def put_object_def as_tensor_def put_transfer_def put_context_def count_rx_def) blast
qed

text \<open>
  C11: A tensor that a client sends with \<open>send\<close> arrives at the server that receives it with \<open>recv\<close> into a tensor of the same type, sizes and strides: each of
  its elements has the value of the sender's element with the same index, even where elements overlap, and every other byte of
  the storage is as it was. Other objects are not changed.
\<close>

theorem tensor_arrives:
  assumes "streams_ok K" and "streams_ok K'" and "th_tensor_ok TH" and "map_of class_table n = Some (es, True)" and "registered n"
    and "a \<in> alive w" and "store w p = Some (TorchTensor t)" and "use_fastpath (cl_context (clients w a)) = 0"
    and "b \<in> alive w'" and "store w' p' = Some (TorchTensor t')" and "use_fastpath (cl_context (clients w' b)) = 0"
    and "t_storage t = Some st" and "tensor_ok es (st_data st) (storage_offset t) (dims t)"
    and "t_storage t' = Some st'" and "tensor_ok es (st_data st') (storage_offset t') (dims t')" and "dims t' = dims t"
    and "nat (elements (dims t)) * es < 2 ^ 31"
    and "incoming (net w') (cl_sock (clients w' b)) = tensor_bytes es (st_data st) (storage_offset t) (dims t) @ rest"
  shows "(\<exists>w1. cliser_client_send A K (Lcliser_Init K TH registered) (LUserdata (TorchClass n) p) None (Some a) w = Some (Ret [] w1) \<and>
      store w1 = store w \<and> outgoing (net w1) (cl_sock (clients w a)) =
        outgoing (net w) (cl_sock (clients w a)) @ tensor_bytes es (st_data st) (storage_offset t) (dims t)) \<and>
    (\<exists>w2 data. cliser_server_recv A K' (Lcliser_Init K' TH registered) d junk (Some (LUserdata (TorchClass n) p')) None (Some b) w' =
        Some (Ret [LUserdata (TorchClass n) p'] w2) \<and>
      store w2 = (store w')(p' \<mapsto> TorchTensor (with_data data t')) \<and> incoming (net w2) (cl_sock (clients w' b)) = rest \<and>
      copied es (dims t) (st_data st) (storage_offset t) (st_data st') (storage_offset t') data)"
  using client_sends_tensor [of K TH n es registered, OF assms(1,3-8,12,13,17), of A]
    server_receives_tensor [of K' TH n es registered, OF assms(2-5,9-11,12-16,17,18), of A d junk]
  by blast

definition torch_process :: "tensor \<Rightarrow> byte list \<Rightarrow> torch_heap process" where
  "torch_process t bs =
     \<lparr>clients = (\<lambda>_. new_client (\<lambda>_. 0) 4 1), alive = {5}, next_addr = 6,
      server = \<lparr>sv_sock = 3, sv_clients = None, num_clients = 0, sv_context = empty_context, ip_address = 0\<rparr>,
      net = small_os\<lparr>incoming := (\<lambda>_. bs)\<rparr>, store = [16 \<mapsto> TorchTensor t]\<rparr>"

lemma torch_process_simps [simp]:
  "alive (torch_process t bs) = {5}" "store (torch_process t bs) = [16 \<mapsto> TorchTensor t]" "incoming (net (torch_process t bs)) fd = bs"
  "use_fastpath (cl_context (clients (torch_process t bs) a)) = 0"
  by (simp_all add: torch_process_def new_client_def empty_context_def)

lemma byte_tensor_class: "map_of class_table (ascii ''torch.ByteTensor'') = Some (1, True)"
  by code_simp

theorem tensor_arrives_witness:
  "(\<exists>w1. cliser_client_send small_lua small_kernel (Lcliser_Init small_kernel small_th (\<lambda>_. True))
        (LUserdata (TorchClass (ascii ''torch.ByteTensor'')) 16) None (Some 5) (torch_process (small_tensor 0 [1, 2, 3, 4, 5, 6]) []) = Some (Ret [] w1) \<and>
      store w1 = store (torch_process (small_tensor 0 [1, 2, 3, 4, 5, 6]) []) \<and>
      outgoing (net w1) (cl_sock (clients (torch_process (small_tensor 0 [1, 2, 3, 4, 5, 6]) []) 5)) =
        outgoing (net (torch_process (small_tensor 0 [1, 2, 3, 4, 5, 6]) [])) (cl_sock (clients (torch_process (small_tensor 0 [1, 2, 3, 4, 5, 6]) []) 5)) @
        tensor_bytes 1 [1, 2, 3, 4, 5, 6] 0 [(2, 3), (2, 1)]) \<and>
    (\<exists>w2 data. cliser_server_recv small_lua small_kernel (Lcliser_Init small_kernel small_th (\<lambda>_. True)) 0 (\<lambda>_. 0)
        (Some (LUserdata (TorchClass (ascii ''torch.ByteTensor'')) 16)) None (Some 5)
        (torch_process (small_tensor 1 [0, 0, 0, 0, 0, 0]) (tensor_bytes 1 [1, 2, 3, 4, 5, 6] 0 [(2, 3), (2, 1)] @ [])) =
          Some (Ret [LUserdata (TorchClass (ascii ''torch.ByteTensor'')) 16] w2) \<and>
      store w2 = (store (torch_process (small_tensor 1 [0, 0, 0, 0, 0, 0]) (tensor_bytes 1 [1, 2, 3, 4, 5, 6] 0 [(2, 3), (2, 1)] @ [])))
        (16 \<mapsto> TorchTensor (with_data data (small_tensor 1 [0, 0, 0, 0, 0, 0]))) \<and>
      incoming (net w2) (cl_sock (clients (torch_process (small_tensor 1 [0, 0, 0, 0, 0, 0]) (tensor_bytes 1 [1, 2, 3, 4, 5, 6] 0 [(2, 3), (2, 1)] @ [])) 5)) = [] \<and>
      copied 1 [(2, 3), (2, 1)] [1, 2, 3, 4, 5, 6] 0 [0, 0, 0, 0, 0, 0] 1 data)"
  using tensor_arrives [of small_kernel small_kernel small_th "ascii ''torch.ByteTensor''" 1 "\<lambda>_. True" 5
      "torch_process (small_tensor 0 [1, 2, 3, 4, 5, 6]) []" 16 "small_tensor 0 [1, 2, 3, 4, 5, 6]"
      5 "torch_process (small_tensor 1 [0, 0, 0, 0, 0, 0]) (tensor_bytes 1 [1, 2, 3, 4, 5, 6] 0 [(2, 3), (2, 1)] @ [])" 16
      "small_tensor 1 [0, 0, 0, 0, 0, 0]" "\<lparr>st_size = 6, st_data = [1, 2, 3, 4, 5, 6]\<rparr>" "\<lparr>st_size = 6, st_data = [0, 0, 0, 0, 0, 0]\<rparr>" "[]" small_lua]
    small_tensor_ok [of 0 "[1, 2, 3, 4, 5, 6]"] small_tensor_ok [of 1 "[0, 0, 0, 0, 0, 0]"] byte_tensor_class
  by simp

text \<open>
  The header has the element size and not the type: the bytes that a client sends of a tensor of floats are accepted by a server that receives into a tensor
  of integers with the same sizes and strides, whose elements then have the bit patterns of the floats.
\<close>

theorem tensor_type_unchecked:
  assumes "streams_ok K" and "streams_ok K'" and "th_tensor_ok TH"
    and "a \<in> alive w" and "store w p = Some (TorchTensor t)" and "use_fastpath (cl_context (clients w a)) = 0"
    and "b \<in> alive w'" and "store w' p' = Some (TorchTensor t')" and "use_fastpath (cl_context (clients w' b)) = 0"
    and "t_storage t = Some st" and "tensor_ok 4 (st_data st) (storage_offset t) (dims t)"
    and "t_storage t' = Some st'" and "tensor_ok 4 (st_data st') (storage_offset t') (dims t')" and "dims t' = dims t"
    and "nat (elements (dims t)) * 4 < 2 ^ 31"
    and "incoming (net w') (cl_sock (clients w' b)) = tensor_bytes 4 (st_data st) (storage_offset t) (dims t) @ rest"
  shows "(\<exists>w1. cliser_client_send A K (Lcliser_Init K TH (\<lambda>_. True)) (LUserdata (TorchClass (ascii ''torch.FloatTensor'')) p) None (Some a) w =
        Some (Ret [] w1) \<and> outgoing (net w1) (cl_sock (clients w a)) =
        outgoing (net w) (cl_sock (clients w a)) @ tensor_bytes 4 (st_data st) (storage_offset t) (dims t)) \<and>
    (\<exists>w2 data. cliser_server_recv A K' (Lcliser_Init K' TH (\<lambda>_. True)) d junk (Some (LUserdata (TorchClass (ascii ''torch.IntTensor'')) p')) None (Some b) w' =
        Some (Ret [LUserdata (TorchClass (ascii ''torch.IntTensor'')) p'] w2) \<and>
      copied 4 (dims t) (st_data st) (storage_offset t) (st_data st') (storage_offset t') data)"
proof -
  have classes: "map_of class_table (ascii ''torch.FloatTensor'') = Some (4, True)" "map_of class_table (ascii ''torch.IntTensor'') = Some (4, True)"
    by code_simp+
  show ?thesis
    using client_sends_tensor [of K TH _ _ "\<lambda>_. True", OF assms(1,3) classes(1) TrueI assms(4-6,10,11,15), of A]
      server_receives_tensor [of K' TH _ _ "\<lambda>_. True", OF assms(2,3) classes(2) TrueI assms(7-16), of A d junk]
    by blast
qed

text \<open>
  A block of \<open>2 ^ 31\<close> bytes and more is sent completely, and then an error is raised: the number of bytes sent is kept in an \<open>int\<close> and is negative
  there.
\<close>

lemma negative_int:
  assumes "2 ^ 31 \<le> n" and "n < 2 ^ 32"
  shows "sint (ucast (of_nat n :: size_t) :: cint) < 0"
proof -
  have "n div 2 ^ 31 = 1" using assms by (simp add: div_nat_eqI)
  then have "bit n 31" by (simp add: bit_iff_odd)
  then have "bit (ucast (of_nat n :: size_t) :: cint) 31" by (simp add: bit_ucast_iff bit_of_nat_iff possible_bit_word)
  then show ?thesis using bit_last_iff [of "ucast (of_nat n :: size_t) :: cint"] by simp
qed

theorem large_send_raises:
  assumes "streams_ok K" and "2 ^ 31 \<le> length bs" and "length bs < 2 ^ 32"
  shows "\<exists>e cc' s'. sock_send_raw K sock bs (cc, s) = Some (Raise e (cc', s')) \<and> outgoing s' sock = outgoing s sock @ bs"
proof -
  obtain st' s' where "send_loop K sock bs (tx cc) s = Some (True, st', s')" "wrote sock bs s s'"
    using send_loop_ok [OF assms(1)] by blast
  then show ?thesis using negative_int [OF assms(2,3)] by (simp add: sock_send_raw_def sock_send_def checked_def wrote_def Let_def)
qed

end
