(* ===== verification/TensorCuda.thy ===== *)
theory TensorCuda
  imports Tensor
begin

text \<open>
  The transfer of tensors that are in the memory of a GPU: the parts of \<^verbatim>\<open>src/generic/cliser.c\<close> and \<^verbatim>\<open>src/cliser.c\<close> that only builds with CUDA have. The data go
  through two buffers in turn, one of which is copied while the other is on the socket, or are read directly from the memory of the other process. The
  CUDA runtime is an argument; what a theorem needs of it is a hypothesis.
\<close>

section \<open>The CUDA runtime\<close>

datatype cuda_call =
    EventCreate | EventDestroy | EventRecord | EventSynchronize | MemcpyAsync | Memcpy | DeviceSynchronize | GetLastError | GetDevice
  | GetMemHandle "64 word" | OpenMemHandle "byte list" | CloseMemHandle "64 word" | CanAccessPeer cint cint | EnablePeerAccess cint

datatype cuda_error = CudaSuccess | CudaErrorNoDevice | CudaErrorPeerAccessAlreadyEnabled | CudaErrorOther int

text \<open>
  \<open>cu_error C c x\<close> is the result of the \<open>c\<close>-th call of the runtime, which is \<open>x\<close>, and \<open>cu_out\<close> the number it stores through a pointer argument. \<open>cu_handle\<close> gives the handle of
  the allocation at an address, \<open>cu_map\<close> the address at which an allocation with that handle is mapped, where the addresses in the list are mapped already,
  and \<open>cu_remote\<close> the contents of the allocation of the other process with a handle.
\<close>

record cuda =
  cu_error :: "nat \<Rightarrow> cuda_call \<Rightarrow> cuda_error"
  cu_out :: "nat \<Rightarrow> cuda_call \<Rightarrow> cint"
  cu_error_string :: "cuda_error \<Rightarrow> string"
  cu_handle :: "64 word \<Rightarrow> byte list"
  cu_map :: "64 word list \<Rightarrow> byte list \<Rightarrow> 64 word"
  cu_remote :: "byte list \<Rightarrow> byte list"

text \<open>The number of calls made and the mapped allocations: their addresses and handles.\<close>

record gpu =
  cuda_calls :: nat
  mapped :: "(64 word \<times> byte list) list"

type_synonym cuda_state = "copy_context \<times> os \<times> gpu"
type_synonym 'a cuda_result = "(cuda_state, 'a) net_result"

definition cuda_run :: "cuda \<Rightarrow> cuda_call \<Rightarrow> gpu \<Rightarrow> cuda_error \<times> gpu" where
  "cuda_run C x g = (cu_error C (cuda_calls g) x, g\<lparr>cuda_calls := cuda_calls g + 1\<rparr>)"

text \<open>\<open>THCudaCheck\<close> raises an error unless the call succeeds.\<close>

definition THCudaCheck :: "cuda \<Rightarrow> cuda_call \<Rightarrow> cuda_state \<Rightarrow> unit cuda_result" where
  "THCudaCheck C x = (\<lambda>(cc, s, g). (case cuda_run C x g of (err, g) \<Rightarrow>
     Some (if err = CudaSuccess then Ret () (cc, s, g) else Raise (LuaErrStr (cu_error_string C err)) (cc, s, g))))"

text \<open>One step after the other, up to the first that does not return.\<close>

definition and_then :: "('s, 'a) net_result \<Rightarrow> ('a \<Rightarrow> 's \<Rightarrow> ('s, 'b) net_result) \<Rightarrow> ('s, 'b) net_result" where
  "and_then r f = (case r of
      None \<Rightarrow> None
    | Some (Ret x s) \<Rightarrow> f x s
    | Some (Raise e s) \<Rightarrow> Some (Raise e s)
    | Some (Abort e) \<Rightarrow> Some (Abort e))"

lemma and_then_simps [simp]:
  "and_then None f = None" "and_then (Some (Ret x s)) f = f x s"
  "and_then (Some (Raise e s)) f = Some (Raise e s)" "and_then (Some (Abort e')) f = Some (Abort e')"
  by (simp_all add: and_then_def)

lemma and_then_assoc: "and_then (and_then r f) g = and_then r (\<lambda>x s. and_then (f x s) g)"
  by (auto simp: and_then_def split: option.splits lres.splits)

lemma and_then_mono [partial_function_mono]:
  fixes F :: "('x \<Rightarrow> 'y option) \<Rightarrow> ('s, 'a) net_result" and G :: "('x \<Rightarrow> 'y option) \<Rightarrow> 'a \<Rightarrow> 's \<Rightarrow> ('s, 'b) net_result"
  assumes "mono_option F" and "\<And>x s. mono_option (\<lambda>f. G f x s)"
  shows "mono_option (\<lambda>f. and_then (F f) (G f))"
proof (rule monotoneI)
  fix f g :: "'x \<Rightarrow> 'y option" assume fg: "fun_ord option_ord f g"
  have F: "option_ord (F f) (F g)" using assms(1) fg by (rule monotoneD [of _ _ _ f g])
  have "option_ord (G f x s) (G g x s)" for x s using assms(2) [of x s] fg by (rule monotoneD [of _ _ _ f g])
  then have G: "G f x s = None \<or> G f x s = G g x s" for x s by (simp add: flat_ord_def)
  show "option_ord (and_then (F f) (G f)) (and_then (F g) (G g))"
  proof (cases "F f")
    case None
    then show ?thesis by (simp add: flat_ord_def)
  next
    case (Some r)
    then have "F g = Some r" using F by (simp add: flat_ord_def)
    with Some G show ?thesis by (cases r) (auto simp: flat_ord_def)
  qed
qed

text \<open>Steps that leave the data alone.\<close>

definition beside :: "'d \<Rightarrow> ('s, 'a) net_result \<Rightarrow> ('d \<times> 's, 'a) net_result" where
  "beside d r = map_option (map_lres (Pair d) (\<lambda>x. x)) r"

section \<open>The two buffers\<close>

definition CUDA_BLOCK_SIZE :: nat where "CUDA_BLOCK_SIZE = 524288"

definition CUDA_BLOCK_COUNT :: "nat \<Rightarrow> nat" where "CUDA_BLOCK_COUNT es = CUDA_BLOCK_SIZE div es"

definition CUDA_REMOTE_PTRS :: nat where "CUDA_REMOTE_PTRS = 256"

definition null_remote_ptr :: remote_ptr where
  "null_remote_ptr = \<lparr>rp_handle = replicate 64 0, rp_ptr = 0, rp_dev_ptr = 0, rp_count = 0, rp_sock = 0\<rparr>"

text \<open>The contents of a buffer are the bytes last stored in it; the ones behind them are not used.\<close>

definition init_copy_context :: "cuda \<Rightarrow> cuda_state \<Rightarrow> unit cuda_result" where
  "init_copy_context C st =
     (if cu_buf (fst st) \<noteq> None then Some (Ret () st)
      else and_then (THCudaCheck C EventCreate st) (\<lambda>_ (cc, s, g).
        Some (Ret () (cc\<lparr>event := Some 0, cu_buf := Some (\<lambda>_. []), in_flight := [], max_remote_ptrs := CUDA_REMOTE_PTRS,
          remote_ptrs := replicate (length (remote_ptrs cc)) null_remote_ptr\<rparr>, s, g))))"

text \<open>
  The bytes in the buffer \<open>which\<close>, and new bytes for it. The processor may touch a buffer only when no copy that may still be running uses
  it.
\<close>

definition buf_get :: "bool \<Rightarrow> nat \<Rightarrow> copy_context \<Rightarrow> byte list option" where
  "buf_get which n cc = (case cu_buf cc of
      None \<Rightarrow> None | Some b \<Rightarrow> if n \<le> length (b which) then Some (take n (b which)) else None)"

definition buf_put :: "bool \<Rightarrow> byte list \<Rightarrow> copy_context \<Rightarrow> copy_context option" where
  "buf_put which bs cc = (case cu_buf cc of
      None \<Rightarrow> None | Some b \<Rightarrow> if length bs \<le> CUDA_BLOCK_SIZE then Some (cc\<lparr>cu_buf := Some (b(which := bs))\<rparr>) else None)"

definition cuda_send :: "kernel \<Rightarrow> cint \<Rightarrow> byte list \<Rightarrow> cuda_state \<Rightarrow> unit cuda_result" where
  "cuda_send K sock bs = (\<lambda>(cc, s, g). map_option (map_lres (\<lambda>(cc, s). (cc, s, g)) (\<lambda>x. x)) (sock_send_raw K sock bs (cc, s)))"

definition cuda_recv :: "kernel \<Rightarrow> cint \<Rightarrow> size_t \<Rightarrow> cuda_state \<Rightarrow> byte list cuda_result" where
  "cuda_recv K sock len = (\<lambda>(cc, s, g). map_option (map_lres (\<lambda>(cc, s). (cc, s, g)) (\<lambda>x. x)) (sock_recv_raw K sock len (cc, s)))"

definition send_buf :: "kernel \<Rightarrow> cint \<Rightarrow> bool \<Rightarrow> nat \<Rightarrow> cuda_state \<Rightarrow> unit cuda_result" where
  "send_buf K sock which n = (\<lambda>(cc, s, g).
     if which \<in> set (in_flight cc) then Some (Abort DataRace)
     else (case buf_get which n cc of
        None \<Rightarrow> Some (Abort OutOfBounds)
      | Some bs \<Rightarrow> cuda_send K sock bs (cc, s, g)))"

definition recv_buf :: "kernel \<Rightarrow> cint \<Rightarrow> bool \<Rightarrow> nat \<Rightarrow> cuda_state \<Rightarrow> unit cuda_result" where
  "recv_buf K sock which n = (\<lambda>(cc, s, g).
     if which \<in> set (in_flight cc) then Some (Abort DataRace)
     else and_then (cuda_recv K sock (of_nat n) (cc, s, g)) (\<lambda>bs (cc, s, g). (case buf_put which bs cc of
            None \<Rightarrow> Some (Abort OutOfBounds) | Some cc \<Rightarrow> Some (Ret () (cc, s, g)))))"

text \<open>
  \<open>cudaMemcpyAsync\<close> into a buffer and out of it. Copies run one after the other, so that the memory of the GPU always is as if each copy had been done at once.
\<close>

definition copy_to_host :: "cuda \<Rightarrow> bool \<Rightarrow> byte list \<Rightarrow> cuda_state \<Rightarrow> unit cuda_result" where
  "copy_to_host C which bs st = and_then (THCudaCheck C MemcpyAsync st) (\<lambda>_ (cc, s, g).
     (case buf_put which bs cc of
        None \<Rightarrow> Some (Abort OutOfBounds)
      | Some cc \<Rightarrow> Some (Ret () (cc\<lparr>in_flight := in_flight cc @ [which]\<rparr>, s, g))))"

definition copy_to_device :: "cuda \<Rightarrow> nat \<Rightarrow> bool \<Rightarrow> nat \<Rightarrow> byte list \<times> cuda_state \<Rightarrow> (byte list \<times> cuda_state, unit) net_result" where
  "copy_to_device C pos which n = (\<lambda>(data, st). and_then (beside data (THCudaCheck C MemcpyAsync st)) (\<lambda>_ (data, cc, s, g).
     (case buf_get which n cc of
        None \<Rightarrow> Some (Abort OutOfBounds)
      | Some bs \<Rightarrow> Some (Ret () (store_bytes data pos bs, cc\<lparr>in_flight := in_flight cc @ [which]\<rparr>, s, g)))))"

text \<open>\<open>cudaEventRecord\<close> lets the event wait for all copies started so far, and \<open>cudaEventSynchronize\<close> waits for the event.\<close>

definition event_record :: "cuda \<Rightarrow> cuda_state \<Rightarrow> unit cuda_result" where
  "event_record C st = and_then (THCudaCheck C EventRecord st) (\<lambda>_ (cc, s, g).
     Some (if event cc = None then Abort OutOfBounds else Ret () (cc\<lparr>event := Some (length (in_flight cc))\<rparr>, s, g)))"

definition event_synchronize :: "cuda \<Rightarrow> cuda_state \<Rightarrow> unit cuda_result" where
  "event_synchronize C st = and_then (THCudaCheck C EventSynchronize st) (\<lambda>_ (cc, s, g).
     (case event cc of
        None \<Rightarrow> Some (Abort OutOfBounds)
      | Some n \<Rightarrow> Some (Ret () (cc\<lparr>in_flight := drop n (in_flight cc), event := Some 0\<rparr>, s, g))))"

text \<open>\<open>cudaDeviceSynchronize\<close> and the plain \<open>cudaMemcpy\<close> wait for all copies.\<close>

definition all_done :: "copy_context \<Rightarrow> copy_context" where
  "all_done cc = cc\<lparr>in_flight := [], event := map_option (\<lambda>_. 0) (event cc)\<rparr>"

definition device_synchronize :: "cuda \<Rightarrow> cuda_state \<Rightarrow> unit cuda_result" where
  "device_synchronize C st = and_then (THCudaCheck C DeviceSynchronize st) (\<lambda>_ (cc, s, g). Some (Ret () (all_done cc, s, g)))"

section \<open>Sending\<close>

text \<open>
  The loop over the blocks: the block \<open>which\<close> is copied from the GPU while the one before it, of \<open>last_cb\<close> elements, is sent. \<open>blk\<close> is the number of
  elements of a whole block.
\<close>

definition write_round :: "cuda \<Rightarrow> kernel \<Rightarrow> nat \<Rightarrow> cint \<Rightarrow> byte list \<Rightarrow> bool \<Rightarrow> nat \<Rightarrow> cuda_state \<Rightarrow> unit cuda_result" where
  "write_round C K es sock bs which last_cb st =
     and_then (if last_cb \<noteq> 0 then event_synchronize C st else Some (Ret () st)) (\<lambda>_ st.
     and_then (copy_to_host C which bs st) (\<lambda>_ st.
     and_then (event_record C st) (\<lambda>_ st.
     if last_cb \<noteq> 0 then send_buf K sock (\<not> which) (last_cb * es) st else Some (Ret () st))))"

partial_function (option) cuda_write_loop ::
    "cuda \<Rightarrow> kernel \<Rightarrow> nat \<Rightarrow> nat \<Rightarrow> cint \<Rightarrow> byte list \<Rightarrow> int \<Rightarrow> nat \<Rightarrow> bool \<Rightarrow> nat \<Rightarrow> cuda_state \<Rightarrow> (bool \<times> nat) cuda_result" where
  "cuda_write_loop C K es blk sock data ptr cnt which last_cb st =
     (if cnt = 0 then Some (Ret (which, last_cb) st)
      else let cb = min cnt blk in
        and_then (write_round C K es sock (elems es data ptr (int cb)) which last_cb st) (\<lambda>_ st.
        cuda_write_loop C K es blk sock data (ptr + int cb) (cnt - cb) (\<not> which) cb st))"

definition send_last :: "cuda \<Rightarrow> kernel \<Rightarrow> nat \<Rightarrow> cint \<Rightarrow> bool \<times> nat \<Rightarrow> cuda_state \<Rightarrow> unit cuda_result" where
  "send_last C K es sock = (\<lambda>(which, last_cb) st.
     if last_cb \<noteq> 0 then and_then (event_synchronize C st) (\<lambda>_ st. send_buf K sock (\<not> which) (last_cb * es) st)
     else Some (Ret () st))"

definition cuda_write_blocks :: "cuda \<Rightarrow> kernel \<Rightarrow> nat \<Rightarrow> nat \<Rightarrow> cint \<Rightarrow> byte list \<Rightarrow> int \<Rightarrow> nat \<Rightarrow> cuda_state \<Rightarrow> unit cuda_result" where
  "cuda_write_blocks C K es blk sock data ptr cnt st =
     and_then (cuda_write_loop C K es blk sock data ptr cnt False 0 st) (send_last C K es sock)"

text \<open>
  The description of a block that is sent on the fast path, a \<open>remote_ptr_t\<close>: the handle, the address and the number of elements. Its other members, \<open>dev_ptr\<close> and \<open>sock\<close>, and
  its padding are sent as they happen to be on the stack.
\<close>

definition remote_ptr_bytes :: "(nat \<Rightarrow> byte) \<Rightarrow> byte list \<Rightarrow> 64 word \<Rightarrow> size_t \<Rightarrow> byte list" where
  "remote_ptr_bytes junk handle ptr cnt = handle @ le_bytes 8 ptr @ map junk [0..<8] @ le_bytes 8 cnt @ map junk [8..<16]"

definition remote_ptr_of :: "byte list \<Rightarrow> remote_ptr" where
  "remote_ptr_of bs = \<lparr>rp_handle = take 64 bs, rp_ptr = le_word (take 8 (drop 64 bs)), rp_dev_ptr = le_word (take 8 (drop 72 bs)),
     rp_count = le_word (take 8 (drop 80 bs)), rp_sock = le_word (take 4 (drop 88 bs))\<rparr>"

definition cuda_write_ipc :: "cuda \<Rightarrow> kernel \<Rightarrow> (nat \<Rightarrow> byte) \<Rightarrow> nat \<Rightarrow> cint \<Rightarrow> 64 word \<Rightarrow> nat \<Rightarrow> cuda_state \<Rightarrow> unit cuda_result" where
  "cuda_write_ipc C K junk es sock addr cnt st =
     and_then (THCudaCheck C (GetMemHandle addr) st) (\<lambda>_ st.
     and_then (device_synchronize C st) (\<lambda>_ st.
     and_then (cuda_send K sock (remote_ptr_bytes junk (cu_handle C addr) addr (of_nat cnt)) st) (\<lambda>_ st.
     and_then (cuda_recv K sock 4 st) (\<lambda>_ (cc, s, g).
     Some (Ret () (cc\<lparr>tx := (tx cc)\<lparr>cuda_ipc_bytes := cuda_ipc_bytes (tx cc) + of_nat (cnt * es)\<rparr>\<rparr>, s, g))))))"

text \<open>\<open>base\<close> is the address of the data of the storage, and \<open>ptr\<close> the number of an element in it.\<close>

definition cuda_write_contiguous ::
    "cuda \<Rightarrow> kernel \<Rightarrow> (nat \<Rightarrow> byte) \<Rightarrow> nat \<Rightarrow> 64 word \<Rightarrow> cint \<Rightarrow> byte list \<Rightarrow> int \<Rightarrow> int \<Rightarrow> cuda_state \<Rightarrow> unit cuda_result" where
  "cuda_write_contiguous C K junk es base sock data ptr cnt st =
     (if in_bounds es data ptr cnt then
        and_then (init_copy_context C st) (\<lambda>_ st.
          if use_fastpath (fst st) \<noteq> 0 then cuda_write_ipc C K junk es sock (base + of_int (ptr * int es)) (nat cnt) st
          else cuda_write_blocks C K es (CUDA_BLOCK_COUNT es) sock data ptr (nat cnt) st)
      else Some (Abort OutOfBounds))"

section \<open>Receiving\<close>

text \<open>The loop over the blocks: the block before, of \<open>last_cb\<close> elements, is copied to the GPU while the next one is received.\<close>

definition read_round ::
    "cuda \<Rightarrow> kernel \<Rightarrow> nat \<Rightarrow> cint \<Rightarrow> int \<Rightarrow> nat \<Rightarrow> bool \<Rightarrow> nat \<Rightarrow> byte list \<times> cuda_state \<Rightarrow> (byte list \<times> cuda_state, unit) net_result" where
  "read_round C K es sock ptr n which last_cb ds =
     and_then (if last_cb \<noteq> 0 then
         and_then (beside (fst ds) (event_synchronize C (snd ds))) (\<lambda>_ ds.
         and_then (copy_to_device C (nat ptr * es) (\<not> which) (last_cb * es) ds) (\<lambda>_ ds.
         beside (fst ds) (event_record C (snd ds))))
       else Some (Ret () ds)) (\<lambda>_ ds.
     beside (fst ds) (recv_buf K sock which (n * es) (snd ds)))"

partial_function (option) cuda_read_loop ::
    "cuda \<Rightarrow> kernel \<Rightarrow> nat \<Rightarrow> nat \<Rightarrow> cint \<Rightarrow> int \<Rightarrow> nat \<Rightarrow> bool \<Rightarrow> nat \<Rightarrow> byte list \<times> cuda_state \<Rightarrow>
      (byte list \<times> cuda_state, int \<times> bool \<times> nat) net_result" where
  "cuda_read_loop C K es blk sock ptr cnt which last_cb ds =
     (if cnt = 0 then Some (Ret (ptr, which, last_cb) ds)
      else let cb = min cnt blk in
        and_then (read_round C K es sock ptr cb which last_cb ds) (\<lambda>_ ds.
        cuda_read_loop C K es blk sock (ptr + int last_cb) (cnt - cb) (\<not> which) cb ds))"

definition copy_last ::
    "cuda \<Rightarrow> nat \<Rightarrow> int \<times> bool \<times> nat \<Rightarrow> byte list \<times> cuda_state \<Rightarrow> (byte list \<times> cuda_state, unit) net_result" where
  "copy_last C es = (\<lambda>(ptr, which, last_cb) ds.
     if last_cb \<noteq> 0 then
       and_then (beside (fst ds) (event_synchronize C (snd ds))) (\<lambda>_ ds.
       and_then (beside (fst ds) (THCudaCheck C Memcpy (snd ds))) (\<lambda>_ (data, cc, s, g).
         (case buf_get (\<not> which) (last_cb * es) cc of
            None \<Rightarrow> Some (Abort OutOfBounds)
          | Some bs \<Rightarrow> Some (Ret () (store_bytes data (nat ptr * es) bs, all_done cc, s, g)))))
     else Some (Ret () ds))"

definition cuda_read_blocks ::
    "cuda \<Rightarrow> kernel \<Rightarrow> nat \<Rightarrow> nat \<Rightarrow> cint \<Rightarrow> int \<Rightarrow> nat \<Rightarrow> byte list \<times> cuda_state \<Rightarrow> (byte list \<times> cuda_state, unit) net_result" where
  "cuda_read_blocks C K es blk sock ptr cnt ds =
     and_then (if 0 < cnt then beside (fst ds) (event_record C (snd ds)) else Some (Ret () ds)) (\<lambda>_ ds.
     and_then (cuda_read_loop C K es blk sock ptr cnt False 0 ds) (copy_last C es))"

text \<open>
  The fast path: the mapped allocations of other processes are remembered in \<open>remote_ptrs\<close>. The last element of a block is found by arithmetic on pointers, which is that of 64-bit words
  here.
\<close>

definition has_overlap :: "nat \<Rightarrow> 64 word \<Rightarrow> size_t \<Rightarrow> 64 word \<Rightarrow> size_t \<Rightarrow> bool" where
  "has_overlap es p0 c0 p1 c1 =
     (let ep0 = p0 + c0 * of_nat es - of_nat es; ep1 = p1 + c1 * of_nat es - of_nat es in
      p0 \<ge> p1 \<and> p0 \<le> ep1 \<or> ep0 \<ge> p1 \<and> ep0 \<le> ep1 \<or> p1 \<ge> p0 \<and> p1 \<le> ep0 \<or> ep1 \<ge> p0 \<and> ep1 \<le> ep0)"

definition close_remote :: "nat \<Rightarrow> copy_context \<times> gpu \<Rightarrow> copy_context \<times> gpu" where
  "close_remote i = (\<lambda>(cc, g).
     (cc\<lparr>remote_ptrs := take i (remote_ptrs cc) @ drop (i + 1) (remote_ptrs cc)\<rparr>,
      g\<lparr>mapped := filter (\<lambda>(a, h). a \<noteq> rp_dev_ptr (remote_ptrs cc ! i)) (mapped g)\<rparr>))"

text \<open>
  The search for the handle, from the entry \<open>i\<close> on. An entry of the same socket that overlaps the new block is closed and removed; the result is the place of the handle or
  the number of entries.
\<close>

function find_remote :: "cuda \<Rightarrow> nat \<Rightarrow> remote_ptr \<Rightarrow> cint \<Rightarrow> nat \<Rightarrow> cuda_state \<Rightarrow> nat cuda_result" where
  "find_remote C es r sock i (cc, s, g) =
     (if i < length (remote_ptrs cc) then
        let e = remote_ptrs cc ! i in
        if rp_handle r = rp_handle e then Some (Ret i (cc, s, g))
        else if rp_sock e = sock \<and> has_overlap es (rp_ptr r) (rp_count r) (rp_ptr e) (rp_count e) then
          let (err, g) = cuda_run C (CloseMemHandle (rp_dev_ptr e)) g in
          if err \<noteq> CudaSuccess then Some (Raise (LuaErrStr (cu_error_string C err)) (cc, s, g))
          else find_remote C es r sock i (fst (close_remote i (cc, g)), s, snd (close_remote i (cc, g)))
        else find_remote C es r sock (i + 1) (cc, s, g)
      else Some (Ret i (cc, s, g)))"
  by pat_completeness auto
termination
  by (relation "measure (\<lambda>(C, es, r, sock, i, cc, s, g). length (remote_ptrs cc) - i)") (auto simp: close_remote_def)

declare find_remote.simps [simp del]

definition open_remote :: "cuda \<Rightarrow> remote_ptr \<Rightarrow> cint \<Rightarrow> nat \<Rightarrow> cuda_state \<Rightarrow> unit cuda_result" where
  "open_remote C r sock i = (\<lambda>(cc, s, g).
     (let cc = (if length (remote_ptrs cc) = max_remote_ptrs cc then cc\<lparr>max_remote_ptrs := max_remote_ptrs cc + CUDA_REMOTE_PTRS\<rparr> else cc) in
      if max_remote_ptrs cc \<le> i then Some (Abort OutOfBounds)
      else and_then (THCudaCheck C (OpenMemHandle (rp_handle r)) (cc, s, g)) (\<lambda>_ (cc, s, g).
        let dev = cu_map C (map fst (mapped g)) (rp_handle r) in
        Some (Ret () (cc\<lparr>remote_ptrs := remote_ptrs cc @ [r\<lparr>rp_dev_ptr := dev, rp_sock := sock\<rparr>]\<rparr>, s,
          g\<lparr>mapped := mapped g @ [(dev, rp_handle r)]\<rparr>)))))"

definition copy_remote :: "cuda \<Rightarrow> nat \<Rightarrow> nat \<Rightarrow> nat \<Rightarrow> byte list \<times> cuda_state \<Rightarrow> (byte list \<times> cuda_state, unit) net_result" where
  "copy_remote C pos i n = (\<lambda>(data, st). and_then (beside data (THCudaCheck C Memcpy st)) (\<lambda>_ (data, cc, s, g).
     if i < length (remote_ptrs cc) then
       (case map_of (mapped g) (rp_dev_ptr (remote_ptrs cc ! i)) of
          None \<Rightarrow> Some (Abort OutOfBounds)
        | Some h \<Rightarrow> if n \<le> length (cu_remote C h) then Some (Ret () (store_bytes data pos (take n (cu_remote C h)), all_done cc, s, g))
            else Some (Abort OutOfBounds))
     else Some (Abort OutOfBounds)))"

definition cuda_read_ipc ::
    "cuda \<Rightarrow> kernel \<Rightarrow> nat \<Rightarrow> cint \<Rightarrow> int \<Rightarrow> nat \<Rightarrow> byte list \<times> cuda_state \<Rightarrow> (byte list \<times> cuda_state, unit) net_result" where
  "cuda_read_ipc C K es sock ptr cnt ds =
     and_then (beside (fst ds) (cuda_recv K sock 96 (snd ds))) (\<lambda>bs ds.
     let r = remote_ptr_of bs in
     and_then (beside (fst ds) (find_remote C es r sock 0 (snd ds))) (\<lambda>i ds.
     and_then (if i = length (remote_ptrs (fst (snd ds))) then beside (fst ds) (open_remote C r sock i (snd ds)) else Some (Ret () ds)) (\<lambda>_ ds.
     and_then (copy_remote C (nat ptr * es) i (cnt * es) ds) (\<lambda>_ ds.
     and_then (beside (fst ds) (device_synchronize C (snd ds))) (\<lambda>_ ds.
     and_then (beside (fst ds) (cuda_send K sock (le_bytes 4 (1 :: cint)) (snd ds))) (\<lambda>_ (data, cc, s, g).
     Some (Ret () (data, cc\<lparr>rx := (rx cc)\<lparr>cuda_ipc_bytes := cuda_ipc_bytes (rx cc) + of_nat (cnt * es)\<rparr>\<rparr>, s, g))))))))"

definition cuda_read_contiguous ::
    "cuda \<Rightarrow> kernel \<Rightarrow> nat \<Rightarrow> cint \<Rightarrow> int \<Rightarrow> int \<Rightarrow> byte list \<times> cuda_state \<Rightarrow> (byte list \<times> cuda_state, unit) net_result" where
  "cuda_read_contiguous C K es sock ptr cnt ds =
     (if in_bounds es (fst ds) ptr cnt then
        and_then (beside (fst ds) (init_copy_context C (snd ds))) (\<lambda>_ ds.
          if use_fastpath (fst (snd ds)) \<noteq> 0 then cuda_read_ipc C K es sock ptr (nat cnt) ds
          else cuda_read_blocks C K es (CUDA_BLOCK_COUNT es) sock ptr (nat cnt) ds)
      else Some (Abort OutOfBounds))"

text \<open>The instance of the file for CUDA, whose elements are \<open>float\<close>s.\<close>

definition cuda_transport :: "cuda \<Rightarrow> kernel \<Rightarrow> (nat \<Rightarrow> byte) \<Rightarrow> nat \<Rightarrow> 64 word \<Rightarrow> cint \<Rightarrow> cuda_state transport" where
  "cuda_transport C K junk es base sock =
     \<lparr>send_raw = cuda_send K sock, recv_raw = cuda_recv K sock, fastpath = (\<lambda>(cc, s, g). use_fastpath cc),
      write_block = cuda_write_contiguous C K junk es base sock, read_block = cuda_read_contiguous C K es sock\<rparr>"

section \<open>Setting up and tearing down\<close>

text \<open>
  Whether the two ends of a socket, on the same host, can read the memory of each other's GPU: they tell each other the number of their device. Bytes of the number that do
  not arrive at once are those that happen to be on the stack.
\<close>

definition enable_peer :: "cuda \<Rightarrow> cint \<Rightarrow> cint \<Rightarrow> os \<times> gpu \<Rightarrow> (os \<times> gpu, bool) net_result" where
  "enable_peer C device remote_device = (\<lambda>(s, g).
     (let can = cu_out C (cuda_calls g) (CanAccessPeer device remote_device); (err, g) = cuda_run C (CanAccessPeer device remote_device) g in
      if err \<noteq> CudaSuccess then Some (Raise (LuaErrStr (cu_error_string C err)) (s, g))
      else if can \<noteq> 0 then
        let (err, g) = cuda_run C (EnablePeerAccess remote_device) g in
        if err = CudaErrorPeerAccessAlreadyEnabled then Some (Ret True (s, snd (cuda_run C GetLastError g)))
        else Some (Ret (err = CudaSuccess) (s, g))
      else Some (Ret False (s, g))))"

definition can_use_fastpath ::
    "cuda \<Rightarrow> kernel \<Rightarrow> (nat \<Rightarrow> byte) \<Rightarrow> cint \<Rightarrow> uint32 \<Rightarrow> uint32 \<Rightarrow> os \<times> gpu \<Rightarrow> (os \<times> gpu, bool) net_result" where
  "can_use_fastpath C K junk sock bind_addr addr = (\<lambda>(s, g).
     if bind_addr \<noteq> addr then Some (Ret False (s, g))
     else
       let device = cu_out C (cuda_calls g) GetDevice; (err, g) = cuda_run C GetDevice g;
           fail = (\<lambda>s. case sys K (SysClose sock) s of (_, _, s) \<Rightarrow> Some (Raise (lua_handle_error (errno s)) (s, g))) in
       if err = CudaErrorNoDevice then Some (Ret False (s, snd (cuda_run C GetLastError g)))
       else if err \<noteq> CudaSuccess then Some (Raise (LuaErrStr (cu_error_string C err)) (s, g))
       else (case stream_write K (SysSend sock 4) sock (le_bytes 4 device) s of (ret, s) \<Rightarrow>
         if ret < 0 then fail s
         else (case stream_read K (SysRecv sock 4) sock 4 s of
             None \<Rightarrow> None
           | Some (ret, bs, s) \<Rightarrow>
               if ret \<le> 0 then fail s
               else let remote_device = le_word (bs @ map junk [length bs..<4]) in
                 if device \<noteq> remote_device then enable_peer C device remote_device (s, g) else Some (Ret False (s, g)))))"

definition destroy_copy_context :: "cuda \<Rightarrow> copy_context \<times> gpu \<Rightarrow> (copy_context \<times> gpu, unit) lres" where
  "destroy_copy_context C = (\<lambda>(cc, g).
     (case (if event cc = None then (CudaSuccess, g) else cuda_run C EventDestroy g) of (err, g) \<Rightarrow>
        if err \<noteq> CudaSuccess then Raise (LuaErrStr (cu_error_string C err)) (cc, g)
        else Ret () (cc\<lparr>event := None, cu_buf := None\<rparr>, g)))"

section \<open>Double buffering\<close>

text \<open>
  What the theorems ask of the runtime: the calls succeed, handles have 64 bytes, and a new mapping is at an address that is not in use.
\<close>

definition cuda_ok :: "cuda \<Rightarrow> bool" where
  "cuda_ok C \<longleftrightarrow> (\<forall>c x. cu_error C c x = CudaSuccess) \<and> (\<forall>p. length (cu_handle C p) = 64) \<and>
     (\<forall>as h. length as < 2 ^ 32 \<longrightarrow> cu_map C as h \<notin> set as)"

definition tick :: "gpu \<Rightarrow> gpu" where
  "tick g = g\<lparr>cuda_calls := cuda_calls g + 1\<rparr>"

lemma tick_simps [simp]: "mapped (tick g) = mapped g"
  by (simp add: tick_def)

lemma cuda_steps:
  assumes "cuda_ok C"
  shows "THCudaCheck C x (cc, s, g) = Some (Ret () (cc, s, tick g))"
    and "cuda_run C x g = (CudaSuccess, tick g)"
  using assms by (simp_all add: THCudaCheck_def cuda_run_def cuda_ok_def tick_def)

lemma beside_simps [simp]:
  "beside d None = None" "beside d (Some (Ret x s)) = Some (Ret x (d, s))"
  "beside d (Some (Raise e s)) = Some (Raise e (d, s))" "beside d (Some (Abort f)) = Some (Abort f)"
  by (simp_all add: beside_def)

lemma event_steps:
  assumes "cuda_ok C" and "event cc = Some n"
  shows "event_synchronize C (cc, s, g) = Some (Ret () (cc\<lparr>in_flight := drop n (in_flight cc), event := Some 0\<rparr>, s, tick g))"
    and "event_record C (cc, s, g) = Some (Ret () (cc\<lparr>event := Some (length (in_flight cc))\<rparr>, s, tick g))"
  using assms by (simp_all add: event_synchronize_def event_record_def cuda_steps)

lemma cuda_send_ok:
  assumes "streams_ok K" and "length bs < 2 ^ 31"
  shows "\<exists>st s'. cuda_send K sock bs (cc, s, g) = Some (Ret () (cc\<lparr>tx := st\<rparr>, s', g)) \<and> wrote sock bs s s'"
  using sock_send_raw_ok [OF assms, of sock cc s] by (auto simp: cuda_send_def)

lemma cuda_recv_ok:
  assumes "streams_ok K" and "length bs < 2 ^ 31" and "incoming s sock = bs @ rest"
  shows "\<exists>st s'. cuda_recv K sock (of_nat (length bs)) (cc, s, g) = Some (Ret bs (cc\<lparr>rx := st\<rparr>, s', g)) \<and> took sock bs s s'"
  using sock_recv_raw_ok [OF assms, of cc] by (auto simp: cuda_recv_def)

lemma elems_split:
  assumes "in_bounds es data p (int n)" and "m \<le> n"
  shows "elems es data p (int n) = elems es data p (int m) @ elems es data (p + int m) (int (n - m))"
    and "in_bounds es data p (int m)" and "in_bounds es data (p + int m) (int (n - m))"
proof -
  have "n * es = m * es + (n - m) * es" using assms(2) by (simp flip: distrib_right)
  moreover have "nat (p + int m) * es = nat p * es + m * es" using assms(1) by (simp add: in_bounds_def nat_add_distrib distrib_right)
  ultimately show "elems es data p (int n) = elems es data p (int m) @ elems es data (p + int m) (int (n - m))"
    by (simp add: elems_def take_add add.commute)
  have "(p + int m) * int es \<le> (p + int n) * int es" using assms(2) by (simp add: mult_right_mono)
  then show "in_bounds es data p (int m)" and "in_bounds es data (p + int m) (int (n - m))"
    using assms by (auto simp: in_bounds_def of_nat_diff)
qed

text \<open>
  The buffers at the head of the sending loop: nothing is under way, or the bytes \<open>bs\<close> of the block before are being copied into the other buffer and the event waits for
  that. \<open>same_setup\<close> says that the loops change nothing of the context that the fast path uses.
\<close>

definition staged :: "nat \<Rightarrow> bool \<Rightarrow> nat \<Rightarrow> byte list \<Rightarrow> copy_context \<Rightarrow> bool" where
  "staged es which last_cb bs cc \<longleftrightarrow> length bs = last_cb * es \<and> length bs \<le> CUDA_BLOCK_SIZE \<and> (\<exists>b. cu_buf cc = Some b \<and>
     (if last_cb = 0 then in_flight cc = [] \<and> event cc \<noteq> None else in_flight cc = [\<not> which] \<and> event cc = Some 1 \<and> b (\<not> which) = bs))"

definition cuda_idle :: "copy_context \<Rightarrow> bool" where
  "cuda_idle cc \<longleftrightarrow> in_flight cc = [] \<and> event cc \<noteq> None \<and> cu_buf cc \<noteq> None"

definition same_setup :: "copy_context \<Rightarrow> copy_context \<Rightarrow> bool" where
  "same_setup cc cc' \<longleftrightarrow> use_fastpath cc' = use_fastpath cc \<and> remote_ptrs cc' = remote_ptrs cc \<and> max_remote_ptrs cc' = max_remote_ptrs cc"

lemma same_setup_trans: "same_setup c1 c2 \<Longrightarrow> same_setup c2 c3 \<Longrightarrow> same_setup c1 c3"
  by (simp add: same_setup_def)

lemma block_small: "length bs \<le> CUDA_BLOCK_SIZE \<Longrightarrow> length bs < 2 ^ 31"
  by (simp add: CUDA_BLOCK_SIZE_def)

lemma send_other_buf:
  assumes "streams_ok K" and "cu_buf cc = Some b" and "b which = bs" and "which \<notin> set (in_flight cc)" and "length bs \<le> CUDA_BLOCK_SIZE"
  shows "\<exists>st s'. send_buf K sock which (length bs) (cc, s, g) = Some (Ret () (cc\<lparr>tx := st\<rparr>, s', g)) \<and> wrote sock bs s s'"
  using cuda_send_ok [OF assms(1) block_small [OF assms(5)], of sock cc s g] assms(2-4) by (auto simp: send_buf_def buf_get_def)

lemma write_round_ok:
  assumes "streams_ok K" and "cuda_ok C" and "staged es which last_cb bs cc" and "length new = n * es" and "0 < n" and "length new \<le> CUDA_BLOCK_SIZE"
  shows "\<exists>cc' s' g'. write_round C K es sock new which last_cb (cc, s, g) = Some (Ret () (cc', s', g')) \<and> staged es (\<not> which) n new cc' \<and>
    same_setup cc cc' \<and> wrote sock bs s s'"
proof -
  obtain b where b: "cu_buf cc = Some b" using assms(3) by (auto simp: staged_def)
  show ?thesis
  proof (cases "last_cb = 0")
    case True
    then have "bs = []" "in_flight cc = []" "\<exists>k. event cc = Some k" using assms(3) by (auto simp: staged_def)
    then show ?thesis
      using True assms(2,4,5,6) b
      by (auto simp: write_round_def copy_to_host_def buf_put_def cuda_steps event_steps staged_def same_setup_def wrote_def)
  next
    case False
    then have st: "in_flight cc = [\<not> which]" "event cc = Some 1" "b (\<not> which) = bs" "last_cb * es = length bs" "length bs \<le> CUDA_BLOCK_SIZE"
      using assms(3) b by (auto simp: staged_def)
    let ?cc = "cc\<lparr>cu_buf := Some (b(which := new)), in_flight := [which], event := Some 1\<rparr>"
    obtain t s' where t: "send_buf K sock (\<not> which) (length bs) (?cc, s, tick (tick (tick g))) = Some (Ret () (?cc\<lparr>tx := t\<rparr>, s', tick (tick (tick g))))"
        "wrote sock bs s s'"
      using send_other_buf [OF assms(1), of ?cc "b(which := new)" "\<not> which" bs sock s "tick (tick (tick g))"] st by auto
    have "write_round C K es sock new which last_cb (cc, s, g) = Some (Ret () (?cc\<lparr>tx := t\<rparr>, s', tick (tick (tick g))))"
      using False assms(2,6) b st t(1) by (simp add: write_round_def copy_to_host_def buf_put_def cuda_steps event_steps)
    then show ?thesis using assms(4-6) t(2) by (auto simp: staged_def same_setup_def)
  qed
qed

lemma send_last_ok:
  assumes "streams_ok K" and "cuda_ok C" and "staged es which last_cb bs cc"
  shows "\<exists>cc' s' g'. send_last C K es sock (which, last_cb) (cc, s, g) = Some (Ret () (cc', s', g')) \<and> cuda_idle cc' \<and> same_setup cc cc' \<and> wrote sock bs s s'"
proof (cases "last_cb = 0")
  case True
  then show ?thesis using assms(3) by (auto simp: send_last_def staged_def cuda_idle_def same_setup_def wrote_def)
next
  case False
  then obtain b where st: "cu_buf cc = Some b" "in_flight cc = [\<not> which]" "event cc = Some 1" "b (\<not> which) = bs" "last_cb * es = length bs"
      "length bs \<le> CUDA_BLOCK_SIZE"
    using assms(3) by (auto simp: staged_def)
  let ?cc = "cc\<lparr>in_flight := [], event := Some 0\<rparr>"
  obtain t s' where "send_buf K sock (\<not> which) (length bs) (?cc, s, tick g) = Some (Ret () (?cc\<lparr>tx := t\<rparr>, s', tick g))" "wrote sock bs s s'"
    using send_other_buf [OF assms(1), of ?cc b "\<not> which" bs sock s "tick g"] st by auto
  then show ?thesis using False st assms(2) by (auto simp: send_last_def event_steps cuda_idle_def same_setup_def)
qed

lemma cuda_write_loop_ok:
  assumes "streams_ok K" and "cuda_ok C" and "0 < blk" and "blk * es \<le> CUDA_BLOCK_SIZE"
  shows "in_bounds es data ptr (int cnt) \<Longrightarrow> staged es which last_cb bs cc \<Longrightarrow>
    \<exists>cc' s' g'. and_then (cuda_write_loop C K es blk sock data ptr cnt which last_cb (cc, s, g)) (send_last C K es sock) = Some (Ret () (cc', s', g')) \<and>
      cuda_idle cc' \<and> same_setup cc cc' \<and> wrote sock (bs @ elems es data ptr (int cnt)) s s'"
proof (induction cnt arbitrary: ptr which last_cb bs cc s g rule: less_induct)
  case (less cnt)
  show ?case
  proof (cases "cnt = 0")
    case True
    then show ?thesis
      using send_last_ok [OF assms(1,2) less.prems(2), of sock s g] by (simp add: cuda_write_loop.simps elems_def)
  next
    case False
    define n where "n = min cnt blk"
    have n: "0 < n" "n \<le> cnt" "n \<le> blk" using False assms(3) by (auto simp: n_def)
    let ?new = "elems es data ptr (int n)"
    note split = elems_split [OF less.prems(1) n(2)]
    have "length ?new = n * es" "length ?new \<le> CUDA_BLOCK_SIZE"
      using split(2) n(3) assms(4) le_trans [OF mult_le_mono1 assms(4)] by simp_all
    from write_round_ok [OF assms(1,2) less.prems(2) this(1) n(1) this(2), of sock s g] obtain cc1 s1 g1 where
        r: "write_round C K es sock ?new which last_cb (cc, s, g) = Some (Ret () (cc1, s1, g1))" "staged es (\<not> which) n ?new cc1"
          "same_setup cc cc1" "wrote sock bs s s1" by blast
    from less.IH [OF _ split(3) r(2), of s1 g1] n(1,2) obtain cc' s' g' where
        l: "and_then (cuda_write_loop C K es blk sock data (ptr + int n) (cnt - n) (\<not> which) n (cc1, s1, g1)) (send_last C K es sock) =
            Some (Ret () (cc', s', g'))" "cuda_idle cc'" "same_setup cc1 cc'" "wrote sock (?new @ elems es data (ptr + int n) (int (cnt - n))) s1 s'"
      by auto
    have "and_then (cuda_write_loop C K es blk sock data ptr cnt which last_cb (cc, s, g)) (send_last C K es sock) = Some (Ret () (cc', s', g'))"
      using False r(1) l(1) by (subst cuda_write_loop.simps) (simp add: Let_def and_then_assoc flip: n_def)
    then show ?thesis
      using l(2) same_setup_trans [OF r(3) l(3)] wrote_trans [OF r(4) l(4)] split(1) by auto
  qed
qed

text \<open>
  The buffers at the head of the receiving loop: the bytes \<open>bs\<close> of the block before are in the other buffer, and the copy that may still be running is one out of this buffer.
\<close>

definition received :: "nat \<Rightarrow> bool \<Rightarrow> nat \<Rightarrow> byte list \<Rightarrow> copy_context \<Rightarrow> bool" where
  "received es which last_cb bs cc \<longleftrightarrow> length bs = last_cb * es \<and> event cc = Some (length (in_flight cc)) \<and> (\<exists>b. cu_buf cc = Some b \<and>
     (if last_cb = 0 then in_flight cc = [] else in_flight cc \<in> {[], [which]} \<and> b (\<not> which) = bs))"

lemma recv_free_buf:
  assumes "streams_ok K" and "cu_buf cc = Some b" and "which \<notin> set (in_flight cc)" and "length bs \<le> CUDA_BLOCK_SIZE"
    and "incoming s sock = bs @ rest"
  shows "\<exists>st s'. recv_buf K sock which (length bs) (cc, s, g) = Some (Ret () (cc\<lparr>rx := st, cu_buf := Some (b(which := bs))\<rparr>, s', g)) \<and> took sock bs s s'"
  using cuda_recv_ok [OF assms(1) block_small [OF assms(4)] assms(5), of cc g] assms(2-4) by (auto simp: recv_buf_def buf_put_def)

definition put_last :: "nat \<Rightarrow> int \<Rightarrow> byte list \<Rightarrow> byte list \<Rightarrow> byte list" where
  "put_last es ptr bs data = (if bs = [] then data else store_bytes data (nat ptr * es) bs)"

lemma read_round_ok:
  assumes "streams_ok K" and "cuda_ok C" and "received es which last_cb bs cc" and "length new = n * es" and "0 < n" and "0 < es"
    and "length new \<le> CUDA_BLOCK_SIZE" and "incoming s sock = new @ rest"
  shows "\<exists>cc' s' g'. read_round C K es sock ptr n which last_cb (data, cc, s, g) = Some (Ret () (put_last es ptr bs data, cc', s', g')) \<and>
    received es (\<not> which) n new cc' \<and> same_setup cc cc' \<and> took sock new s s'"
proof -
  obtain b where b: "cu_buf cc = Some b" "event cc = Some (length (in_flight cc))" using assms(3) by (auto simp: received_def)
  show ?thesis
  proof (cases "last_cb = 0")
    case True
    then have i: "bs = []" "in_flight cc = []" using assms(3) by (auto simp: received_def)
    obtain t s' where t: "recv_buf K sock which (n * es) (cc, s, g) = Some (Ret () (cc\<lparr>rx := t, cu_buf := Some (b(which := new))\<rparr>, s', g))" "took sock new s s'"
      using recv_free_buf [OF assms(1) b(1) _ assms(7,8), of which g] i assms(4) by auto
    then show ?thesis
      using True i b assms(4,5) by (auto simp: read_round_def put_last_def received_def same_setup_def)
  next
    case False
    then have st: "b (\<not> which) = bs" "last_cb * es = length bs" "bs \<noteq> []"
      using assms(3,6) b(1) by (auto simp: received_def)
    let ?cc = "cc\<lparr>in_flight := [\<not> which], event := Some 1\<rparr>" and ?g = "tick (tick (tick g))"
    obtain t s' where t: "recv_buf K sock which (n * es) (?cc, s, ?g) = Some (Ret () (?cc\<lparr>rx := t, cu_buf := Some (b(which := new))\<rparr>, s', ?g))" "took sock new s s'"
      using recv_free_buf [OF assms(1) _ _ assms(7,8), of ?cc b which ?g] b(1) assms(4) by auto
    have "read_round C K es sock ptr n which last_cb (data, cc, s, g) =
        Some (Ret () (put_last es ptr bs data, ?cc\<lparr>rx := t, cu_buf := Some (b(which := new))\<rparr>, s', ?g))"
      using False assms(2) b st t(1) by (simp add: read_round_def copy_to_device_def buf_get_def cuda_steps event_steps put_last_def)
    then show ?thesis using False assms(4,5) t(2) by (auto simp: received_def same_setup_def)
  qed
qed

lemma copy_last_ok:
  assumes "cuda_ok C" and "received es which last_cb bs cc" and "0 < es"
  shows "\<exists>cc' g'. copy_last C es (ptr, which, last_cb) (data, cc, s, g) = Some (Ret () (put_last es ptr bs data, cc', s, g')) \<and> cuda_idle cc' \<and> same_setup cc cc'"
proof (cases "last_cb = 0")
  case True
  then show ?thesis using assms(2) by (auto simp: copy_last_def received_def cuda_idle_def same_setup_def put_last_def)
next
  case False
  have len: "length bs = last_cb * es" using assms(2) by (simp add: received_def)
  then have "bs \<noteq> []" using False assms(3) by auto
  moreover obtain b where "cu_buf cc = Some b" "event cc = Some (length (in_flight cc))" "b (\<not> which) = bs"
    using assms(2) False by (auto simp: received_def)
  ultimately show ?thesis
    using False assms(1)
    by (simp add: copy_last_def event_steps cuda_steps buf_get_def put_last_def cuda_idle_def same_setup_def all_done_def flip: len)
qed

lemma store_bytes_append:
  assumes "pos + length b1 + length b2 \<le> length data"
  shows "store_bytes (store_bytes data pos b1) (pos + length b1) b2 = store_bytes data pos (b1 @ b2)"
  using assms by (simp add: store_bytes_def ac_simps)

lemma put_last_append:
  assumes "0 \<le> ptr" and "nat ptr * es + length b1 + length b2 \<le> length data" and "length b1 = n * es"
  shows "put_last es (ptr + int n) b2 (put_last es ptr b1 data) = put_last es ptr (b1 @ b2) data"
proof -
  have "nat (ptr + int n) * es = nat ptr * es + length b1" using assms(1,3) by (simp add: nat_add_distrib distrib_right)
  then show ?thesis using store_bytes_append [OF assms(2)] by (auto simp: put_last_def)
qed

lemma cuda_read_loop_ok:
  assumes "streams_ok K" and "cuda_ok C" and "0 < blk" and "blk * es \<le> CUDA_BLOCK_SIZE" and "0 < es"
  shows "received es which last_cb bs cc \<Longrightarrow> length new = cnt * es \<Longrightarrow> incoming s sock = new @ rest \<Longrightarrow> 0 \<le> ptr \<Longrightarrow>
    nat ptr * es + length bs + length new \<le> length data \<Longrightarrow>
    \<exists>cc' s' g'. and_then (cuda_read_loop C K es blk sock ptr cnt which last_cb (data, cc, s, g)) (copy_last C es) =
        Some (Ret () (put_last es ptr (bs @ new) data, cc', s', g')) \<and> cuda_idle cc' \<and> same_setup cc cc' \<and> took sock new s s'"
proof (induction cnt arbitrary: ptr which last_cb bs new data cc s g rule: less_induct)
  case (less cnt)
  show ?case
  proof (cases "cnt = 0")
    case True
    then show ?thesis
      using copy_last_ok [OF assms(2) less.prems(1) assms(5), of ptr data s g] less.prems(2)
      by (auto simp: cuda_read_loop.simps took_def)
  next
    case False
    define n where "n = min cnt blk"
    have n: "0 < n" "n \<le> cnt" "n \<le> blk" using False assms(3) by (auto simp: n_def)
    let ?now = "take (n * es) new" and ?later = "drop (n * es) new" and ?data = "put_last es ptr bs data"
    have len: "length ?now = n * es" "length ?later = (cnt - n) * es" using less.prems(2) n(2) by (simp_all add: diff_mult_distrib)
    have "length ?now \<le> CUDA_BLOCK_SIZE" using len(1) n(3) le_trans [OF mult_le_mono1 assms(4)] by simp
    moreover have "incoming s sock = ?now @ ?later @ rest" using less.prems(3) by simp
    ultimately obtain cc1 s1 g1 where
        r: "read_round C K es sock ptr n which last_cb (data, cc, s, g) = Some (Ret () (?data, cc1, s1, g1))" "received es (\<not> which) n ?now cc1"
          "same_setup cc cc1" "took sock ?now s s1"
      using read_round_ok [OF assms(1,2) less.prems(1) len(1) n(1) assms(5)] by blast
    have lb: "length bs = last_cb * es" using less.prems(1) by (simp add: received_def)
    have data: "length ?data = length data" using less.prems(5) by (simp add: put_last_def)
    have ptr: "nat (ptr + int last_cb) * es = nat ptr * es + length bs" using less.prems(4) lb by (simp add: nat_add_distrib distrib_right)
    have in1: "incoming s1 sock = ?later @ rest" using r(4) \<open>incoming s sock = ?now @ ?later @ rest\<close> by (simp add: took_def)
    have fit: "nat (ptr + int last_cb) * es + length ?now + length ?later \<le> length ?data" using less.prems(5) data ptr by simp
    from less.IH [OF _ r(2) len(2) in1 _ fit, of g1] n(1,2) less.prems(4) obtain cc' s' g' where
        l: "and_then (cuda_read_loop C K es blk sock (ptr + int last_cb) (cnt - n) (\<not> which) n (?data, cc1, s1, g1)) (copy_last C es) =
            Some (Ret () (put_last es (ptr + int last_cb) (?now @ ?later) ?data, cc', s', g'))" "cuda_idle cc'" "same_setup cc1 cc'" "took sock ?later s1 s'"
      by auto
    have "and_then (cuda_read_loop C K es blk sock ptr cnt which last_cb (data, cc, s, g)) (copy_last C es) =
        Some (Ret () (put_last es (ptr + int last_cb) new ?data, cc', s', g'))"
      using False r(1) l(1) by (subst cuda_read_loop.simps) (simp add: Let_def and_then_assoc flip: n_def)
    then show ?thesis
      using put_last_append [OF less.prems(4,5) lb] l(2) same_setup_trans [OF r(3) l(3)] took_trans [OF r(4) l(4)] by simp
  qed
qed

text \<open>Before and after a transfer no copy is running, and the event exists once there are buffers.\<close>

definition cuda_ready :: "cuda \<Rightarrow> kernel \<Rightarrow> nat \<Rightarrow> cuda_state \<Rightarrow> bool" where
  "cuda_ready C K es = (\<lambda>(cc, s, g). streams_ok K \<and> cuda_ok C \<and> es \<in> {1, 2, 4, 8} \<and> use_fastpath cc = 0 \<and> in_flight cc = [] \<and>
     (cu_buf cc = None \<or> event cc \<noteq> None))"

lemma init_copy_context_ok:
  assumes "cuda_ok C" and "in_flight cc = []" and "cu_buf cc = None \<or> event cc \<noteq> None"
  shows "\<exists>cc' g'. init_copy_context C (cc, s, g) = Some (Ret () (cc', s, g')) \<and> cuda_idle cc' \<and> use_fastpath cc' = use_fastpath cc"
  using assms by (auto simp: init_copy_context_def cuda_steps cuda_idle_def)

lemma block_count:
  assumes "es \<in> {1, 2, 4, 8 :: nat}"
  shows "0 < CUDA_BLOCK_COUNT es" and "CUDA_BLOCK_COUNT es * es \<le> CUDA_BLOCK_SIZE"
  using assms by (auto simp: CUDA_BLOCK_COUNT_def CUDA_BLOCK_SIZE_def)

lemma cuda_write_contiguous_ok:
  assumes "cuda_ready C K es (cc, s, g)" and "in_bounds es data ptr n"
  shows "\<exists>cc' s' g'. cuda_write_contiguous C K junk es base sock data ptr n (cc, s, g) = Some (Ret () (cc', s', g')) \<and>
    cuda_ready C K es (cc', s', g') \<and> wrote sock (elems es data ptr n) s s'"
proof -
  have r: "streams_ok K" "cuda_ok C" "es \<in> {1, 2, 4, 8}" "use_fastpath cc = 0" "in_flight cc = []" "cu_buf cc = None \<or> event cc \<noteq> None"
    using assms(1) by (auto simp: cuda_ready_def)
  obtain cc1 g1 where i: "init_copy_context C (cc, s, g) = Some (Ret () (cc1, s, g1))" "cuda_idle cc1" "use_fastpath cc1 = 0"
    using init_copy_context_ok [OF r(2,5,6), of s g] r(4) by auto
  have n: "int (nat n) = n" using assms(2) by (simp add: in_bounds_def)
  have "staged es False 0 [] cc1" using i(2) by (auto simp: staged_def cuda_idle_def)
  from cuda_write_loop_ok [OF r(1,2) block_count [OF r(3)] _ this, of data ptr "nat n" sock s g1] assms(2) n obtain cc' s' g' where
      "cuda_write_blocks C K es (CUDA_BLOCK_COUNT es) sock data ptr (nat n) (cc1, s, g1) = Some (Ret () (cc', s', g'))"
      "cuda_idle cc'" "same_setup cc1 cc'" "wrote sock (elems es data ptr n) s s'"
    by (auto simp: cuda_write_blocks_def)
  then show ?thesis using assms(2) i(1,3) r(1-3) by (auto simp: cuda_write_contiguous_def cuda_ready_def same_setup_def cuda_idle_def)
qed

lemma cuda_read_contiguous_ok:
  assumes "cuda_ready C K es (cc, s, g)" and "in_bounds es data ptr n" and "length bs = nat n * es" and "incoming s sock = bs @ rest"
  shows "\<exists>cc' s' g'. cuda_read_contiguous C K es sock ptr n (data, cc, s, g) = Some (Ret () (store_bytes data (nat ptr * es) bs, cc', s', g')) \<and>
    cuda_ready C K es (cc', s', g') \<and> took sock bs s s'"
proof -
  have r: "streams_ok K" "cuda_ok C" "es \<in> {1, 2, 4, 8}" "use_fastpath cc = 0" "in_flight cc = []" "cu_buf cc = None \<or> event cc \<noteq> None" "0 < es"
    using assms(1) by (auto simp: cuda_ready_def)
  obtain cc1 g1 where i: "init_copy_context C (cc, s, g) = Some (Ret () (cc1, s, g1))" "cuda_idle cc1" "use_fastpath cc1 = 0"
    using init_copy_context_ok [OF r(2,5,6), of s g] r(4) by auto
  obtain k where k: "event cc1 = Some k" using i(2) by (auto simp: cuda_idle_def)
  have ptr: "0 \<le> ptr" "nat ptr * es + length [] + length bs \<le> length data" using assms(2,3) in_bounds_nat [OF assms(2)] by (auto simp: in_bounds_def)
  have store: "put_last es ptr bs data = store_bytes data (nat ptr * es) bs" by (simp add: put_last_def store_bytes_def)
  show ?thesis
  proof (cases "nat n = 0")
    case True
    then have "bs = []" "store_bytes data (nat ptr * es) bs = data" using assms(3) store by (simp_all add: put_last_def)
    then show ?thesis
      using True assms(2) i r(1-3)
      by (auto simp: cuda_read_contiguous_def cuda_read_blocks_def cuda_read_loop.simps copy_last_def cuda_ready_def took_def cuda_idle_def)
  next
    case False
    have "received es False 0 [] (cc1\<lparr>event := Some 0\<rparr>)" using i(2) by (auto simp: received_def cuda_idle_def)
    from cuda_read_loop_ok [OF r(1,2) block_count [OF r(3)] r(7) this assms(3,4) ptr, of "tick g1"] obtain cc' s' g' where
        "and_then (cuda_read_loop C K es (CUDA_BLOCK_COUNT es) sock ptr (nat n) False 0 (data, cc1\<lparr>event := Some 0\<rparr>, s, tick g1)) (copy_last C es) =
          Some (Ret () (store_bytes data (nat ptr * es) bs, cc', s', g'))"
        "cuda_idle cc'" "same_setup cc1 cc'" "took sock bs s s'"
      by (auto simp: store same_setup_def)
    then show ?thesis
      using False assms(2) i k r(1-3)
      by (auto simp: cuda_read_contiguous_def cuda_read_blocks_def event_steps cuda_idle_def cuda_ready_def same_setup_def)
  qed
qed

text \<open>The contract of \<open>byte_transport\<close> holds for blocks of every length.\<close>

interpretation device: byte_transport "cuda_transport C K junk es base sock" es sock "cuda_ready C K es" "\<lambda>_. True" "\<lambda>st. fst (snd st)"
  for C K junk es base sock
proof unfold_locales
  fix st :: cuda_state and bs data rest :: "byte list" and p n :: int
  obtain cc s g where st: "st = (cc, s, g)" by (cases st)
  show "cuda_ready C K es st \<Longrightarrow> fastpath (cuda_transport C K junk es base sock) st = 0" by (simp add: st cuda_ready_def cuda_transport_def)
  show "cuda_ready C K es st \<Longrightarrow> length bs < 2 ^ 31 \<Longrightarrow>
      \<exists>st'. send_raw (cuda_transport C K junk es base sock) bs st = Some (Ret () st') \<and> cuda_ready C K es st' \<and> wrote sock bs (fst (snd st)) (fst (snd st'))"
    using cuda_send_ok [of K bs sock cc s g] by (auto simp: st cuda_ready_def cuda_transport_def cuda_idle_def)
  show "cuda_ready C K es st \<Longrightarrow> length bs < 2 ^ 31 \<Longrightarrow> incoming (fst (snd st)) sock = bs @ rest \<Longrightarrow>
      \<exists>st'. recv_raw (cuda_transport C K junk es base sock) (of_nat (length bs)) st = Some (Ret bs st') \<and> cuda_ready C K es st' \<and>
        took sock bs (fst (snd st)) (fst (snd st'))"
    using cuda_recv_ok [of K bs s sock rest cc g] by (auto simp: st cuda_ready_def cuda_transport_def cuda_idle_def)
  show "cuda_ready C K es st \<Longrightarrow> in_bounds es data p n \<Longrightarrow>
      \<exists>st'. write_block (cuda_transport C K junk es base sock) data p n st = Some (Ret () st') \<and> cuda_ready C K es st' \<and>
        wrote sock (elems es data p n) (fst (snd st)) (fst (snd st'))"
    using cuda_write_contiguous_ok [of C K es cc s g data p n junk base sock] by (auto simp: st cuda_transport_def)
  show "cuda_ready C K es st \<Longrightarrow> in_bounds es data p n \<Longrightarrow> length bs = nat n * es \<Longrightarrow> incoming (fst (snd st)) sock = bs @ rest \<Longrightarrow>
      \<exists>st'. read_block (cuda_transport C K junk es base sock) p n (data, st) = Some (Ret () (store_bytes data (nat p * es) bs, st')) \<and>
        cuda_ready C K es st' \<and> took sock bs (fst (snd st)) (fst (snd st'))"
    using cuda_read_contiguous_ok [of C K es cc s g data p n bs sock rest] by (auto simp: st cuda_transport_def)
qed simp

section \<open>The fast path\<close>

lemma length_remote_ptr_bytes: "length h = 64 \<Longrightarrow> length (remote_ptr_bytes junk h p n) = 96"
  by (simp add: remote_ptr_bytes_def)

lemma remote_ptr_of_bytes:
  assumes "length h = 64"
  shows "rp_handle (remote_ptr_of (remote_ptr_bytes junk h p n)) = h" and "rp_ptr (remote_ptr_of (remote_ptr_bytes junk h p n)) = p"
    and "rp_count (remote_ptr_of (remote_ptr_bytes junk h p n)) = n"
  using assms by (simp_all add: remote_ptr_of_def remote_ptr_bytes_def)

text \<open>The test for an overlap is right when neither block goes beyond the end of the address space.\<close>

lemma has_overlap_iff:
  assumes "p0 \<le> p0 + c0 * of_nat es - of_nat es" and "p1 \<le> p1 + c1 * of_nat es - of_nat es"
  shows "has_overlap es p0 c0 p1 c1 \<longleftrightarrow> {p0..p0 + c0 * of_nat es - of_nat es} \<inter> {p1..p1 + c1 * of_nat es - of_nat es} \<noteq> {}"
  using assms by (auto simp: has_overlap_def Let_def intro: order_trans)

definition apart :: "nat \<Rightarrow> remote_ptr \<Rightarrow> remote_ptr \<Rightarrow> bool" where
  "apart es e r \<longleftrightarrow> rp_sock e = rp_sock r \<longrightarrow> \<not> has_overlap es (rp_ptr r) (rp_count r) (rp_ptr e) (rp_count e)"

text \<open>
  The invariant of the remembered mappings: each is mapped where the entry says, no allocation is there twice, and no two blocks that came over the same socket overlap.
\<close>

definition cache_ok :: "nat \<Rightarrow> copy_context \<Rightarrow> gpu \<Rightarrow> bool" where
  "cache_ok es cc g \<longleftrightarrow> length (remote_ptrs cc) \<le> max_remote_ptrs cc \<and> distinct (map fst (mapped g)) \<and>
     distinct (map rp_dev_ptr (remote_ptrs cc)) \<and> distinct (map rp_handle (remote_ptrs cc)) \<and> sorted_wrt (apart es) (remote_ptrs cc) \<and>
     (\<forall>e\<in>set (remote_ptrs cc). (rp_dev_ptr e, rp_handle e) \<in> set (mapped g))"

lemma cache_ok_tick [simp]: "cache_ok es cc (tick g) = cache_ok es cc g"
  by (simp add: cache_ok_def)

lemma close_remote_ok:
  assumes "cache_ok es cc g" and "i < length (remote_ptrs cc)"
  shows "cache_ok es (fst (close_remote i (cc, g))) (snd (close_remote i (cc, g)))"
proof -
  let ?rs = "remote_ptrs cc" and ?e = "remote_ptrs cc ! i"
  have rs: "?rs = take i ?rs @ ?e # drop (Suc i) ?rs" using assms(2) by (rule id_take_nth_drop)
  have sub: "set (take i ?rs @ drop (Suc i) ?rs) \<subseteq> set ?rs" by (auto dest: in_set_takeD in_set_dropD)
  have d: "distinct (map rp_dev_ptr (take i ?rs @ ?e # drop (Suc i) ?rs))" "distinct (map rp_handle (take i ?rs @ ?e # drop (Suc i) ?rs))"
      "sorted_wrt (apart es) (take i ?rs @ ?e # drop (Suc i) ?rs)"
    unfolding rs [symmetric] using assms(1) by (simp_all add: cache_ok_def)
  have other: "rp_dev_ptr e \<noteq> rp_dev_ptr ?e" if "e \<in> set (take i ?rs @ drop (Suc i) ?rs)" for e
    using d(1) that by (auto simp: image_iff)
  have "distinct (map fst (filter (\<lambda>(a, h). a \<noteq> rp_dev_ptr ?e) (mapped g)))" using assms(1) by (simp add: cache_ok_def distinct_map_filter)
  moreover have "\<forall>e\<in>set (take i ?rs @ drop (Suc i) ?rs). (rp_dev_ptr e, rp_handle e) \<in> set (filter (\<lambda>(a, h). a \<noteq> rp_dev_ptr ?e) (mapped g))"
    using assms(1) sub other by (auto simp: cache_ok_def)
  moreover have "length (take i ?rs @ drop (Suc i) ?rs) \<le> max_remote_ptrs cc" using assms by (auto simp: cache_ok_def)
  ultimately show ?thesis
    using d by (simp add: cache_ok_def close_remote_def sorted_wrt_append)
qed

text \<open>The search ends at the entry with the handle, or with no entry for the handle or in the way of the new block.\<close>

lemma find_remote_ok:
  assumes "cuda_ok C"
  shows "cache_ok es cc g \<Longrightarrow> i \<le> length (remote_ptrs cc) \<Longrightarrow> 
    (\<forall>e\<in>set (take i (remote_ptrs cc)). rp_handle e \<noteq> rp_handle r \<and> apart es e (r\<lparr>rp_sock := sock\<rparr>)) \<Longrightarrow>
    \<exists>j rs g'. find_remote C es r sock i (cc, s, g) = Some (Ret j (cc\<lparr>remote_ptrs := rs\<rparr>, s, g')) \<and> cache_ok es (cc\<lparr>remote_ptrs := rs\<rparr>) g' \<and>
      length (mapped g') \<le> length (mapped g) \<and>
      (if j < length rs then rp_handle (rs ! j) = rp_handle r
       else j = length rs \<and> (\<forall>e\<in>set rs. rp_handle e \<noteq> rp_handle r \<and> apart es e (r\<lparr>rp_sock := sock\<rparr>)))"
proof (induction "length (remote_ptrs cc) - i" arbitrary: i cc g rule: less_induct)
  case less
  let ?rs = "remote_ptrs cc" and ?e = "remote_ptrs cc ! i" and ?r = "r\<lparr>rp_sock := sock\<rparr>"
  consider "i = length ?rs" | "i < length ?rs" "rp_handle r = rp_handle ?e" | "i < length ?rs" "rp_handle r \<noteq> rp_handle ?e" "\<not> apart es ?e ?r"
    | "i < length ?rs" "rp_handle r \<noteq> rp_handle ?e" "apart es ?e ?r"
    using less.prems(2) by linarith
  then show ?case
  proof cases
    case 1
    then show ?thesis using less.prems by (intro exI [of _ i] exI [of _ ?rs] exI [of _ g]) (subst find_remote.simps, simp)
  next
    case 2
    then show ?thesis using less.prems by (intro exI [of _ i] exI [of _ ?rs] exI [of _ g]) (subst find_remote.simps, simp add: Let_def)
  next
    case 3
    let ?g = "snd (close_remote i (cc, tick g))" and ?cc = "fst (close_remote i (cc, tick g))"
    have step: "find_remote C es r sock i (cc, s, g) = find_remote C es r sock i (?cc, s, ?g)"
      using 3 assms by (subst find_remote.simps) (simp add: Let_def cuda_steps apart_def)
    have cc: "?cc = cc\<lparr>remote_ptrs := take i ?rs @ drop (Suc i) ?rs\<rparr>" "length (mapped ?g) \<le> length (mapped g)"
      by (simp_all add: close_remote_def)
    have "cache_ok es ?cc ?g" using close_remote_ok [of es cc "tick g" i] less.prems(1) 3(1) by simp
    moreover have "length (remote_ptrs ?cc) - i < length ?rs - i" "i \<le> length (remote_ptrs ?cc)" using 3(1) by (simp_all add: cc(1))
    moreover have "\<forall>e\<in>set (take i (remote_ptrs ?cc)). rp_handle e \<noteq> rp_handle r \<and> apart es e ?r" using less.prems(3) 3(1) by (simp add: cc(1))
    ultimately show ?thesis using less.hyps [of ?cc i ?g] cc(2) unfolding step cc(1) by (fastforce intro: order_trans)
  next
    case 4
    have "find_remote C es r sock i (cc, s, g) = find_remote C es r sock (Suc i) (cc, s, g)"
      using 4 by (subst find_remote.simps) (auto simp: Let_def apart_def)
    moreover have "\<forall>e\<in>set (take (Suc i) ?rs). rp_handle e \<noteq> rp_handle r \<and> apart es e ?r"
      using less.prems(3) 4 by (auto simp: take_Suc_conv_app_nth)
    ultimately show ?thesis using less.hyps [of cc "Suc i" g] less.prems(1) 4(1) by simp
  qed
qed

lemma open_remote_ok:
  assumes "cuda_ok C" and "cache_ok es cc g" and "length (mapped g) < 2 ^ 32"
    and "\<forall>e\<in>set (remote_ptrs cc). rp_handle e \<noteq> rp_handle r \<and> apart es e (r\<lparr>rp_sock := sock\<rparr>)"
  shows "\<exists>rs m g'. open_remote C r sock (length (remote_ptrs cc)) (cc, s, g) =
      Some (Ret () (cc\<lparr>remote_ptrs := rs, max_remote_ptrs := m\<rparr>, s, g')) \<and> cache_ok es (cc\<lparr>remote_ptrs := rs, max_remote_ptrs := m\<rparr>) g' \<and>
    length rs = Suc (length (remote_ptrs cc)) \<and> rp_handle (rs ! length (remote_ptrs cc)) = rp_handle r"
proof -
  define m where "m = (if length (remote_ptrs cc) = max_remote_ptrs cc then max_remote_ptrs cc + CUDA_REMOTE_PTRS else max_remote_ptrs cc)"
  let ?dev = "cu_map C (map fst (mapped g)) (rp_handle r)"
  let ?new = "r\<lparr>rp_dev_ptr := ?dev, rp_sock := sock\<rparr>"
  let ?g = "(tick g)\<lparr>mapped := mapped g @ [(?dev, rp_handle r)]\<rparr>"
  have m: "length (remote_ptrs cc) < m" "(if length (remote_ptrs cc) = max_remote_ptrs cc then cc\<lparr>max_remote_ptrs := max_remote_ptrs cc + CUDA_REMOTE_PTRS\<rparr>
      else cc) = cc\<lparr>max_remote_ptrs := m\<rparr>"
    using assms(2) by (auto simp: m_def cache_ok_def CUDA_REMOTE_PTRS_def)
  have new: "?dev \<notin> fst ` set (mapped g)" using assms(1,3) unfolding cuda_ok_def by (metis length_map list.set_map)
  then have "?dev \<noteq> rp_dev_ptr e" if "e \<in> set (remote_ptrs cc)" for e using assms(2) that by (force simp: cache_ok_def)
  moreover have "apart es e ?new" if "e \<in> set (remote_ptrs cc)" for e using assms(4) that by (auto simp: apart_def)
  ultimately have "cache_ok es (cc\<lparr>remote_ptrs := remote_ptrs cc @ [?new], max_remote_ptrs := m\<rparr>) ?g"
    using assms(2,4) m(1) new by (auto simp: cache_ok_def sorted_wrt_append)
  moreover have "open_remote C r sock (length (remote_ptrs cc)) (cc, s, g) =
      Some (Ret () (cc\<lparr>remote_ptrs := remote_ptrs cc @ [?new], max_remote_ptrs := m\<rparr>, s, ?g))"
    using assms(1) m(1) unfolding open_remote_def prod.case m(2) by (simp add: Let_def cuda_steps)
  ultimately show ?thesis by (intro exI [of _ "remote_ptrs cc @ [?new]"] exI [of _ m] exI [of _ ?g]) simp
qed

lemma copy_remote_ok:
  assumes "cuda_ok C" and "cache_ok es cc g" and "i < length (remote_ptrs cc)" and "n \<le> length (cu_remote C (rp_handle (remote_ptrs cc ! i)))"
  shows "copy_remote C pos i n (data, cc, s, g) =
    Some (Ret () (store_bytes data pos (take n (cu_remote C (rp_handle (remote_ptrs cc ! i)))), all_done cc, s, tick g))"
proof -
  let ?e = "remote_ptrs cc ! i"
  have "(rp_dev_ptr ?e, rp_handle ?e) \<in> set (mapped g)" "distinct (map fst (mapped g))" using assms(2,3) by (simp_all add: cache_ok_def)
  then have "map_of (mapped g) (rp_dev_ptr ?e) = Some (rp_handle ?e)" by simp
  then show ?thesis using assms by (simp add: copy_remote_def cuda_steps)
qed

text \<open>Both steps together: whatever was remembered, there is an entry for the handle then.\<close>

lemma map_remote_ok:
  assumes "cuda_ok C" and "cache_ok es cc g" and "length (mapped g) < 2 ^ 32"
  shows "\<exists>i rs m g'. and_then (beside data (find_remote C es r sock 0 (cc, s, g))) (\<lambda>i ds.
        and_then (if i = length (remote_ptrs (fst (snd ds))) then beside (fst ds) (open_remote C r sock i (snd ds)) else Some (Ret () ds)) (\<lambda>_ ds. f i ds)) =
      f i (data, cc\<lparr>remote_ptrs := rs, max_remote_ptrs := m\<rparr>, s, g') \<and>
    cache_ok es (cc\<lparr>remote_ptrs := rs, max_remote_ptrs := m\<rparr>) g' \<and> i < length rs \<and> rp_handle (rs ! i) = rp_handle r"
proof -
  obtain i rs g1 where f: "find_remote C es r sock 0 (cc, s, g) = Some (Ret i (cc\<lparr>remote_ptrs := rs\<rparr>, s, g1))" "cache_ok es (cc\<lparr>remote_ptrs := rs\<rparr>) g1"
      "length (mapped g1) \<le> length (mapped g)"
      "if i < length rs then rp_handle (rs ! i) = rp_handle r
       else i = length rs \<and> (\<forall>e\<in>set rs. rp_handle e \<noteq> rp_handle r \<and> apart es e (r\<lparr>rp_sock := sock\<rparr>))"
    using find_remote_ok [OF assms(1,2), of 0 r sock s] by auto
  show ?thesis
  proof (cases "i < length rs")
    case True
    then show ?thesis using f by (intro exI [of _ i] exI [of _ rs] exI [of _ "max_remote_ptrs cc"] exI [of _ g1]) simp
  next
    case False
    then have i: "i = length rs" "\<forall>e\<in>set (remote_ptrs (cc\<lparr>remote_ptrs := rs\<rparr>)). rp_handle e \<noteq> rp_handle r \<and> apart es e (r\<lparr>rp_sock := sock\<rparr>)"
      using f(4) by auto
    have "length (mapped g1) < 2 ^ 32" using f(3) assms(3) by simp
    from open_remote_ok [OF assms(1) f(2) this i(2), of s] obtain rs' m g' where
        "open_remote C r sock (length rs) (cc\<lparr>remote_ptrs := rs\<rparr>, s, g1) = Some (Ret () (cc\<lparr>remote_ptrs := rs', max_remote_ptrs := m\<rparr>, s, g'))"
        "cache_ok es (cc\<lparr>remote_ptrs := rs', max_remote_ptrs := m\<rparr>) g'" "length rs' = Suc (length rs)" "rp_handle (rs' ! length rs) = rp_handle r"
      by auto
    then show ?thesis using f(1) i(1) by (intro exI [of _ i] exI [of _ rs'] exI [of _ m] exI [of _ g']) simp
  qed
qed

lemma cuda_read_ipc_ok:
  assumes "streams_ok K" and "cuda_ok C" and "cache_ok es cc g" and "length (mapped g) < 2 ^ 32"
    and "length h = 64" and "incoming s sock = remote_ptr_bytes junk h p c @ rest" and "n * es \<le> length (cu_remote C h)"
  shows "\<exists>cc' s' g'. cuda_read_ipc C K es sock ptr n (data, cc, s, g) =
      Some (Ret () (store_bytes data (nat ptr * es) (take (n * es) (cu_remote C h)), cc', s', g')) \<and>
    cache_ok es cc' g' \<and> in_flight cc' = [] \<and> event cc' = map_option (\<lambda>_. 0) (event cc) \<and> cu_buf cc' = cu_buf cc \<and>
    incoming s' sock = rest \<and> outgoing s' = (outgoing s)(sock := outgoing s sock @ le_bytes 4 (1 :: cint))"
proof -
  let ?bs = "remote_ptr_bytes junk h p c" and ?r = "remote_ptr_of (remote_ptr_bytes junk h p c)"
  have len: "length ?bs = 96" using assms(5) by (rule length_remote_ptr_bytes)
  obtain t s1 where t: "cuda_recv K sock 96 (cc, s, g) = Some (Ret ?bs (cc\<lparr>rx := t\<rparr>, s1, g))" "took sock ?bs s s1"
    using cuda_recv_ok [OF assms(1) _ assms(6), of cc g] len by auto
  have "cache_ok es (cc\<lparr>rx := t\<rparr>) g" using assms(3) by (simp add: cache_ok_def)
  note m = map_remote_ok [OF assms(2) this assms(4), of data ?r sock s1]
  let ?tail = "\<lambda>i ds. and_then (copy_remote C (nat ptr * es) i (n * es) ds) (\<lambda>_ ds.
     and_then (beside (fst ds) (device_synchronize C (snd ds))) (\<lambda>_ ds.
     and_then (beside (fst ds) (cuda_send K sock (le_bytes 4 (1 :: cint)) (snd ds))) (\<lambda>_ (data, cc, s, g).
     Some (Ret () (data, cc\<lparr>rx := (rx cc)\<lparr>cuda_ipc_bytes := cuda_ipc_bytes (rx cc) + of_nat (n * es)\<rparr>\<rparr>, s, g)))))"
  from m [of ?tail] obtain i rs mx g1 where i:
      "cuda_read_ipc C K es sock ptr n (data, cc, s, g) = ?tail i (data, cc\<lparr>rx := t, remote_ptrs := rs, max_remote_ptrs := mx\<rparr>, s1, g1)"
      "cache_ok es (cc\<lparr>rx := t, remote_ptrs := rs, max_remote_ptrs := mx\<rparr>) g1" "i < length rs" "rp_handle (rs ! i) = h"
    using t(1) remote_ptr_of_bytes(1) [OF assms(5), of junk p c] by (auto simp: cuda_read_ipc_def Let_def)
  let ?cc = "cc\<lparr>rx := t, remote_ptrs := rs, max_remote_ptrs := mx\<rparr>"
  obtain u s' where u: "cuda_send K sock (le_bytes 4 (1 :: cint)) (all_done (all_done ?cc), s1, tick (tick g1)) =
      Some (Ret () ((all_done (all_done ?cc))\<lparr>tx := u\<rparr>, s', tick (tick g1)))" "wrote sock (le_bytes 4 (1 :: cint)) s1 s'"
    using cuda_send_ok [OF assms(1), of "le_bytes 4 (1 :: cint)" sock "all_done (all_done ?cc)" s1 "tick (tick g1)"] by auto
  have "copy_remote C (nat ptr * es) i (n * es) (data, ?cc, s1, g1) =
      Some (Ret () (store_bytes data (nat ptr * es) (take (n * es) (cu_remote C h)), all_done ?cc, s1, tick g1))"
    using copy_remote_ok [OF assms(2) i(2), of i "n * es" "nat ptr * es" data s1] i(3,4) assms(7) by simp
  then have "cuda_read_ipc C K es sock ptr n (data, cc, s, g) = Some (Ret () (store_bytes data (nat ptr * es) (take (n * es) (cu_remote C h)),
      (all_done (all_done ?cc))\<lparr>tx := u, rx := (rx (all_done (all_done ?cc)))\<lparr>cuda_ipc_bytes := cuda_ipc_bytes (rx (all_done (all_done ?cc))) + of_nat (n * es)\<rparr>\<rparr>,
      s', tick (tick g1)))"
    using i(1) u(1) assms(2) by (simp add: device_synchronize_def cuda_steps)
  moreover have "cache_ok es ((all_done (all_done ?cc))\<lparr>tx := u, rx := v\<rparr>) (tick (tick g1))" for v
    using i(2) by (simp add: cache_ok_def all_done_def)
  moreover have "incoming s' sock = rest" using t(2) u(2) assms(6) by (simp add: took_def wrote_def)
  moreover have "outgoing s' = (outgoing s)(sock := outgoing s sock @ le_bytes 4 (1 :: cint))" using t(2) u(2) by (simp add: took_def wrote_def)
  ultimately show ?thesis by (auto simp: all_done_def option.map_comp comp_def)
qed

lemma cuda_write_ipc_ok:
  assumes "streams_ok K" and "cuda_ok C" and "length ack = 4" and "incoming s sock = ack @ rest"
  shows "\<exists>cc' s' g'. cuda_write_ipc C K junk es sock addr n (cc, s, g) = Some (Ret () (cc', s', g')) \<and>
    incoming s' sock = rest \<and> outgoing s' = (outgoing s)(sock := outgoing s sock @ remote_ptr_bytes junk (cu_handle C addr) addr (of_nat n)) \<and>
    in_flight cc' = []"
proof -
  let ?bs = "remote_ptr_bytes junk (cu_handle C addr) addr (of_nat n)" and ?cc = "all_done cc" and ?g = "tick (tick g)"
  have "length ?bs = 96" using assms(2) by (simp add: length_remote_ptr_bytes cuda_ok_def)
  then obtain t s1 where t: "cuda_send K sock ?bs (?cc, s, ?g) = Some (Ret () (?cc\<lparr>tx := t\<rparr>, s1, ?g))" "wrote sock ?bs s s1"
    using cuda_send_ok [OF assms(1), of ?bs sock ?cc s ?g] by auto
  have "incoming s1 sock = ack @ rest" using t(2) assms(4) by (simp add: wrote_def)
  from cuda_recv_ok [OF assms(1) _ this, of "?cc\<lparr>tx := t\<rparr>" ?g] assms(3) obtain u s' where
      u: "cuda_recv K sock 4 (?cc\<lparr>tx := t\<rparr>, s1, ?g) = Some (Ret ack (?cc\<lparr>tx := t, rx := u\<rparr>, s', ?g))" "took sock ack s1 s'" by auto
  have "incoming s' sock = rest" using u(2) \<open>incoming s1 sock = ack @ rest\<close> by (simp add: took_def)
  with t u assms(2) show ?thesis
    by (auto simp: cuda_write_ipc_def device_synchronize_def cuda_steps took_def wrote_def all_done_def)
qed

section \<open>Properties\<close>

text \<open>A runtime whose calls succeed and that maps allocations at the first free address.\<close>

definition small_cuda :: cuda where
  "small_cuda = \<lparr>cu_error = (\<lambda>c x. CudaSuccess), cu_out = (\<lambda>c x. 1), cu_error_string = (\<lambda>e. []), cu_handle = (\<lambda>p. replicate 64 7),
     cu_map = (\<lambda>as h. hd (filter (\<lambda>a. a \<notin> set as) (map of_nat [0..<Suc (length as)]))), cu_remote = (\<lambda>h. [1, 2, 3, 4])\<rparr>"

lemma free_address:
  assumes "length as < 2 ^ 32"
  shows "hd (filter (\<lambda>a. a \<notin> set as) (map of_nat [0..<Suc (length as)])) \<notin> set (as :: 64 word list)"
proof -
  let ?bs = "map of_nat [0..<Suc (length as)] :: 64 word list"
  have "inj_on (of_nat :: nat \<Rightarrow> 64 word) {0..<Suc (length as)}"
  proof (rule inj_onI)
    fix x y assume "x \<in> {0..<Suc (length as)}" "y \<in> {0..<Suc (length as)}" and eq: "(of_nat x :: 64 word) = of_nat y"
    then have "x < 2 ^ 64" "y < 2 ^ 64" using assms by auto
    then show "x = y" using unat_of_nat_size [of x] unat_of_nat_size [of y] by (metis eq)
  qed
  then have "card (set ?bs) = Suc (length as)" by (simp add: card_image del: upt_Suc)
  then have "\<not> set ?bs \<subseteq> set as" using card_mono [of "set as" "set ?bs"] card_length [of as] by fastforce
  then have "filter (\<lambda>a. a \<notin> set as) ?bs \<noteq> []" by (auto simp: filter_empty_conv)
  then show ?thesis using hd_in_set [of "filter (\<lambda>a. a \<notin> set as) ?bs"] by (simp del: upt_Suc)
qed

lemma small_cuda_ok [simp]: "cuda_ok small_cuda"
  using free_address by (simp add: cuda_ok_def small_cuda_def del: upt_Suc)

definition small_gpu :: gpu where
  "small_gpu = \<lparr>cuda_calls = 0, mapped = []\<rparr>"

definition fast_context :: copy_context where
  "fast_context = empty_context\<lparr>use_fastpath := 1\<rparr>"

text \<open>
  C13: A tensor in the memory of a GPU goes over the socket in the same bytes as one in the memory of the host, of any size, and from these bytes the receiver's tensor gets
  the sender's elements; every other byte of its storage is as it was. The processor never touches a buffer while a copy may still be using
  it, in either direction, because an access that does ends in a fault.
\<close>

theorem cuda_tensor_arrives:
  assumes "cuda_ready C K es (cc, s, g)" and "cuda_ready C' K' es (cc', s', g')" and "th_tensor_ok TH" and "dims t' = dims t"
    and "t_storage t = Some st" and "tensor_ok es (st_data st) (storage_offset t) (dims t)"
    and "t_storage t' = Some st'" and "tensor_ok es (st_data st') (storage_offset t') (dims t')"
    and "incoming s' sock' = tensor_bytes es (st_data st) (storage_offset t) (dims t) @ rest"
  shows "(\<exists>cc1 s1 g1. tensor_write (cuda_transport C K junk es base sock) TH es t (cc, s, g) = Some (Ret () (cc1, s1, g1)) \<and>
      cuda_ready C K es (cc1, s1, g1) \<and> incoming s1 = incoming s \<and>
      outgoing s1 = (outgoing s)(sock := outgoing s sock @ tensor_bytes es (st_data st) (storage_offset t) (dims t))) \<and>
    (\<exists>cc1 s1 g1 data. tensor_read (cuda_transport C' K' junk' es base' sock') TH es (t', cc', s', g') = Some (Ret () (with_data data t', cc1, s1, g1)) \<and>
      cuda_ready C' K' es (cc1, s1, g1) \<and> incoming s1 sock' = rest \<and>
      copied es (dims t) (st_data st) (storage_offset t) (st_data st') (storage_offset t') data)"
  using device.writes_tensor [OF assms(1,3,5,6), of junk base sock] device.reads_tensor [OF assms(2-8), of sock' rest junk' base'] assms(9)
  by (auto simp: wrote_def)

definition cuda_process :: "byte list \<Rightarrow> cuda_state" where
  "cuda_process bs = (empty_context, small_os\<lparr>incoming := (\<lambda>_. bs)\<rparr>, small_gpu)"

lemma cuda_process_ready: "cuda_ready small_cuda small_kernel 1 (cuda_process bs)"
  by (simp add: cuda_ready_def cuda_process_def empty_context_def)

theorem cuda_tensor_arrives_witness:
  "(\<exists>cc1 s1 g1. tensor_write (cuda_transport small_cuda small_kernel (\<lambda>_. 0) 1 4096 9) small_th 1 (small_tensor 0 [1, 2, 3, 4, 5, 6]) (cuda_process []) =
        Some (Ret () (cc1, s1, g1)) \<and>
      cuda_ready small_cuda small_kernel 1 (cc1, s1, g1) \<and> incoming s1 = incoming (small_os\<lparr>incoming := (\<lambda>_. [])\<rparr>) \<and>
      outgoing s1 = (outgoing small_os)(9 := outgoing small_os 9 @ tensor_bytes 1 [1, 2, 3, 4, 5, 6] 0 [(2, 3), (2, 1)])) \<and>
    (\<exists>cc1 s1 g1 data. tensor_read (cuda_transport small_cuda small_kernel (\<lambda>_. 0) 1 8192 9) small_th 1
        (small_tensor 1 [0, 0, 0, 0, 0, 0], cuda_process (tensor_bytes 1 [1, 2, 3, 4, 5, 6] 0 [(2, 3), (2, 1)] @ [])) =
        Some (Ret () (with_data data (small_tensor 1 [0, 0, 0, 0, 0, 0]), cc1, s1, g1)) \<and>
      cuda_ready small_cuda small_kernel 1 (cc1, s1, g1) \<and> incoming s1 9 = [] \<and>
      copied 1 [(2, 3), (2, 1)] [1, 2, 3, 4, 5, 6] 0 [0, 0, 0, 0, 0, 0] 1 data)"
  using cuda_tensor_arrives [of small_cuda small_kernel 1 empty_context "small_os\<lparr>incoming := (\<lambda>_. [])\<rparr>" small_gpu small_cuda small_kernel
      empty_context "small_os\<lparr>incoming := (\<lambda>_. tensor_bytes 1 [1, 2, 3, 4, 5, 6] 0 [(2, 3), (2, 1)] @ [])\<rparr>" small_gpu small_th
      "small_tensor 1 [0, 0, 0, 0, 0, 0]" "small_tensor 0 [1, 2, 3, 4, 5, 6]" "\<lparr>st_size = 6, st_data = [1, 2, 3, 4, 5, 6]\<rparr>"
      "\<lparr>st_size = 6, st_data = [0, 0, 0, 0, 0, 0]\<rparr>" 9 "[]" "\<lambda>_. 0" 4096 9 "\<lambda>_. 0" 8192]
    cuda_process_ready small_tensor_ok [of 0 "[1, 2, 3, 4, 5, 6]"] small_tensor_ok [of 1 "[0, 0, 0, 0, 0, 0]"]
  by (simp add: cuda_process_def)

text \<open>
  C23: On the fast path a block goes from GPU to GPU: the sender describes it and waits, and the receiver, whatever it has mapped before, reads the start of the
  allocation with the handle that came, acknowledges, and keeps its table of mappings in order. The two exchanges fit together: what one end sends is what the
  other waits for.
\<close>

theorem cuda_ipc_arrives:
  assumes "streams_ok K" and "streams_ok K'" and "cuda_ok C" and "cuda_ok C'" and "incoming s sock = le_bytes 4 (1 :: cint) @ rest"
    and "cache_ok es cc' g'" and "length (mapped g') < 2 ^ 32" and "n * es \<le> length (cu_remote C' (cu_handle C addr))"
    and "incoming s' sock' = remote_ptr_bytes junk (cu_handle C addr) addr (of_nat n) @ rest'"
  shows "(\<exists>cc1 s1 g1. cuda_write_ipc C K junk es sock addr n (cc, s, g) = Some (Ret () (cc1, s1, g1)) \<and> incoming s1 sock = rest \<and>
      outgoing s1 = (outgoing s)(sock := outgoing s sock @ remote_ptr_bytes junk (cu_handle C addr) addr (of_nat n))) \<and>
    (\<exists>cc1 s1 g1. cuda_read_ipc C' K' es sock' ptr n (data, cc', s', g') =
        Some (Ret () (store_bytes data (nat ptr * es) (take (n * es) (cu_remote C' (cu_handle C addr))), cc1, s1, g1)) \<and>
      cache_ok es cc1 g1 \<and> incoming s1 sock' = rest' \<and> outgoing s1 = (outgoing s')(sock' := outgoing s' sock' @ le_bytes 4 (1 :: cint)))"
proof -
  have "length (cu_handle C addr) = 64" using assms(3) by (simp add: cuda_ok_def)
  with cuda_write_ipc_ok [OF assms(1,3) _ assms(5), of junk es addr n cc g] cuda_read_ipc_ok [OF assms(2,4,6,7) _ assms(9,8), of ptr data]
  show ?thesis by fastforce
qed

theorem cuda_ipc_arrives_witness:
  "(\<exists>cc1 s1 g1. cuda_write_ipc small_cuda small_kernel (\<lambda>_. 0) 1 9 4096 3 (fast_context, small_os\<lparr>incoming := (\<lambda>_. le_bytes 4 (1 :: cint) @ [])\<rparr>, small_gpu) =
        Some (Ret () (cc1, s1, g1)) \<and> incoming s1 9 = [] \<and>
      outgoing s1 = (outgoing small_os)(9 := outgoing small_os 9 @ remote_ptr_bytes (\<lambda>_. 0) (cu_handle small_cuda 4096) 4096 (of_nat 3))) \<and>
    (\<exists>cc1 s1 g1. cuda_read_ipc small_cuda small_kernel 1 9 1 3 ([0, 0, 0, 0], fast_context,
          small_os\<lparr>incoming := (\<lambda>_. remote_ptr_bytes (\<lambda>_. 0) (cu_handle small_cuda 4096) 4096 (of_nat 3) @ [])\<rparr>, small_gpu) =
        Some (Ret () (store_bytes [0, 0, 0, 0] (nat 1 * 1) (take (3 * 1) (cu_remote small_cuda (cu_handle small_cuda 4096))), cc1, s1, g1)) \<and>
      cache_ok 1 cc1 g1 \<and> incoming s1 9 = [] \<and> outgoing s1 = (outgoing small_os)(9 := outgoing small_os 9 @ le_bytes 4 (1 :: cint)))"
  using cuda_ipc_arrives [of small_kernel small_kernel small_cuda small_cuda "small_os\<lparr>incoming := (\<lambda>_. le_bytes 4 (1 :: cint) @ [])\<rparr>" 9 "[]" 1 fast_context
      small_gpu 3 4096 "small_os\<lparr>incoming := (\<lambda>_. remote_ptr_bytes (\<lambda>_. 0) (cu_handle small_cuda 4096) 4096 (of_nat 3) @ [])\<rparr>" 9 "\<lambda>_. 0" "[]" fast_context
      small_gpu 1 "[0, 0, 0, 0]"]
  by (simp add: cache_ok_def fast_context_def empty_context_def small_gpu_def small_cuda_def [THEN arg_cong [where f = cu_remote]])

text \<open>
  The receiver reads the start of the allocation also when the block begins further on in it: the address that comes with the handle is used for the search only. So a tensor with an offset
  into its storage arrives as the first elements of the allocation.
\<close>

theorem cuda_ipc_offset_lost:
  assumes "streams_ok K" and "cuda_ok C" and "cache_ok es cc g" and "length (mapped g) < 2 ^ 32" and "n * es \<le> length (cu_remote C (cu_handle C base))"
    and "cu_handle C (base + off) = cu_handle C base" and "incoming s sock = remote_ptr_bytes junk (cu_handle C (base + off)) (base + off) (of_nat n) @ rest"
  shows "\<exists>cc' s' g'. cuda_read_ipc C K es sock ptr n (data, cc, s, g) =
    Some (Ret () (store_bytes data (nat ptr * es) (take (n * es) (cu_remote C (cu_handle C base))), cc', s', g'))"
proof -
  have "length (cu_handle C (base + off)) = 64" using assms(2) by (simp add: cuda_ok_def)
  from cuda_read_ipc_ok [OF assms(1-4) this assms(7), of n ptr data] assms(5,6) show ?thesis by auto
qed

text \<open>Small messages go through in one call.\<close>

definition whole_calls :: "kernel \<Rightarrow> bool" where
  "whole_calls K \<longleftrightarrow> (\<forall>c fd. k_ret K c (SysSend fd 4) = 4 \<and> k_ret K c (SysRecv fd 4) = 4)"

text \<open>What the runtime of an end says of the access of its device to another one: whether it can be enabled from the call \<open>c\<close> on.\<close>

definition peer_access :: "cuda \<Rightarrow> nat \<Rightarrow> cint \<Rightarrow> cint \<Rightarrow> bool" where
  "peer_access C c d d' \<longleftrightarrow> cu_out C c (CanAccessPeer d d') \<noteq> 0 \<and> cu_error C (c + 1) (EnablePeerAccess d') \<in> {CudaSuccess, CudaErrorPeerAccessAlreadyEnabled}"

lemma enable_peer_ok:
  assumes "cu_error C (cuda_calls g) (CanAccessPeer d d') = CudaSuccess"
  shows "\<exists>g'. enable_peer C d d' (s, g) = Some (Ret (peer_access C (cuda_calls g) d d') (s, g'))"
  using assms by (auto simp: enable_peer_def cuda_run_def peer_access_def Let_def)

lemma can_use_fastpath_ok:
  assumes "whole_calls K" and "cu_error C (cuda_calls g) GetDevice = CudaSuccess" and "cu_out C (cuda_calls g) GetDevice = d"
    and "cu_error C (cuda_calls g + 1) (CanAccessPeer d d') = CudaSuccess" and "incoming s sock = le_bytes 4 d' @ rest"
  shows "\<exists>s' g'. can_use_fastpath C K junk sock ip ip (s, g) = Some (Ret (d \<noteq> d' \<and> peer_access C (cuda_calls g + 1) d d') (s', g')) \<and>
    incoming s' sock = rest \<and> outgoing s' = (outgoing s)(sock := outgoing s sock @ le_bytes 4 d)"
proof -
  let ?g = "g\<lparr>cuda_calls := cuda_calls g + 1\<rparr>" and ?s = "s\<lparr>trace := trace s @ [SysSend sock 4], outgoing := (outgoing s)(sock := outgoing s sock @ le_bytes 4 d)\<rparr>"
  let ?s' = "?s\<lparr>trace := trace ?s @ [SysRecv sock 4], incoming := (incoming s)(sock := rest)\<rparr>"
  have w: "stream_write K (SysSend sock 4) sock (le_bytes 4 d) s = (4, ?s)"
    using assms(1) by (simp add: stream_write_def sys_def whole_calls_def Let_def)
  have r: "stream_read K (SysRecv sock 4) sock 4 ?s = Some (4, le_bytes 4 d', ?s')"
    using assms(1,5) by (simp add: stream_read_def sys_def whole_calls_def Let_def)
  obtain g' where "enable_peer C d d' (?s', ?g) = Some (Ret (peer_access C (cuda_calls ?g) d d') (?s', g'))"
    using enable_peer_ok [of C ?g d d' ?s'] assms(4) by auto
  then show ?thesis using w r assms(2,3) by (auto simp: can_use_fastpath_def cuda_run_def Let_def)
qed

definition prompt_kernel :: kernel where
  "prompt_kernel = small_kernel\<lparr>k_ret := (\<lambda>c x. case transfer_size x of None \<Rightarrow> 0 | Some n \<Rightarrow> int n)\<rparr>"

text \<open>
  C29: The negotiation of the fast path, end by end, where the runtime has a device or says that there is none, answers the question about the access, and the four bytes of a number
  are moved by one call. An end that sees different addresses, as a server that listens on all interfaces does, or has no device,
  decides against the fast path without a word to the other end. An end that sees equal addresses and has a device sends the number of the device, and either
  takes the four bytes of the number of the other end's, and nothing else, from the connection, and uses the fast path exactly when the numbers differ and its own runtime grants it
  access to the other device; or no number comes, and it waits for ever. So of two ends on one host that see different things of the addresses one hangs, and two ends whose runtimes
  answer differently come to different decisions.
\<close>

theorem fastpath_negotiation:
  assumes "whole_calls K" and "cu_error C (cuda_calls g) GetDevice \<in> {CudaSuccess, CudaErrorNoDevice}" and "cu_out C (cuda_calls g) GetDevice = d"
    and "\<And>d'. cu_error C (cuda_calls g + 1) (CanAccessPeer d d') = CudaSuccess"
    and "incoming s sock = [] \<and> \<not> hangup s sock \<or> incoming s sock = le_bytes 4 d' @ rest"
  shows "if bind_addr \<noteq> addr \<or> cu_error C (cuda_calls g) GetDevice = CudaErrorNoDevice
    then \<exists>g1. can_use_fastpath C K junk sock bind_addr addr (s, g) = Some (Ret False (s, g1))
    else if incoming s sock = [] then can_use_fastpath C K junk sock bind_addr addr (s, g) = None
    else \<exists>s1 g1. can_use_fastpath C K junk sock bind_addr addr (s, g) =
        Some (Ret (d \<noteq> d' \<and> peer_access C (cuda_calls g + 1) d d') (s1, g1)) \<and>
      incoming s1 sock = rest \<and> outgoing s1 = (outgoing s)(sock := outgoing s sock @ le_bytes 4 d)"
proof (cases "bind_addr \<noteq> addr \<or> cu_error C (cuda_calls g) GetDevice = CudaErrorNoDevice")
  case True
  then show ?thesis by (auto simp: can_use_fastpath_def cuda_run_def Let_def)
next
  case False
  with assms(2) have dev: "cu_error C (cuda_calls g) GetDevice = CudaSuccess" "addr = bind_addr" by auto
  show ?thesis
  proof (cases "incoming s sock = []")
    case empty: True
    with assms(5) have "\<not> hangup s sock" by (auto simp: le_bytes_def)
    with empty dev assms(1) False show ?thesis
      by (auto simp: can_use_fastpath_def cuda_run_def Let_def stream_write_def stream_read_def sys_def whole_calls_def split: prod.splits)
  next
    case num: False
    with assms(5) have "incoming s sock = le_bytes 4 d' @ rest" by auto
    from can_use_fastpath_ok [OF assms(1) dev(1) assms(3,4) this, of junk bind_addr] num False dev show ?thesis by simp
  qed
qed

theorem fastpath_negotiation_witness:
  "(\<exists>s1 g1. can_use_fastpath small_cuda prompt_kernel (\<lambda>_. 0) 9 7 7 (small_os\<lparr>incoming := (\<lambda>_. le_bytes 4 (2 :: cint))\<rparr>, small_gpu) =
      Some (Ret ((1 :: cint) \<noteq> 2 \<and> peer_access small_cuda (cuda_calls small_gpu + 1) 1 2) (s1, g1)) \<and> incoming s1 9 = [] \<and>
      outgoing s1 = (outgoing small_os)(9 := outgoing small_os 9 @ le_bytes 4 (1 :: cint))) \<and>
   (\<exists>g1. can_use_fastpath small_cuda prompt_kernel (\<lambda>_. 0) 9 0 7 (small_os\<lparr>incoming := (\<lambda>_. le_bytes 4 (2 :: cint))\<rparr>, small_gpu) =
      Some (Ret False (small_os\<lparr>incoming := (\<lambda>_. le_bytes 4 (2 :: cint))\<rparr>, g1)))"
proof -
  let ?s = "small_os\<lparr>incoming := (\<lambda>_. le_bytes 4 (2 :: cint))\<rparr>"
  have "whole_calls prompt_kernel" by (simp add: whole_calls_def prompt_kernel_def)
  moreover have "cu_error small_cuda (cuda_calls small_gpu) GetDevice = CudaSuccess" "cu_out small_cuda (cuda_calls small_gpu) GetDevice = 1"
      "\<And>d'. cu_error small_cuda (cuda_calls small_gpu + 1) (CanAccessPeer 1 d') = CudaSuccess" by (simp_all add: small_cuda_def)
  moreover have "incoming ?s 9 \<noteq> []" by (simp add: le_bytes_def)
  ultimately show ?thesis
    using fastpath_negotiation [of prompt_kernel small_cuda small_gpu 1 ?s 9 2 "[]" 7 7 "\<lambda>_. 0"]
      fastpath_negotiation [of prompt_kernel small_cuda small_gpu 1 ?s 9 2 "[]" 0 7 "\<lambda>_. 0"] by simp
qed

end
