(* ===== verification/References.thy ===== *)
theory References
  imports Channel
begin

text \<open>
  References in transit: a userdata in a serialized value is a reference to an object that other threads use too. Saving the value retains the object once for every occurrence, and
  loading it gives as many userdata, each of which releases the object when it is collected. So a value must be loaded as often as it is saved, and then the
  counts are right.
\<close>

section \<open>Values that carry references\<close>

text \<open>
  Scalars, userdata of a class that the receiver knows too, and tables of them with scalars as keys.
\<close>

fun portable :: "lua_api \<Rightarrow> (lua_value \<Rightarrow> bool) \<Rightarrow> lua_value \<Rightarrow> bool"
  and portable_entries :: "lua_api \<Rightarrow> (lua_value \<Rightarrow> bool) \<Rightarrow> entry list \<Rightarrow> bool" where
  "portable A raw_key LNil = True"
| "portable A raw_key (LTable es m) = (m = NoMeta \<and> distinct (map fst es) \<and> portable_entries A raw_key es)"
| "portable A raw_key (LUserdata m ptr) = (m \<noteq> NoMeta \<and> api_metatable A (meta_name m) = m)"
| "portable A raw_key v = scalar v"
| "portable_entries A raw_key [] = True"
| "portable_entries A raw_key ((k, v) # es) =
     (scalar k \<and> raw_key k \<and> v \<noteq> LNil \<and> portable A raw_key v \<and> portable_entries A raw_key es)"

lemma mset_pointers_entries:
  "mset (pointers_entries upval es) = (\<Sum>(k, v)\<in>#mset es. mset (pointers upval k) + mset (pointers upval v))"
  by (induction es) (auto simp: ac_simps)

lemma pointers_entries_cong: "mset es = mset es' \<Longrightarrow> mset (pointers_entries upval es) = mset (pointers_entries upval es')"
  by (simp add: mset_pointers_entries)

text \<open>What is loaded has the references of what was saved.\<close>

lemma reload_portable:
  shows "portable A raw_key v \<Longrightarrow> settable_inserts A raw_key \<Longrightarrow>
      \<exists>v'. reload A upval v = Some v' \<and> (v' = LNil \<longleftrightarrow> v = LNil) \<and> mset (pointers upval v') = mset (pointers upval v)"
    and "portable_entries A raw_key es \<Longrightarrow> settable_inserts A raw_key \<Longrightarrow>
      \<exists>es'. reload_entries A upval es = Some es' \<and> map fst es' = map fst es \<and> list_all (\<lambda>(k, v). raw_key k \<and> v \<noteq> LNil) es' \<and>
        mset (pointers_entries upval es') = mset (pointers_entries upval es)"
proof (induction A raw_key v and A raw_key es rule: portable_portable_entries.induct)
  case (2 A raw_key es m)
  then obtain es1 where es1: "reload_entries A upval es = Some es1" "map fst es1 = map fst es" "list_all (\<lambda>(k, v). raw_key k \<and> v \<noteq> LNil) es1"
      "mset (pointers_entries upval es1) = mset (pointers_entries upval es)"
    by auto
  moreover obtain es2 where "build_table A [] es1 = Some es2" "mset es2 = mset es1"
    using build_table_inserts [OF "2.prems"(2) es1(3), of "[]"] es1(2) "2.prems"(1) by auto
  ultimately show ?case using pointers_entries_cong [of es2 es1 upval] by auto
next
  case (3 A raw_key m ptr)
  then show ?case by (simp add: Let_def)
next
  case (6 A raw_key k v es)
  moreover have "reload A upval k = Some k" "k \<noteq> LNil" if "scalar k" using that by (cases k; simp)+
  ultimately show ?case by auto
qed auto

text \<open>The contract of a trip through a ring buffer: each reference is taken once and handed out once.\<close>

lemma references_balanced:
  assumes "portable A raw_key v" and "settable_inserts A raw_key" and "savable A oop upval v"
    and "rb_inv (srb s)" and "content (srb s) = []" and "index \<le> ltop s"
    and "length (encode A upval v) \<le> unat (cb (srb s))" and "stack_ok A d (slots upval v)"
  shows "\<exists>s' v' rb'. rb_save A oop upval index v s = Ret 0 s' \<and> retained s' = retained s @ pointers upval v \<and>
    rb_load A d (srb s') = Ret (LoadVal v') rb' \<and> mset (pointers upval v') = mset (pointers upval v)"
proof -
  obtain v' where v': "reload A upval v = Some v'" "mset (pointers upval v') = mset (pointers upval v)"
    using reload_portable(1) [OF assms(1,2)] by blast
  have "fits s (encode A upval v)" using assms(5,7) by (simp add: fits_def)
  then obtain s' where s': "rb_save A oop upval index v s = Ret 0 s'" "rb_inv (srb s')" "content (srb s') = encode A upval v @ []"
      "retained s' = retained s @ pointers upval v"
    using rb_save_spec(1) [OF assms(3,4,6)] assms(5) by (auto simp: save_spec_def appended_def stuck_def)
  from stored.rb_load_front [OF v'(1) s'(2,3) assms(8)] s' v'(2) show ?thesis by (auto simp: stored.loaded_def)
qed

section \<open>A channel that is sent away\<close>

text \<open>The calls of \<open>retain\<close> that saving made for the object at \<open>p\<close>, and then the one release of the sender, who drops it.\<close>

definition sent_away :: "pointer \<Rightarrow> pointer list \<Rightarrow> bool list" where
  "sent_away p ps = map (\<lambda>_. True) (filter (\<lambda>q. q = p) ps) @ [False]"

lemma sent_away_history:
  assumes "count_list ps p = k" and "0 < k"
  shows "sent_away p ps = replicate k True @ [False]"
proof -
  have "map (\<lambda>_. True) (filter (\<lambda>q. q = p) ps) = replicate k True"
    using assms(1) by (induction ps arbitrary: k) (auto simp: Suc_le_eq)
  then show ?thesis by (simp add: sent_away_def)
qed

lemma channel_sent_away:
  assumes "0 < k" and "k + 2 < 2 ^ 31"
  shows "\<exists>ch. chan_rc.history t (replicate k True @ [False]) (channel_create junk) = Some ch \<and> chan_refs ch = k \<and>
    chan_rc.history t (replicate k False) ch = None"
proof -
  let ?bs = "replicate k True @ [False]"
  have bal: "chan_rc.balance (replicate n True) = int n" for n by (induction n) simp_all
  have "chan_rc.balance ?bs = int k - 1" using bal [of k] by (simp add: chan_rc.balance_def)
  moreover have "0 < 1 + chan_rc.balance (take n ?bs)" if "n \<le> length ?bs" for n
  proof (cases "n \<le> k")
    case True
    then show ?thesis using bal [of n] by simp
  next
    case False
    then have "take n ?bs = ?bs" using that by simp
    then show ?thesis using assms(1) \<open>chan_rc.balance ?bs = int k - 1\<close> by simp
  qed
  ultimately obtain ch where ch: "chan_rc.history t ?bs (channel_create junk) = Some ch" "chan_refs ch = k"
    using chan_rc.history_alive [of "channel_create junk" ?bs t] chan_rc.refs_fresh [of junk] assms(2) by auto
  moreover have "chan_rc.history t (replicate k False) ch = None"
    using chan_rc.history_released [of ch "k - 1" t] ch(2) assms by simp
  ultimately show ?thesis by blast
qed

end
