(* ===== verification/Spec2Isabelle.thy ===== *)
theory Spec2Isabelle
  imports ChannelSync Connections Module TensorCuda References
begin

text \<open>
  A verification of torch-ipc, a C library that moves Lua values between threads, processes
  and machines. Paths below are relative to the \<^verbatim>\<open>src\<close> directory of the repository.

  \<^bold>\<open>The program.\<close> Everything rests on a growable ring buffer of bytes (\<^verbatim>\<open>ringbuffer.c\<close>) and on a serializer
  (\<^verbatim>\<open>serialize.c\<close>) that writes a Lua value into it and reads one back. Channels (\<^verbatim>\<open>channel.c\<close>), workqueues
  (\<^verbatim>\<open>workqueue.c\<close>), marshals (\<^verbatim>\<open>marshal.c\<close>) and shared tables (\<^verbatim>\<open>sharedtable.c\<close>) each keep ring buffers of
  serialized values, guarded by a recursive POSIX mutex and shared between threads by reference counts;
  \<^verbatim>\<open>mutex.c\<close> has locks and barriers. Clients and servers (\<^verbatim>\<open>cliser.c\<close>) send serialized values over sockets, and tensors
  element by element (\<^verbatim>\<open>generic/cliser.c\<close>); \<^verbatim>\<open>map.c\<close> runs a function in several threads, which get their arguments and
  return their results through ring buffers, \<^verbatim>\<open>spawn.c\<close> runs processes behind pipes, \<^verbatim>\<open>flock.c\<close> locks files, and \<^verbatim>\<open>ipc.c\<close> makes
  the functions of all parts known to Lua.

  \<^bold>\<open>Theories, in the order in which they depend on each other.\<close>

  \<^item> \<open>Prelude\<close>: machine integers as words of their width, results of C functions with undefined behaviour as
    the value \<open>Crash\<close>, memory blocks whose copies are checked against the block's size, and the bytes of an integer.
    \<open>junk\<close>, an argument of every definition that allocates, is what \<open>malloc\<close> left in the block.
  \<^item> \<open>RingBuffer\<close>: \<^verbatim>\<open>ringbuffer.c\<close>, function by function, with \<open>size_t\<close> as \<open>64 word\<close>. The invariant \<open>rb_inv\<close>, the
    contents of a buffer as a list of bytes, and the locale \<open>byte_fifo\<close> (a bounded queue of bytes with marks to go back
    to), interpreted on the ring buffer; the serializer's proofs use only its facts.
  \<^item> \<open>LuaValue\<close>: Lua values, raised errors, and the record \<open>lua_api\<close> of what the library uses of the Lua C API. The
    record is an argument of every definition that calls the API. What a theorem needs of it is a hypothesis
    of that theorem (that \<open>lua_load\<close> reads what \<open>lua_dump\<close> wrote, that a table stores what is set); \<open>small_lua\<close> is an
    instance on which the witnesses evaluate.
  \<^item> \<open>Serialize\<close>, \<open>Deserialize\<close>: \<open>rb_save\<close> and \<open>rb_load\<close> of \<^verbatim>\<open>serialize.c\<close> with their helpers. \<open>encode\<close> gives the bytes of
    a value, \<open>savable\<close> the values that can be saved, \<open>reload\<close> the value that loading gives back. A save appends
    exactly the encoding or leaves the contents as they were; a load of an encoding gives the value back up to the order
    of table entries. A load ends on any bytes whatever, but malformed ones can lead to undefined behaviour, a copy beyond a local buffer or Lua calls on
    wrong stack slots; the model stops there.
  \<^item> \<open>Pthread\<close>: recursive mutexes, handlers that block on a mutex or wait on a condition, whom the calls made on a condition wake (\<open>cond_wake\<close>), and the atomic counters
    of TH as the record \<open>th_api\<close> with \<open>th_ok\<close> as what they promise. The locale \<open>counted\<close>: an object whose references are
    counted lives exactly as long as there are references; channels, marshals, mutexes and shared tables interpret it.
  \<^item> \<open>Growth\<close>: the loop \<open>rb_save_with_growth\<close> that each component has, and the loop of a write of several values;
    the locale \<open>item_queue\<close>: a buffer that holds a list of values, interpreted on the ring buffer.
  \<^item> \<open>Channel\<close>: the handlers of \<^verbatim>\<open>channel.c\<close> and their refinement to a list of values with a closed flag.
    \<open>ChannelSync\<close>: readers and writers around a channel as a step relation, with the wake-ups of its condition variable.
    \<open>References\<close>: the references that values carry are taken once when they are saved and handed out once when they are loaded; the root theory has what that means for a channel
    that is sent through a buffer.
  \<^item> \<open>DList\<close>: the locale \<open>intrusive_list\<close> of doubly linked lists through the objects they link. \<open>Workqueue\<close>: the handlers
    of \<^verbatim>\<open>workqueue.c\<close>, the registry of named workqueues (an interpretation of that list), and the refinement of a
    workqueue to two lists of values.
  \<^item> \<open>Marshal\<close>, \<open>Mutex\<close>, \<open>SharedTable\<close>: the handlers of \<^verbatim>\<open>marshal.c\<close>, \<^verbatim>\<open>mutex.c\<close> and \<^verbatim>\<open>sharedtable.c\<close>; the barrier is a
    state machine of threads that arrive, wait and return, in which the calls that the handlers make on the condition decide who is woken.
  \<^item> \<open>Os\<close>: system calls, whose results the record \<open>kernel\<close> decides call by call, and byte streams behind descriptors. The locales \<open>stream_writer\<close> and
    \<open>stream_reader\<close>: a loop around a call that moves as many bytes as the system likes moves all of them. \<open>open_fds\<close> are the descriptors a
    sequence of calls leaves open.
  \<^item> \<open>Sockets\<close>, \<open>Cliser\<close>, \<open>Connections\<close>: \<^verbatim>\<open>cliser.c\<close> from the send and receive loops to the handlers of server, server client and client; the list of
    a server's clients is another interpretation of \<open>intrusive_list\<close>. The locale \<open>connection\<close> is the contract of the two ends of a socket (values arrive in
    order), interpreted in both directions.
  \<^item> \<open>Tensor\<close>: storages and tensors over a socket. \<open>offsets\<close> is the order in which elements have to go; the locale \<open>block_walk\<close> shows that the recursions
    over the dimensions visit blocks in that order, and the locale \<open>byte_transport\<close>, what the transfer of single blocks has to
    keep to, that whole tensors then arrive. It is interpreted on the transfer from the host's memory and, in \<open>TensorCuda\<close>, on the one through two
    buffers from and to a GPU. \<open>TensorCuda\<close> also has the fast path between GPUs with its table of mapped allocations.
  \<^item> \<open>Map_Threads\<close>: \<^verbatim>\<open>map.c\<close>; the locale \<open>drain_loop\<close> is the loop that loads values until the buffer is empty, which the threads and \<open>join\<close> have. \<open>Spawn\<close>:
    \<^verbatim>\<open>spawn.c\<close> and \<open>ipc_waitpid\<close>. \<open>FileLock\<close>: \<^verbatim>\<open>flock.c\<close>. \<open>Module\<close>: the tables of functions and metatables of \<^verbatim>\<open>ipc.c\<close> and
    the signal it ignores; functions are there by their names.

  \<^bold>\<open>What the lemmas show.\<close> Of the ring buffer, channels and workqueues, that they refine queues of bytes or values; of the serializer, marshals, shared tables,
  connections and tensors, that what goes in comes out, and what happens to what cannot be saved; of the registry of workqueues and the lists of
  clients, that they stay well-formed; of \<^verbatim>\<open>map.c\<close> and \<^verbatim>\<open>spawn.c\<close>, that results come back in order and that no descriptor is lost on any path, except that the code takes the number 0 for
  a descriptor that was never opened; of loops, that they end, or exactly when they do not. Where the code does not keep to what it is for, a theorem exhibits the case: a wake-up that is lost, a
  receive that never returns, an error that is reported with the wrong number.

  \<^bold>\<open>Parameters.\<close> Code that is not part of the repository is an argument, and what a theorem needs of it a hypothesis with the name of the argument's contract: the
  Lua API (\<open>lua_api\<close>, \<open>table_api\<close>), the counters of TH (\<open>th_api\<close>, \<open>th_ok\<close>), the system (\<open>kernel\<close> with \<open>streams_ok\<close>, \<open>closes_ok\<close>, \<open>waits_ok\<close>, \<open>clock_runs\<close>), \<open>qsort\<close>
  (\<open>qsort_ok\<close>), what runs in the threads of a map (\<open>thread_env\<close>), \<open>luaT_setfuncs\<close> (\<open>setfuncs_ok\<close>), the two functions of torch on the shape of a tensor (\<open>th_tensor\<close>,
  \<open>th_tensor_ok\<close>) and the CUDA runtime (\<open>cuda\<close>, \<open>cuda_ok\<close>). Each has an instance on which the witnesses evaluate.

  \<^bold>\<open>How the code's behaviour is represented.\<close> A function called from Lua has a result of type \<open>lres\<close>: it returns,
  raises a Lua error with the state as it is at that moment (a mutex that was locked stays locked), or has
  undefined behaviour (\<open>Abort\<close>). Handlers that take a mutex have an \<open>outcome\<close>: done, blocked by another thread's
  lock, or waiting on a condition variable with the state they leave behind; a thread that is woken runs the round
  of the loop again. Objects that are freed are \<open>None\<close>, and using one is a fault.

  \<^bold>\<open>Loops.\<close> \<open>rb_load\<close> recurses through its data and has fuel, twice the number of bytes in the buffer plus one: a nested
  load consumes at least the byte of its type, and between two bytes there is at most one call that
  consumes none. \<open>rb_load_terminates\<close> shows that this is always enough. Every other loop without an evident bound is a partial function where
  \<open>None\<close> is a loop that never ends: the growth loop, the searches of linked lists, the loops around system calls, the loops over blocks of a tensor on a GPU. That they
  end is part of the theorems about them, and where they may not, as the growth loop with increment 0 or a receive from a peer that is gone, that is a theorem of its own.

  \<^bold>\<open>Concurrency.\<close> The steps of the models with several threads are whole critical sections, which the mutexes make atomic. A copy from or to a GPU runs beside the
  program until an event or a synchronisation says that it is done; a buffer that the program touches before is a fault.

  \<^bold>\<open>What is not modelled.\<close> The seconds in the statistics of a connection and the table that \<open>netStats\<close> makes of them; \<open>sharedtable_size\<close>, which reports memory use; \<open>getpid\<close>,
  \<open>getppid\<close>, \<open>gettid\<close> and \<open>fork\<close> of \<^verbatim>\<open>ipc.c\<close>, which return the result of a system call; the search for the state of cutorch. The handlers that accept and
  open connections are those of a build without CUDA, where \<open>can_use_fastpath\<close> is 0; the function of the other builds is modelled by itself. Failure of \<open>malloc\<close> is not modelled: the code does
  not check for it. A Lua string used as a C string (a tag, the name of a workqueue, a file name) ends at its first zero byte (\<open>c_string\<close>).
\<close>

section \<open>Properties of several components\<close>

text \<open>
  C6: A channel that its only owner sends away, \<open>k\<close> times in one value, and then drops is not freed on the way: saving takes a reference for each occurrence, so that \<open>k\<close> are left, and the value that
  is loaded has \<open>k\<close> userdata for it. When each of these has been collected the channel is freed, and not before.
\<close>

theorem sent_channel_survives:
  assumes "portable A raw_key v" and "settable_inserts A raw_key" and "savable A oop upval v"
    and "rb_inv (srb s)" and "content (srb s) = []" and "index \<le> ltop s"
    and "length (encode A upval v) \<le> unat (cb (srb s))" and "stack_ok A d (slots upval v)"
    and "th_ok T" and "count_list (pointers upval v) p = k" and "0 < k" and "k + 2 < 2 ^ 31"
  shows "\<exists>s' v' rb' ch. rb_save A oop upval index v s = Ret 0 s' \<and>
    counted.history (chan_retained T t) (chan_released T t) (sent_away p (drop (length (retained s)) (retained s'))) (channel_create junk) = Some ch \<and>
    chan_refs ch = k \<and> rb_load A d (srb s') = Ret (LoadVal v') rb' \<and> count_list (pointers upval v') p = k \<and>
    counted.history (chan_retained T t) (chan_released T t) (replicate k False) ch = None"
proof -
  obtain s' v' rb' where s': "rb_save A oop upval index v s = Ret 0 s'" "retained s' = retained s @ pointers upval v"
      "rb_load A d (srb s') = Ret (LoadVal v') rb'" "mset (pointers upval v') = mset (pointers upval v)"
    using references_balanced [OF assms(1-8)] by blast
  moreover have "count_list (pointers upval v') p = k" using s'(4) assms(10) by (metis count_mset)
  moreover obtain ch where "chan_rc.history t (replicate k True @ [False]) (channel_create junk) = Some ch" "chan_refs ch = k"
      "chan_rc.history t (replicate k False) ch = None"
    using channel_sent_away [OF assms(11,12)] by blast
  ultimately show ?thesis using sent_away_history [OF assms(10,11)] by (auto simp: th_ok_model [OF assms(9)])
qed

theorem sent_channel_survives_witness:
  "\<exists>s' v' rb' ch. rb_save small_lua False 0 2 (LTable [(LInteger 1, LUserdata (NamedMeta [99]) 64), (LInteger 2, LUserdata (NamedMeta [99]) 64)] NoMeta) (small_state 99) =
      Ret 0 s' \<and>
    counted.history (chan_retained th_model 1) (chan_released th_model 1) (sent_away 64 (drop (length (retained (small_state 99))) (retained s')))
      (channel_create (\<lambda>_. 0)) = Some ch \<and>
    chan_refs ch = 2 \<and> rb_load small_lua 0 (srb s') = Ret (LoadVal v') rb' \<and> count_list (pointers 0 v') 64 = 2 \<and>
    counted.history (chan_retained th_model 1) (chan_released th_model 1) (replicate 2 False) ch = None"
  by (rule sent_channel_survives [OF _ small_lua_inserts])
    (simp_all add: max_object_def stack_ok_def list_all_iff str_bytes_def c_string_def)

end
